(* ===== verification/Prelude.thy ===== *)
theory Prelude
  imports Main "HOL-Library.Word" "HOL-Library.Monad_Syntax"
begin

text \<open>
  Shared by every theory of the development: the names of the machine types, the
  collections of proof rules, and generic lemmas on words and lists.
  \<^item> \<open>mem_simps\<close>: reading a field of an object after a write to a field of an object;
  \<^item> \<open>frame_intros\<close>: a sequence of writes leaves the other objects alone;
  \<^item> \<open>code_defs\<close>: the definitions that transcribe straight-line code, unfolded when a
    proof executes it symbolically.
\<close>

type_synonym u8 = "8 word"
type_synonym u16 = "16 word"
type_synonym u32 = "32 word"
type_synonym u64 = "64 word"

text \<open>A C pointer (LP64): 0 is \<open>NULL\<close>.\<close>

type_synonym ptr = "64 word"

abbreviation NULL :: ptr where
  "NULL \<equiv> 0"

named_theorems mem_simps "reads after writes of object fields"
named_theorems frame_intros "writes that leave other objects alone"
named_theorems code_defs "transcriptions of straight-line code"

subsection \<open>Words\<close>

lemma unat_nonzero [simp]: "x \<noteq> 0 \<Longrightarrow> 0 < unat x" for x :: "'a::len word"
  by (simp add: unat_gt_0)

lemma unat_bound: "unat x < 2 ^ LENGTH('a)" for x :: "'a::len word"
  by (rule unsigned_less)

lemma nonzero_unat: "k < unat x \<Longrightarrow> x \<noteq> 0" for x :: "'a::len word"
  by auto

lemma unat_ucast_up [simp]:
  "LENGTH('a) \<le> LENGTH('b) \<Longrightarrow> unat (ucast x :: 'b::len word) = unat x" for x :: "'a::len word"
proof -
  assume "LENGTH('a) \<le> LENGTH('b)"
  then have "unat x < 2 ^ LENGTH('b)"
    using unat_bound [of x] by (meson less_le_trans one_le_numeral power_increasing)
  then show ?thesis
    by (simp add: unsigned_ucast_eq take_bit_nat_eq_self)
qed

lemma unat_ucast_small:
  "unat w < 2 ^ LENGTH('b) \<Longrightarrow> unat (ucast w :: 'b::len word) = unat w" for w :: "'a::len word"
  by (simp add: unsigned_ucast_eq take_bit_nat_eq_self)

lemma unat_minus_one_word: "x \<noteq> 0 \<Longrightarrow> unat (x - 1) = unat x - 1" for x :: "'a::len word"
  by (rule unat_minus_one)

lemma unat_plus_one: "unat x + 1 < 2 ^ LENGTH('a) \<Longrightarrow> unat (x + 1) = unat x + 1"
  for x :: "'a::len word"
  by (simp add: unat_word_ariths)

lemma unat_eq_of_nat: "unat w = n \<Longrightarrow> w = of_nat n" for w :: "'a::len word"
  by auto

text \<open>Signed values: a word that is not negative reads the same, and \<open>~w\<close> is \<open>-w - 1\<close>.\<close>

unbundle bit_operations_syntax

lemma unat_nonneg: "0 \<le> sint w \<Longrightarrow> int (unat w) = sint w" for w :: "32 word"
  using sint_less [of w] by (simp add: uint_sint take_bit_int_eq_self)

lemma sint_small_word:
  fixes w :: "'a::len word"
  assumes "unat w < 2 ^ (LENGTH('a) - 1)"
  shows "sint w = int (unat w)"
proof -
  from assms have "int (unat w) < int (2 ^ (LENGTH('a) - 1))" by (simp only: of_nat_less_iff)
  then have u: "uint w < 2 ^ (LENGTH('a) - 1)" by simp
  have "0 \<le> uint w" by simp
  then have l: "- (2 ^ (LENGTH('a) - 1)) \<le> uint w" by (rule order_trans [rotated]) simp
  have "signed_take_bit (LENGTH('a) - 1) (uint w) = uint w"
    by (rule signed_take_bit_int_eq_self [OF l u])
  then show ?thesis by (simp add: sint_uint)
qed

lemma sint_small: "unat w < 2 ^ 31 \<Longrightarrow> sint w = int (unat w)" for w :: "32 word"
  by (rule sint_small_word) simp

lemma sint_small64: "unat w < 2 ^ 63 \<Longrightarrow> sint w = int (unat w)" for w :: "64 word"
  by (rule sint_small_word) simp

lemma count_distinct: "distinct xs \<Longrightarrow> count_list xs x = of_bool (x \<in> set xs)"
  by (induction xs) auto

lemma sint_not: "sint (NOT w) = - sint w - 1" for w :: "32 word"
  using sint_less [of w] sint_greater_eq [of w]
  by (simp add: signed_not_eq signed_take_bit_int_eq_self not_int_def)

lemma unat_not: "sint w < 0 \<Longrightarrow> int (unat (NOT w)) = - sint w - 1" for w :: "32 word"
  using unat_nonneg [of "NOT w"] by (simp add: sint_not)

lemma from_end:
  "int j = - i - 1 \<Longrightarrow> j < n \<Longrightarrow> nat (int n + i) = n - Suc j \<and> - int n \<le> i"
  by linarith

subsection \<open>Lists\<close>

text \<open>The first element of a list of pointers, or \<open>NULL\<close>; the last one, or \<open>NULL\<close>.\<close>

definition head_or :: "ptr \<Rightarrow> ptr list \<Rightarrow> ptr" where
  "head_or d ps = (case ps of [] \<Rightarrow> d | p # _ \<Rightarrow> p)"

definition last_or :: "ptr \<Rightarrow> ptr list \<Rightarrow> ptr" where
  "last_or d ps = (if ps = [] then d else last ps)"

lemma head_or_simps [simp]:
  "head_or d [] = d" "head_or d (p # ps) = p"
  by (simp_all add: head_or_def)

lemma last_or_simps [simp]:
  "last_or d [] = d" "last_or d (p # ps) = last_or p ps" "last_or d (ps @ [p]) = p"
  by (simp_all add: last_or_def)

lemma head_or_append [simp]: "head_or d (ps @ qs) = head_or (head_or d qs) ps"
  by (cases ps) simp_all

lemma last_or_append [simp]: "last_or d (ps @ qs) = last_or (last_or d ps) qs"
  by (simp add: last_or_def)

lemma last_or_in: "ps \<noteq> [] \<Longrightarrow> last_or d ps \<in> set ps"
  by (simp add: last_or_def)

lemma head_or_in: "ps \<noteq> [] \<Longrightarrow> head_or d ps \<in> set ps"
  by (cases ps) simp_all

end
