(* ===== verification/Ipc.thy ===== *)
theory Ipc
  imports Prelude
begin

text \<open>
  The synchronisation of the application and the poller (\<open>udpdk/udpdk_sync.c\<close>): one ring in each
  direction and a pool of messages, all of DPDK, whose operations are parameters. The other
  process runs between the attempts of a wait, so the outcomes of the attempts are a parameter
  too.
\<close>

subsection \<open>State and operations\<close>

text \<open>The two rings and the pool, \<open>None\<close> for a \<open>NULL\<close> pointer.\<close>

record ('r, 'q) ipc =
  ipc_app_to_pol :: "'r option"
  ipc_pol_to_app :: "'r option"
  ipc_msg_pool :: "'q option"

record ('p, 'r, 'q) ipc_ops =
  ipc_enqueue :: "'p \<Rightarrow> 'r \<Rightarrow> 'r option"
  ipc_dequeue :: "'r \<Rightarrow> ('p \<times> 'r) option"
  mempool_get :: "'q \<Rightarrow> ('p \<times> 'q) option"
  mempool_put :: "'p \<Rightarrow> 'q \<Rightarrow> 'q"

text \<open>
  \<open>ring_create name count\<close> and \<open>mempool_create name n size\<close> stand for \<open>rte_ring_create\<close> and
  \<open>rte_mempool_create\<close>, the lookups for \<open>rte_ring_lookup\<close> and \<open>rte_mempool_lookup\<close>.
\<close>

definition init_ipc_channel ::
  "(string \<Rightarrow> nat \<Rightarrow> 'r option) \<Rightarrow> (string \<Rightarrow> nat \<Rightarrow> nat \<Rightarrow> 'q option) \<Rightarrow> ('r, 'q) ipc \<Rightarrow> int \<times> ('r, 'q) ipc" where
  "init_ipc_channel ring_create mempool_create s =
     (let s = s\<lparr>ipc_app_to_pol := ring_create ''IPC_channel_app_to_pol'' 1\<rparr>
      in if ipc_app_to_pol s = None then (-1, s)
         else let s = s\<lparr>ipc_pol_to_app := ring_create ''IPC_channel_pol_to_app'' 1\<rparr>
              in if ipc_pol_to_app s = None then (-1, s)
                 else (0, s\<lparr>ipc_msg_pool := mempool_create ''IPC_msg_pool'' 5 64\<rparr>))"

definition retrieve_ipc_channel ::
  "(string \<Rightarrow> 'r option) \<Rightarrow> (string \<Rightarrow> 'q option) \<Rightarrow> ('r, 'q) ipc \<Rightarrow> int \<times> ('r, 'q) ipc" where
  "retrieve_ipc_channel ring_lookup mempool_lookup s =
     (let s = s\<lparr>ipc_app_to_pol := ring_lookup ''IPC_channel_app_to_pol''\<rparr>
      in if ipc_app_to_pol s = None then (-1, s)
         else let s = s\<lparr>ipc_pol_to_app := ring_lookup ''IPC_channel_pol_to_app''\<rparr>
              in if ipc_pol_to_app s = None then (-1, s)
                 else let s = s\<lparr>ipc_msg_pool := mempool_lookup ''IPC_msg_pool''\<rparr>
                      in if ipc_msg_pool s = None then (-1, s) else (0, s))"

definition WAIT_MAX_CYCLES :: nat where
  "WAIT_MAX_CYCLES = 100"

text \<open>
  The loop of both waits: \<open>ring c\<close> is the ring as attempt \<open>c\<close> finds it. The result is the
  message and the ring without it, or \<open>None\<close> when the loop gives up.
\<close>

function ipc_wait_loop :: "('p, 'r, 'q, 'z) ipc_ops_scheme \<Rightarrow> (nat \<Rightarrow> 'r) \<Rightarrow> nat \<Rightarrow> ('p \<times> 'r) option" where
  "ipc_wait_loop ops ring c = (case ipc_dequeue ops (ring c) of
       Some (msg, r) \<Rightarrow> Some (msg, r)
     | None \<Rightarrow> (let c = c + 1 in if WAIT_MAX_CYCLES < c then None else ipc_wait_loop ops ring c))"
  by pat_completeness auto
termination
  by (relation "measure (\<lambda>(ops, ring, c). WAIT_MAX_CYCLES + 1 - c)") auto

declare ipc_wait_loop.simps [simp del]

text \<open>The outer option is the call on a \<open>NULL\<close> ring or pool.\<close>

definition ipc_wait_for_app ::
  "('p, 'r, 'q, 'z) ipc_ops_scheme \<Rightarrow> (nat \<Rightarrow> 'r) \<Rightarrow> ('r, 'q) ipc \<Rightarrow> (int \<times> ('r, 'q) ipc) option" where
  "ipc_wait_for_app ops ring s = do {
     _ \<leftarrow> ipc_app_to_pol s;
     case ipc_wait_loop ops ring 0 of
       None \<Rightarrow> Some (-1, s)
     | Some (msg, r) \<Rightarrow> do {
         pool \<leftarrow> ipc_msg_pool s;
         Some (0, s\<lparr>ipc_app_to_pol := Some r, ipc_msg_pool := Some (mempool_put ops msg pool)\<rparr>) } }"

definition ipc_wait_for_poller ::
  "('p, 'r, 'q, 'z) ipc_ops_scheme \<Rightarrow> (nat \<Rightarrow> 'r) \<Rightarrow> ('r, 'q) ipc \<Rightarrow> (int \<times> ('r, 'q) ipc) option" where
  "ipc_wait_for_poller ops ring s = do {
     _ \<leftarrow> ipc_pol_to_app s;
     case ipc_wait_loop ops ring 0 of
       None \<Rightarrow> Some (-1, s)
     | Some (msg, r) \<Rightarrow> do {
         pool \<leftarrow> ipc_msg_pool s;
         Some (0, s\<lparr>ipc_pol_to_app := Some r, ipc_msg_pool := Some (mempool_put ops msg pool)\<rparr>) } }"

text \<open>\<open>rte_panic\<close> ends the process: \<open>None\<close>.\<close>

definition ipc_notify_to_app :: "('p, 'r, 'q, 'z) ipc_ops_scheme \<Rightarrow> ('r, 'q) ipc \<Rightarrow> ('r, 'q) ipc option" where
  "ipc_notify_to_app ops s = do {
     pool \<leftarrow> ipc_msg_pool s;
     (msg, pool) \<leftarrow> mempool_get ops pool;
     r \<leftarrow> ipc_pol_to_app s;
     Some (case ipc_enqueue ops msg r of
         None \<Rightarrow> s\<lparr>ipc_msg_pool := Some (mempool_put ops msg pool)\<rparr>
       | Some r \<Rightarrow> s\<lparr>ipc_pol_to_app := Some r, ipc_msg_pool := Some pool\<rparr>) }"

definition ipc_notify_to_poller :: "('p, 'r, 'q, 'z) ipc_ops_scheme \<Rightarrow> ('r, 'q) ipc \<Rightarrow> ('r, 'q) ipc option" where
  "ipc_notify_to_poller ops s = do {
     pool \<leftarrow> ipc_msg_pool s;
     (msg, pool) \<leftarrow> mempool_get ops pool;
     r \<leftarrow> ipc_app_to_pol s;
     Some (case ipc_enqueue ops msg r of
         None \<Rightarrow> s\<lparr>ipc_msg_pool := Some (mempool_put ops msg pool)\<rparr>
       | Some r \<Rightarrow> s\<lparr>ipc_app_to_pol := Some r, ipc_msg_pool := Some pool\<rparr>) }"

subsection \<open>The waiting loop\<close>

lemma ipc_wait_again:
  "ipc_dequeue ops (ring c) = None \<Longrightarrow> c < WAIT_MAX_CYCLES \<Longrightarrow>
    ipc_wait_loop ops ring c = ipc_wait_loop ops ring (Suc c)"
  by (subst ipc_wait_loop.simps) simp

lemma ipc_wait_over:
  "ipc_dequeue ops (ring c) = None \<Longrightarrow> WAIT_MAX_CYCLES \<le> c \<Longrightarrow> ipc_wait_loop ops ring c = None"
  by (subst ipc_wait_loop.simps) simp

lemma ipc_wait_got: "ipc_dequeue ops (ring c) = Some x \<Longrightarrow> ipc_wait_loop ops ring c = Some x"
  by (subst ipc_wait_loop.simps) (simp split: prod.split)

text \<open>The loop takes what the first attempt that succeeds yields, among the first 101.\<close>

lemma ipc_wait_until:
  "c + n \<le> WAIT_MAX_CYCLES \<Longrightarrow> (\<And>j. j < n \<Longrightarrow> ipc_dequeue ops (ring (c + j)) = None) \<Longrightarrow>
    ipc_wait_loop ops ring c = ipc_wait_loop ops ring (c + n)"
proof (induction n arbitrary: c)
  case (Suc n)
  have "ipc_wait_loop ops ring c = ipc_wait_loop ops ring (Suc c)"
    using Suc.prems(1) Suc.prems(2) [of 0] by (intro ipc_wait_again) simp_all
  also have "\<dots> = ipc_wait_loop ops ring (Suc c + n)"
    using Suc.prems(1) Suc.prems(2) [of "Suc j" for j] by (intro Suc.IH) simp_all
  finally show ?case by simp
qed simp

lemma ipc_wait_first:
  assumes "k \<le> WAIT_MAX_CYCLES" "\<And>j. j < k \<Longrightarrow> ipc_dequeue ops (ring j) = None" "ipc_dequeue ops (ring k) = Some x"
  shows "ipc_wait_loop ops ring 0 = Some x"
  using ipc_wait_until [of 0 k ops ring] ipc_wait_got [of ops ring k] assms by simp

lemma ipc_wait_none:
  assumes "\<And>j. j \<le> WAIT_MAX_CYCLES \<Longrightarrow> ipc_dequeue ops (ring j) = None"
  shows "ipc_wait_loop ops ring 0 = None"
  using ipc_wait_until [of 0 WAIT_MAX_CYCLES ops ring] ipc_wait_over [of ops ring WAIT_MAX_CYCLES] assms by simp

end
