(* ===== verification/Properties_Ipc.thy ===== *)
theory Properties_Ipc
  imports Ipc
begin

text \<open>
  Properties of the synchronisation between the two processes, each with an instance.
\<close>

text \<open>
  What DPDK documents of rings: they are first in, first out, and a ring created for \<open>count\<close>
  entries has room for \<open>count - 1\<close>.
\<close>

definition ring_laws ::
  "('p, 'r, 'q, 'z) ipc_ops_scheme \<Rightarrow> ('r \<Rightarrow> 'p list) \<Rightarrow> ('r \<Rightarrow> nat) \<Rightarrow> bool" where
  "ring_laws ops entries usable \<longleftrightarrow>
     (\<forall>m r. case ipc_enqueue ops m r of
        None \<Rightarrow> usable r \<le> length (entries r)
      | Some r' \<Rightarrow> length (entries r) < usable r \<and> entries r' = entries r @ [m] \<and> usable r' = usable r) \<and>
     (\<forall>r. case ipc_dequeue ops r of
        None \<Rightarrow> entries r = []
      | Some (m, r') \<Rightarrow> entries r = m # entries r' \<and> usable r' = usable r)"

definition create_law :: "(string \<Rightarrow> nat \<Rightarrow> 'r option) \<Rightarrow> ('r \<Rightarrow> 'p list) \<Rightarrow> ('r \<Rightarrow> nat) \<Rightarrow> bool" where
  "create_law ring_create entries usable \<longleftrightarrow>
     (\<forall>name count r. ring_create name count = Some r \<longrightarrow> entries r = [] \<and> usable r = count - 1)"

definition demo_ipc :: "(nat, nat list \<times> nat, nat) ipc_ops" where
  "demo_ipc =
     \<lparr>ipc_enqueue = (\<lambda>m (ms, n). if length ms < n then Some (ms @ [m], n) else None),
      ipc_dequeue = (\<lambda>(ms, n). case ms of [] \<Rightarrow> None | m # ms \<Rightarrow> Some (m, (ms, n))),
      mempool_get = (\<lambda>k. if k = 0 then None else Some (k, k - 1)), mempool_put = (\<lambda>_ k. k + 1)\<rparr>"

lemma demo_ring_laws: "ring_laws demo_ipc fst snd"
  by (auto simp: ring_laws_def demo_ipc_def split: list.split)

text \<open>
  \<open>ipc_wait_for_poller\<close> always returns: 0 with the message taken from the ring and given back
  to the pool, when one of the first 101 attempts finds one, and -1 with nothing changed
  otherwise.
\<close>

theorem ipc_wait_correct:
  assumes "ipc_pol_to_app s = Some r0" "ipc_msg_pool s = Some pool"
  shows "if \<exists>k \<le> WAIT_MAX_CYCLES. ipc_dequeue ops (ring k) \<noteq> None
    then \<exists>k m r. k \<le> WAIT_MAX_CYCLES \<and> ipc_dequeue ops (ring k) = Some (m, r) \<and>
      (\<forall>j < k. ipc_dequeue ops (ring j) = None) \<and>
      ipc_wait_for_poller ops ring s =
        Some (0, s\<lparr>ipc_pol_to_app := Some r, ipc_msg_pool := Some (mempool_put ops m pool)\<rparr>)
    else ipc_wait_for_poller ops ring s = Some (-1, s)"
proof (cases "\<exists>k \<le> WAIT_MAX_CYCLES. ipc_dequeue ops (ring k) \<noteq> None")
  case True
  define k where "k = (LEAST k. ipc_dequeue ops (ring k) \<noteq> None)"
  obtain k0 where k0: "k0 \<le> WAIT_MAX_CYCLES" "ipc_dequeue ops (ring k0) \<noteq> None" using True by blast
  have k: "ipc_dequeue ops (ring k) \<noteq> None" unfolding k_def by (rule LeastI [of _ k0]) (rule k0(2))
  have le: "k \<le> WAIT_MAX_CYCLES" using k0 unfolding k_def by (meson Least_le order_trans)
  have first: "ipc_dequeue ops (ring j) = None" if "j < k" for j
    using not_less_Least [OF that [unfolded k_def]] by blast
  obtain m r where m: "ipc_dequeue ops (ring k) = Some (m, r)" using k by fastforce
  have "ipc_wait_loop ops ring 0 = Some (m, r)" by (rule ipc_wait_first [where k = k]) (simp_all add: le first m)
  then have "ipc_wait_for_poller ops ring s =
      Some (0, s\<lparr>ipc_pol_to_app := Some r, ipc_msg_pool := Some (mempool_put ops m pool)\<rparr>)"
    using assms by (simp add: ipc_wait_for_poller_def)
  then show ?thesis using True le m first by auto
next
  case False
  then have "ipc_wait_loop ops ring 0 = None" by (intro ipc_wait_none) blast
  then show ?thesis using False assms(1) by (auto simp: ipc_wait_for_poller_def)
qed

lemma ipc_wait_correct_witness:
  "ipc_wait_for_poller demo_ipc (\<lambda>_. ([], 3))
     \<lparr>ipc_app_to_pol = None, ipc_pol_to_app = Some ([], 3), ipc_msg_pool = Some 5\<rparr> =
   Some (-1, \<lparr>ipc_app_to_pol = None, ipc_pol_to_app = Some ([], 3), ipc_msg_pool = Some 5\<rparr>)"
  using ipc_wait_correct [of "\<lparr>ipc_app_to_pol = None, ipc_pol_to_app = Some ([], 3), ipc_msg_pool = Some 5\<rparr>"
      "([], 3)" 5 demo_ipc "\<lambda>_. ([], 3)"] by (simp add: demo_ipc_def)

text \<open>
  C32: The rings of the channel are created for one entry and so have room for none. The
  notification for the poller is never put in the ring but given back to the pool, and the
  poller's wait ends with -1 after all its attempts (which \<open>poller_init\<close> does not look at).
\<close>

theorem ipc_handshake_lost:
  assumes "ring_laws ops entries usable" "create_law ring_create entries usable"
    and "init_ipc_channel ring_create mempool_create s0 = (0, s)"
    and "ipc_msg_pool s = Some pool" "mempool_get ops pool = Some (msg, pool')"
  shows "\<exists>r. ipc_app_to_pol s = Some r \<and>
    (\<forall>s'. s' = s\<lparr>ipc_msg_pool := Some (mempool_put ops msg pool')\<rparr> \<longrightarrow>
      ipc_notify_to_poller ops s = Some s' \<and> ipc_wait_for_app ops (\<lambda>_. r) s' = Some (-1, s'))"
proof -
  obtain r where r: "ring_create ''IPC_channel_app_to_pol'' 1 = Some r" "ipc_app_to_pol s = Some r"
    using assms(3) by (auto simp: init_ipc_channel_def Let_def split: if_splits)
  have e: "entries r = []" "usable r = 0"
    using assms(2) r(1) by (simp_all add: create_law_def)
  have "case ipc_enqueue ops msg r of
      None \<Rightarrow> usable r \<le> length (entries r)
    | Some r' \<Rightarrow> length (entries r) < usable r \<and> entries r' = entries r @ [msg] \<and> usable r' = usable r"
    using assms(1) by (simp add: ring_laws_def)
  then have enq: "ipc_enqueue ops msg r = None" by (simp add: e split: option.splits)
  have "case ipc_dequeue ops r of
      None \<Rightarrow> entries r = []
    | Some (m, r') \<Rightarrow> entries r = m # entries r' \<and> usable r' = usable r"
    using assms(1) by (simp add: ring_laws_def)
  then have deq: "ipc_dequeue ops r = None" by (simp add: e split: option.splits prod.splits)
  have "ipc_wait_loop ops (\<lambda>_. r) 0 = None" by (rule ipc_wait_none) (rule deq)
  then show ?thesis
    using r(2) enq assms(4,5) by (simp add: ipc_notify_to_poller_def ipc_wait_for_app_def)
qed

lemma ipc_handshake_lost_witness:
  "\<exists>s s'. init_ipc_channel (\<lambda>_ n. Some ([], n - 1)) (\<lambda>_ n _. Some n)
       \<lparr>ipc_app_to_pol = None, ipc_pol_to_app = None, ipc_msg_pool = None\<rparr> = (0, s) \<and>
     ipc_notify_to_poller demo_ipc s = Some s' \<and> ipc_wait_for_app demo_ipc (\<lambda>_. ([], 0)) s' = Some (-1, s')"
proof -
  let ?s = "\<lparr>ipc_app_to_pol = Some ([], 0), ipc_pol_to_app = Some ([], 0), ipc_msg_pool = Some 5\<rparr> ::
      (nat list \<times> nat, nat) ipc"
  have i: "init_ipc_channel (\<lambda>_ n. Some ([], n - 1)) (\<lambda>_ n _. Some n)
       \<lparr>ipc_app_to_pol = None, ipc_pol_to_app = None, ipc_msg_pool = None\<rparr> = (0, ?s)"
    by (simp add: init_ipc_channel_def)
  have c: "create_law (\<lambda>_ n. Some ([], n - 1)) fst snd" by (simp add: create_law_def)
  have g: "mempool_get demo_ipc 5 = Some (5, 4)" by (simp add: demo_ipc_def)
  from ipc_handshake_lost [OF demo_ring_laws c i _ g] show ?thesis using i by auto
qed

end
