(* ===== verification/Memory.thy ===== *)
theory Memory
  imports Prelude
begin

text \<open>
  The shared memory that the two processes map: bytes at addresses, little endian, and the
  layout (LP64) of the structs the library keeps in it. A field of an object is read with
  \<open>fld\<close> and written with \<open>upd\<close>; \<open>rd\<close> and \<open>wr\<close> add the dereference of the pointer, which
  is undefined for \<open>NULL\<close>. Objects that overlap corrupt each other, as they do in C: the
  laws of the accessors need the objects to be \<open>separated\<close>.
\<close>

subsection \<open>Bytes\<close>

type_synonym memory = "nat \<Rightarrow> u8"

fun load_nat :: "memory \<Rightarrow> nat \<Rightarrow> nat \<Rightarrow> nat" where
  "load_nat m a 0 = 0"
| "load_nat m a (Suc n) = unat (m a) + 256 * load_nat m (Suc a) n"

fun store_nat :: "memory \<Rightarrow> nat \<Rightarrow> nat \<Rightarrow> nat \<Rightarrow> memory" where
  "store_nat m a 0 v = m"
| "store_nat m a (Suc n) v = store_nat (m(a := of_nat v)) (Suc a) n (v div 256)"

lemma store_nat_outside: "x < a \<or> a + n \<le> x \<Longrightarrow> store_nat m a n v x = m x"
  by (induction m a n v rule: store_nat.induct) auto

lemma load_nat_cong:
  "(\<And>i. i < n \<Longrightarrow> m (a + i) = m' (a + i)) \<Longrightarrow> load_nat m a n = load_nat m' a n"
proof (induction m a n rule: load_nat.induct)
  case (2 m a n)
  have "load_nat m (Suc a) n = load_nat m' (Suc a) n"
    by (rule "2.IH") (use "2.prems" [of "Suc i" for i] in simp)
  with "2.prems" [of 0] show ?case by simp
qed simp

lemma load_store_nat: "load_nat (store_nat m a n v) a n = v mod 256 ^ n"
proof (induction m a n v rule: store_nat.induct)
  case (2 m a n v)
  have "store_nat (m(a := of_nat v)) (Suc a) n (v div 256) a = (of_nat v :: u8)"
    by (simp add: store_nat_outside)
  moreover have "unat (of_nat v :: u8) = v mod 256"
    by (simp add: unat_of_nat)
  ultimately show ?case
    using "2.IH" by (simp add: mod_mult2_eq del: fun_upd_apply)
qed simp

lemma load_store_nat_apart:
  "a + n \<le> b \<or> b + k \<le> a \<Longrightarrow> load_nat (store_nat m b k v) a n = load_nat m a n"
  by (rule load_nat_cong) (auto simp: store_nat_outside)

lemma load_nat_bound: "load_nat m a n < 256 ^ n"
proof (induction m a n rule: load_nat.induct)
  case (2 m a n)
  have "unat (m a) < 256" using unsigned_less [of "m a"] by simp
  with 2 show ?case by simp
qed simp

subsection \<open>Machine words in memory\<close>

text \<open>A word of \<open>LENGTH('a)\<close> bits takes \<open>LENGTH('a) div 8\<close> bytes.\<close>

definition ld :: "memory \<Rightarrow> nat \<Rightarrow> 'a::len word" where
  "ld m a = of_nat (load_nat m a (LENGTH('a) div 8))"

definition st :: "memory \<Rightarrow> nat \<Rightarrow> 'a::len word \<Rightarrow> memory" where
  "st m a v = store_nat m a (LENGTH('a) div 8) (unat v)"

text \<open>
  The interface the rest of the development uses: a cell of \<open>width\<close> bytes is read back as
  it was written, and a write changes no byte outside the cell.
\<close>

locale cell =
  fixes get :: "memory \<Rightarrow> nat \<Rightarrow> 'v"
    and set :: "memory \<Rightarrow> nat \<Rightarrow> 'v \<Rightarrow> memory"
    and width :: nat
  assumes get_set: "get (set m a v) a = v"
    and set_outside: "x < a \<or> a + width \<le> x \<Longrightarrow> set m a v x = m x"
    and get_cong: "(\<And>i. i < width \<Longrightarrow> m (a + i) = m' (a + i)) \<Longrightarrow> get m a = get m' a"
begin

lemma get_set_apart: "a + width \<le> b \<or> b + width \<le> a \<Longrightarrow> get (set m b v) a = get m a"
  by (rule get_cong) (auto intro: set_outside)

lemma set_frame: "b + n \<le> a \<or> a + width \<le> b \<Longrightarrow> i < n \<Longrightarrow> set m a v (b + i) = m (b + i)"
  by (rule set_outside) auto

end

lemma ld_st_same: "8 dvd LENGTH('a) \<Longrightarrow> ld (st m a v) a = v" for v :: "'a::len word"
proof -
  assume "8 dvd LENGTH('a)"
  then obtain k where k: "LENGTH('a) = 8 * k" by auto
  have "(256::nat) ^ k = 2 ^ LENGTH('a)"
    by (simp add: k power_mult)
  then have "unat v mod 256 ^ k = unat v"
    by (metis mod_less unsigned_less)
  then show ?thesis by (simp add: ld_def st_def load_store_nat k)
qed

lemma st_outside: "x < a \<or> a + LENGTH('a) div 8 \<le> x \<Longrightarrow> st m a v x = m x"
  for v :: "'a::len word"
  by (simp add: st_def store_nat_outside)

lemma ld_cong: "(\<And>i. i < LENGTH('a) div 8 \<Longrightarrow> m (a + i) = m' (a + i)) \<Longrightarrow>
    (ld m a :: 'a::len word) = ld m' a"
  by (simp add: ld_def load_nat_cong [of "LENGTH('a) div 8" m a m'])

interpretation c8: cell "ld :: memory \<Rightarrow> nat \<Rightarrow> u8" st 1
  by unfold_locales (auto simp: ld_st_same st_outside intro!: ld_cong)

interpretation c32: cell "ld :: memory \<Rightarrow> nat \<Rightarrow> u32" st 4
  by unfold_locales (auto simp: ld_st_same st_outside intro!: ld_cong)

interpretation c64: cell "ld :: memory \<Rightarrow> nat \<Rightarrow> u64" st 8
  by unfold_locales (auto simp: ld_st_same st_outside intro!: ld_cong)

subsection \<open>Struct layouts (LP64, natural alignment)\<close>

text \<open>The kinds of objects the allocators hand out, and their \<open>sizeof\<close>.\<close>

datatype obj_kind = ListObj | NodeObj | IterObj | InfoObj

fun sizeof :: "obj_kind \<Rightarrow> nat" where
  "sizeof ListObj = 40"
| "sizeof NodeObj = 24"
| "sizeof IterObj = 16"
| "sizeof InfoObj = 12"

text \<open>\<open>udpdk_list_node_t\<close>: \<open>prev\<close>, \<open>next\<close> and \<open>val\<close>, three pointers.\<close>

abbreviation (input) node_prev :: nat where
  "node_prev \<equiv> 0"
abbreviation (input) node_next :: nat where
  "node_next \<equiv> 8"
abbreviation (input) node_val :: nat where
  "node_val \<equiv> 16"

text \<open>\<open>udpdk_list_t\<close>: \<open>head\<close>, \<open>tail\<close>, \<open>unsigned len\<close>, and two function pointers.\<close>

abbreviation (input) list_head :: nat where
  "list_head \<equiv> 0"
abbreviation (input) list_tail :: nat where
  "list_tail \<equiv> 8"
abbreviation (input) list_len :: nat where
  "list_len \<equiv> 16"
abbreviation (input) list_free :: nat where
  "list_free \<equiv> 24"
abbreviation (input) list_match :: nat where
  "list_match \<equiv> 32"

text \<open>\<open>udpdk_list_iterator_t\<close>: \<open>next\<close> and the direction (an enum, 4 bytes).\<close>

abbreviation (input) iter_next :: nat where
  "iter_next \<equiv> 0"
abbreviation (input) iter_direction :: nat where
  "iter_direction \<equiv> 8"

text \<open>\<open>struct bind_info\<close>: \<open>int sockfd\<close>, the IPv4 address and three bools.\<close>

abbreviation (input) info_sockfd :: nat where
  "info_sockfd \<equiv> 0"
abbreviation (input) info_ip :: nat where
  "info_ip \<equiv> 4"
abbreviation (input) info_reuse_addr :: nat where
  "info_reuse_addr \<equiv> 8"
abbreviation (input) info_reuse_port :: nat where
  "info_reuse_port \<equiv> 9"
abbreviation (input) info_closed :: nat where
  "info_closed \<equiv> 10"

subsection \<open>Fields of objects\<close>

definition fld :: "nat \<Rightarrow> memory \<Rightarrow> ptr \<Rightarrow> 'a::len word" where
  "fld off m p = ld m (unat p + off)"

definition upd :: "nat \<Rightarrow> memory \<Rightarrow> ptr \<Rightarrow> 'a::len word \<Rightarrow> memory" where
  "upd off m p v = st m (unat p + off) v"

text \<open>A footprint says which objects of each kind are in use.\<close>

type_synonym footprint = "obj_kind \<Rightarrow> ptr set"

definition separated :: "footprint \<Rightarrow> bool" where
  "separated F \<longleftrightarrow>
     (\<forall>K. \<forall>p \<in> F K. p \<noteq> NULL) \<and>
     (\<forall>K K'. \<forall>p \<in> F K. \<forall>q \<in> F K'. (K, p) \<noteq> (K', q) \<longrightarrow>
        unat p + sizeof K \<le> unat q \<or> unat q + sizeof K' \<le> unat p)"

lemma separated_nonnull: "separated F \<Longrightarrow> p \<in> F K \<Longrightarrow> p \<noteq> NULL"
  by (auto simp: separated_def)

lemma separated_apart:
  "separated F \<Longrightarrow> p \<in> F K \<Longrightarrow> q \<in> F K' \<Longrightarrow> (K, p) \<noteq> (K', q) \<Longrightarrow>
    unat p + sizeof K \<le> unat q \<or> unat q + sizeof K' \<le> unat p"
  unfolding separated_def by blast

lemma separated_mono:
  assumes "separated F" "\<And>K. F' K \<subseteq> F K"
  shows "separated F'"
  unfolding separated_def
  using separated_nonnull [OF assms(1)] separated_apart [OF assms(1)] assms(2)
  by (meson subsetD)

text \<open>Reading a field back, and reading one field after writing another.\<close>

lemma fld_upd_same [mem_simps]:
  "8 dvd LENGTH('a) \<Longrightarrow> fld off (upd off m p v) p = v" for v :: "'a::len word"
  by (simp add: fld_def upd_def ld_st_same)

lemma fld_upd_offset:
  fixes v :: "'b::len word"
  assumes "off + LENGTH('a) div 8 \<le> off' \<or> off' + LENGTH('b) div 8 \<le> off"
  shows "(fld off (upd off' m p v) p :: 'a::len word) = fld off m p"
  unfolding fld_def upd_def
  by (rule ld_cong) (use assms in \<open>auto intro!: st_outside\<close>)

lemma fld_upd_other:
  fixes v :: "'b::len word"
  assumes "separated F" "p \<in> F K" "q \<in> F K'" "(K, p) \<noteq> (K', q)"
    and "off + LENGTH('a) div 8 \<le> sizeof K" "off' + LENGTH('b) div 8 \<le> sizeof K'"
  shows "(fld off (upd off' m q v) p :: 'a::len word) = fld off m p"
proof -
  have "unat p + sizeof K \<le> unat q \<or> unat q + sizeof K' \<le> unat p"
    by (rule separated_apart [OF assms(1-4)])
  then show ?thesis
    unfolding fld_def upd_def
    by (intro ld_cong) (use assms(5,6) in \<open>auto intro!: st_outside\<close>)
qed

lemma fld_upd_kind:
  fixes v :: "'a::len word"
  assumes "separated F" "p \<in> F K" "q \<in> F K"
    and "off + LENGTH('a) div 8 \<le> sizeof K" "8 dvd LENGTH('a)"
  shows "fld off (upd off m q v) p = (if p = q then v else fld off m p)"
  using assms fld_upd_other [of F p K q K off off m v, where 'a='a] by (simp add: fld_upd_same)

lemma fld_upd_kind_offset:
  fixes v :: "'b::len word"
  assumes "separated F" "p \<in> F K" "q \<in> F K"
    and "off + LENGTH('a) div 8 \<le> off' \<or> off' + LENGTH('b) div 8 \<le> off"
    and "off + LENGTH('a) div 8 \<le> sizeof K" "off' + LENGTH('b) div 8 \<le> sizeof K"
  shows "(fld off (upd off' m q v) p :: 'a::len word) = fld off m p"
  using assms fld_upd_other [of F p K q K off off' m v, where 'a='a]
    fld_upd_offset [of off off' m p v, where 'a='a]
  by (cases "p = q") auto

text \<open>The instances of the last three laws at the kinds of objects there are.\<close>

lemmas fld_upd_node [mem_simps] =
  fld_upd_kind [where K = NodeObj] fld_upd_kind_offset [where K = NodeObj]
  fld_upd_other [where K = NodeObj and K' = ListObj]
  fld_upd_other [where K = NodeObj and K' = IterObj]
  fld_upd_other [where K = NodeObj and K' = InfoObj]

lemmas fld_upd_list [mem_simps] =
  fld_upd_kind [where K = ListObj] fld_upd_kind_offset [where K = ListObj]
  fld_upd_other [where K = ListObj and K' = NodeObj]
  fld_upd_other [where K = ListObj and K' = IterObj]
  fld_upd_other [where K = ListObj and K' = InfoObj]

lemmas fld_upd_iter [mem_simps] =
  fld_upd_kind [where K = IterObj] fld_upd_kind_offset [where K = IterObj]
  fld_upd_other [where K = IterObj and K' = NodeObj]
  fld_upd_other [where K = IterObj and K' = ListObj]
  fld_upd_other [where K = IterObj and K' = InfoObj]

lemmas fld_upd_info [mem_simps] =
  fld_upd_kind [where K = InfoObj] fld_upd_kind_offset [where K = InfoObj]
  fld_upd_other [where K = InfoObj and K' = NodeObj]
  fld_upd_other [where K = InfoObj and K' = ListObj]
  fld_upd_other [where K = InfoObj and K' = IterObj]

subsection \<open>Frames\<close>

text \<open>\<open>frame F T m m'\<close>: the objects of \<open>F\<close> outside \<open>T\<close> have the same bytes in both.\<close>

definition frame :: "footprint \<Rightarrow> (obj_kind \<times> ptr) set \<Rightarrow> memory \<Rightarrow> memory \<Rightarrow> bool" where
  "frame F T m m' \<longleftrightarrow>
     (\<forall>K. \<forall>p \<in> F K. (K, p) \<notin> T \<longrightarrow> (\<forall>i < sizeof K. m' (unat p + i) = m (unat p + i)))"

lemma frame_refl [frame_intros]: "frame F T m m"
  by (simp add: frame_def)

lemma frame_upd [frame_intros]:
  fixes v :: "'b::len word"
  assumes "separated F" "q \<in> F K'" "(K', q) \<in> T" "off + LENGTH('b) div 8 \<le> sizeof K'"
    and "frame F T m m'"
  shows "frame F T m (upd off m' q v)"
  unfolding frame_def
proof (intro allI ballI impI)
  fix K p i assume p: "p \<in> F K" "(K, p) \<notin> T" and i: "i < sizeof K"
  from p assms(3) have "unat p + sizeof K \<le> unat q \<or> unat q + sizeof K' \<le> unat p"
    by (intro separated_apart [OF assms(1) p(1) assms(2)]) auto
  with i assms(4) have "upd off m' q v (unat p + i) = m' (unat p + i)"
    unfolding upd_def by (intro st_outside) auto
  with assms(5) p i show "upd off m' q v (unat p + i) = m (unat p + i)"
    by (auto simp: frame_def)
qed

lemma frame_trans: "frame F T m m' \<Longrightarrow> frame F T m' m'' \<Longrightarrow> frame F T m m''"
  by (simp add: frame_def)

lemma frame_mono:
  "frame F T m m' \<Longrightarrow> (\<And>K. F' K \<subseteq> F K) \<Longrightarrow> (\<And>K p. p \<in> F' K \<Longrightarrow> (K, p) \<in> T \<Longrightarrow> (K, p) \<in> T') \<Longrightarrow>
    frame F' T' m m'"
  unfolding frame_def by blast

lemma frame_fld:
  "frame F T m m' \<Longrightarrow> p \<in> F K \<Longrightarrow> (K, p) \<notin> T \<Longrightarrow> off + LENGTH('a) div 8 \<le> sizeof K \<Longrightarrow>
    (fld off m' p :: 'a::len word) = fld off m p"
  unfolding fld_def frame_def by (intro ld_cong) (auto simp: add.assoc)

end
