(* ===== verification/Shmalloc.thy ===== *)
theory Shmalloc
  imports Memory "HOL-Library.Multiset"
begin

text \<open>
  The fixed-size allocator in shared memory (\<open>udpdk/shmalloc/udpdk_shmalloc.c\<close>). An allocator
  is the header at the start of its memzone together with the bitfield behind it; the memzone
  itself comes from DPDK and is a parameter. The abstract view is the set \<open>live\<close> of the
  elements handed out; the operations are shown to add one fresh element, to remove one, and
  to fail exactly when the pool is exhausted.
\<close>

unbundle bit_operations_syntax

subsection \<open>State\<close>

text \<open>
  \<open>mz_addr\<close> is the address of the memzone, the other fields are those of \<open>struct allocator\<close>
  (20 bytes), and \<open>free_bitfield\<close> is the array of \<open>int\<close>s that follows it.
\<close>

record allocator =
  mz_addr :: ptr
  al_size :: u32
  elem_size :: u32
  n_free :: u32
  next_free :: u32
  pool_offset :: u32
  free_bitfield :: "nat \<Rightarrow> u32"

definition SetBit :: "(nat \<Rightarrow> u32) \<Rightarrow> u32 \<Rightarrow> (nat \<Rightarrow> u32)" where
  "SetBit A k = A(unat (k div 32) := A (unat (k div 32)) OR push_bit (unat (k mod 32)) 1)"

definition ClearBit :: "(nat \<Rightarrow> u32) \<Rightarrow> u32 \<Rightarrow> (nat \<Rightarrow> u32)" where
  "ClearBit A k = A(unat (k div 32) := A (unat (k div 32)) AND NOT (push_bit (unat (k mod 32)) 1))"

definition TestBit :: "(nat \<Rightarrow> u32) \<Rightarrow> u32 \<Rightarrow> bool" where
  "TestBit A k \<longleftrightarrow> A (unat (k div 32)) AND push_bit (unat (k mod 32)) 1 \<noteq> 0"

subsection \<open>Operations\<close>

text \<open>
  \<open>memset\<close> of the first \<open>n\<close> bytes of the bitfield: whole words, then the low bytes of the
  last one (little endian); the rest keeps what the memory held.
\<close>

definition clear_bytes :: "(nat \<Rightarrow> u32) \<Rightarrow> nat \<Rightarrow> (nat \<Rightarrow> u32)" where
  "clear_bytes A n = (\<lambda>w.
     if n \<le> 4 * w then A w
     else if 4 * w + 4 \<le> n then 0
     else push_bit (8 * (n - 4 * w)) (drop_bit (8 * (n - 4 * w)) (A w)))"

text \<open>
  \<open>udpdk_init_allocator\<close>. The parameter \<open>reserve\<close> is \<open>rte_memzone_reserve\<close>: it is given the
  name and the number of bytes and answers with the address of the zone and what the words
  behind the header hold, or with \<open>None\<close> for \<open>NULL\<close>. The outer option is the undefined
  division by an element size of 0.
\<close>

definition udpdk_init_allocator ::
  "(string \<Rightarrow> u32 \<Rightarrow> (ptr \<times> (nat \<Rightarrow> u32)) option) \<Rightarrow> string \<Rightarrow> u32 \<Rightarrow> u32 \<Rightarrow>
    allocator option option" where
  "udpdk_init_allocator reserve name sz esz =
     (let esz = (esz + 64 - 1) div 64;
          mem_needed = 20 + (sz div 8 + 1)
      in if esz = 0 then None
         else let mem_needed = (mem_needed + esz - 1) div esz;
                  p_off = mem_needed;
                  mem_needed = mem_needed + sz * esz
              in Some (case reserve name mem_needed of
                   None \<Rightarrow> None
                 | Some (addr, words) \<Rightarrow>
                     Some \<lparr>mz_addr = addr, al_size = sz, elem_size = esz, n_free = sz,
                           next_free = 0, pool_offset = p_off,
                           free_bitfield = clear_bytes words (unat (sz div 8 + 1))\<rparr>))"

text \<open>The scan for the next free element; the first argument counts the rounds left.\<close>

fun find_free :: "nat \<Rightarrow> (nat \<Rightarrow> u32) \<Rightarrow> u32 \<Rightarrow> u32 \<Rightarrow> u32 option" where
  "find_free 0 A sz j = None"
| "find_free (Suc n) A sz j =
     (let j = (if sz \<le> j then 0 else j)
      in if \<not> TestBit A j then Some j else find_free n A sz (j + 1))"

text \<open>The address of element \<open>k\<close>, as the code computes it.\<close>

definition elem_at :: "allocator \<Rightarrow> u32 \<Rightarrow> ptr" where
  "elem_at a k = mz_addr a + ucast (pool_offset a) + ucast (k * elem_size a)"

definition udpdk_shmalloc :: "allocator \<Rightarrow> ptr \<times> allocator" where
  "udpdk_shmalloc a =
     (if n_free a = 0 then (NULL, a)
      else let ret = elem_at a (next_free a);
               a = a\<lparr>n_free := n_free a - 1\<rparr>;
               a = a\<lparr>free_bitfield := SetBit (free_bitfield a) (next_free a)\<rparr>;
               a = (if n_free a \<noteq> 0
                    then (case find_free (unat (al_size a)) (free_bitfield a) (al_size a)
                                 (next_free a + 1) of
                            Some j \<Rightarrow> a\<lparr>next_free := j\<rparr>
                          | None \<Rightarrow> a)
                    else a)
           in (ret, a))"

definition udpdk_shfree :: "allocator \<Rightarrow> ptr \<Rightarrow> allocator" where
  "udpdk_shfree a addr =
     (let pool_start = mz_addr a + ucast (pool_offset a);
          pool_end = mz_addr a + ucast (pool_offset a) + ucast (al_size a * elem_size a)
      in if addr < pool_start \<or> pool_end \<le> addr then a
         else let i = ucast ((addr - pool_start) div ucast (elem_size a)) :: u32
              in if \<not> TestBit (free_bitfield a) i then a
                 else let a = a\<lparr>free_bitfield := ClearBit (free_bitfield a) i\<rparr>;
                          a = a\<lparr>n_free := n_free a + 1\<rparr>
                      in if n_free a = 1 then a\<lparr>next_free := i\<rparr> else a)"

text \<open>
  \<open>udpdk_destroy_allocator\<close>: whether it warns that elements are still in use, and the zones of
  DPDK without this one (\<open>zone_free\<close> is \<open>rte_memzone_free\<close>).
\<close>

definition udpdk_destroy_allocator :: "(ptr \<Rightarrow> 'z \<Rightarrow> 'z) \<Rightarrow> allocator \<Rightarrow> 'z \<Rightarrow> bool \<times> 'z" where
  "udpdk_destroy_allocator zone_free a z = (n_free a \<noteq> al_size a, zone_free (mz_addr a) z)"

subsection \<open>Abstraction and invariant\<close>

definition used_bit :: "(nat \<Rightarrow> u32) \<Rightarrow> nat \<Rightarrow> bool" where
  "used_bit A k \<longleftrightarrow> bit (A (k div 32)) (k mod 32)"

text \<open>Indices of the elements in use and of the free ones, and the elements in use.\<close>

definition used_idx :: "allocator \<Rightarrow> nat set" where
  "used_idx a = {k. k < unat (al_size a) \<and> used_bit (free_bitfield a) k}"

definition free_idx :: "allocator \<Rightarrow> nat set" where
  "free_idx a = {k. k < unat (al_size a) \<and> \<not> used_bit (free_bitfield a) k}"

definition live :: "allocator \<Rightarrow> ptr set" where
  "live a = (\<lambda>k. elem_at a (of_nat k)) ` used_idx a"

text \<open>The pool lies in the address space and its arithmetic does not wrap.\<close>

definition pool_ok :: "allocator \<Rightarrow> bool" where
  "pool_ok a \<longleftrightarrow> mz_addr a \<noteq> 0 \<and> 0 < elem_size a \<and>
     unat (al_size a) * unat (elem_size a) < 2 ^ 32 \<and>
     unat (mz_addr a) + unat (pool_offset a) + unat (al_size a) * unat (elem_size a) < 2 ^ 64"

definition alloc_inv :: "allocator \<Rightarrow> bool" where
  "alloc_inv a \<longleftrightarrow> pool_ok a \<and> unat (n_free a) = card (free_idx a) \<and>
     (n_free a \<noteq> 0 \<longrightarrow> unat (next_free a) \<in> free_idx a)"

subsection \<open>Bits\<close>

lemma bit_test: "x AND push_bit n 1 \<noteq> 0 \<longleftrightarrow> n < LENGTH('a) \<and> bit x n" for x :: "'a::len word"
proof
  assume "x AND push_bit n 1 \<noteq> 0"
  then obtain k where "bit (x AND push_bit n 1) k"
    using bit_eqI [of "x AND push_bit n 1" 0] by auto
  then show "n < LENGTH('a) \<and> bit x n"
    by (auto simp: bit_simps dest: bit_imp_le_length)
next
  assume "n < LENGTH('a) \<and> bit x n"
  then have "bit (x AND push_bit n 1) n"
    by (simp add: bit_simps)
  then show "x AND push_bit n 1 \<noteq> 0" by fastforce
qed

lemma TestBit_used: "TestBit A k \<longleftrightarrow> used_bit A (unat k)"
  using bit_test [of "A (unat k div 32)" "unat k mod 32"]
  by (simp add: TestBit_def used_bit_def unat_div unat_mod)

lemma same_bit_cell: "i div 32 = k div 32 \<Longrightarrow> i mod 32 = k mod 32 \<longleftrightarrow> i = k" for i k :: nat
  by (metis div_mult_mod_eq)

lemma used_SetBit: "used_bit (SetBit A k) i \<longleftrightarrow> i = unat k \<or> used_bit A i"
  by (auto simp: SetBit_def used_bit_def unat_div unat_mod bit_simps same_bit_cell)

lemma used_ClearBit: "used_bit (ClearBit A k) i \<longleftrightarrow> i \<noteq> unat k \<and> used_bit A i"
  by (auto simp: ClearBit_def used_bit_def unat_div unat_mod bit_simps same_bit_cell)

lemma used_clear_bytes: "k < 8 * n \<Longrightarrow> \<not> used_bit (clear_bytes A n) k"
proof -
  assume k: "k < 8 * n"
  have "8 * (n - 4 * (k div 32)) \<le> k mod 32 \<Longrightarrow> 4 * (k div 32) < n \<Longrightarrow> 8 * n \<le> k"
    by presburger
  with k show ?thesis
    by (auto simp: clear_bytes_def used_bit_def bit_simps)
qed

subsection \<open>Geometry of the pool\<close>

lemma unat_elem_at:
  assumes "pool_ok a" "k \<le> unat (al_size a)"
  shows "unat (elem_at a (of_nat k)) =
    unat (mz_addr a) + unat (pool_offset a) + k * unat (elem_size a)"
proof -
  have le: "k * unat (elem_size a) \<le> unat (al_size a) * unat (elem_size a)"
    using assms(2) by simp
  have k: "k < 2 ^ 32"
    using assms(2) unat_bound [of "al_size a"] by simp
  have lt: "k * unat (elem_size a) < 4294967296"
    by (rule order_le_less_trans [OF le]) (use assms(1) in \<open>simp add: pool_ok_def\<close>)
  from k have "unat (of_nat k * elem_size a) = k * unat (elem_size a)"
    by (simp add: unat_word_ariths unat_of_nat mod_less [OF lt])
  then show ?thesis
    using order_le_less_trans [OF add_left_mono [OF le, of "unat (mz_addr a) + unat (pool_offset a)"]]
      assms(1) unat_bound [of "pool_offset a"] lt
    by (simp add: elem_at_def unat_word_ariths pool_ok_def)
qed

lemma elem_at_unat: "elem_at a j = elem_at a (of_nat (unat j))"
  by simp

lemma elem_at_nonnull: "pool_ok a \<Longrightarrow> k \<le> unat (al_size a) \<Longrightarrow> elem_at a (of_nat k) \<noteq> NULL"
  using unat_elem_at [of a k] by (auto simp: pool_ok_def unat_eq_0)

lemma elem_at_inj:
  assumes "pool_ok a" "k \<le> unat (al_size a)" "k' \<le> unat (al_size a)"
    and "elem_at a (of_nat k) = elem_at a (of_nat k')"
  shows "k = k'"
proof -
  have "k * unat (elem_size a) = k' * unat (elem_size a)"
    using unat_elem_at [OF assms(1,2)] unat_elem_at [OF assms(1,3)] unfolding assms(4) by linarith
  moreover have "unat (elem_size a) \<noteq> 0"
    using assms(1) by (simp add: pool_ok_def unat_gt_0 word_neq_0_conv)
  ultimately show ?thesis by (metis mult_right_cancel)
qed

lemma elem_at_eq:
  assumes "pool_ok a" "unat j < unat (al_size a)" "k < unat (al_size a)"
  shows "elem_at a j = elem_at a (of_nat k) \<longleftrightarrow> unat j = k"
  using elem_at_inj [OF assms(1), of "unat j" k] assms(2,3) by auto

lemma used_idx_finite [simp]: "finite (used_idx a)"
  by (simp add: used_idx_def)

lemma free_idx_finite [simp]: "finite (free_idx a)"
  by (simp add: free_idx_def)

lemma card_used_free: "card (used_idx a) + card (free_idx a) = unat (al_size a)"
proof -
  have "used_idx a \<union> free_idx a = {..<unat (al_size a)}" "used_idx a \<inter> free_idx a = {}"
    by (auto simp: used_idx_def free_idx_def)
  then show ?thesis
    by (metis card_Un_disjoint card_lessThan used_idx_finite free_idx_finite)
qed

lemma card_live: "pool_ok a \<Longrightarrow> card (live a) = card (used_idx a)"
  unfolding live_def
  by (rule card_image) (auto intro!: inj_onI elem_at_inj [of a] simp: used_idx_def)

subsection \<open>The scan finds a free element whenever there is one\<close>

lemma find_free_Some:
  "find_free n A sz j = Some i \<Longrightarrow> sz \<noteq> 0 \<Longrightarrow> i < sz \<and> \<not> used_bit A (unat i)"
proof (induction n A sz j rule: find_free.induct)
  case (2 n A sz j)
  then show ?case
    by (auto simp: Let_def TestBit_used word_neq_0_conv not_le split: if_splits)
qed simp

lemma find_free_None:
  "find_free n A sz j = None \<Longrightarrow> sz \<noteq> 0 \<Longrightarrow> i < n \<Longrightarrow>
    used_bit A (((if sz \<le> j then 0 else unat j) + i) mod unat sz)"
proof (induction n A sz j arbitrary: i rule: find_free.induct)
  case (2 n A sz j)
  define j' where "j' = (if sz \<le> j then 0 else j)"
  have j': "unat j' < unat sz"
    using "2.prems"(2) by (auto simp: j'_def word_less_nat_alt word_le_nat_alt unat_gt_0)
  have nat_j': "(if sz \<le> j then 0 else unat j) = unat j'"
    by (simp add: j'_def)
  have used: "TestBit A j'" and rest: "find_free n A sz (j' + 1) = None"
    using "2.prems"(1) by (auto simp: Let_def j'_def split: if_splits)
  show ?case
  proof (cases i)
    case 0
    with used j' show ?thesis by (simp add: nat_j' TestBit_used)
  next
    case (Suc k)
    have suc: "unat (j' + 1) = unat j' + 1"
      using j' unat_bound [of sz] by (intro unat_plus_one) linarith
    have "used_bit A (((if sz \<le> j' + 1 then 0 else unat (j' + 1)) + k) mod unat sz)"
      by (rule "2.IH" [OF j'_def]) (use used rest "2.prems"(2,3) Suc in auto)
    moreover have "((if sz \<le> j' + 1 then 0 else unat (j' + 1)) + k) mod unat sz
        = (unat j' + i) mod unat sz"
    proof (cases "sz \<le> j' + 1")
      case True
      then have "unat sz = unat j' + 1"
        using j' by (simp add: word_le_nat_alt suc)
      then have "unat j' + i = unat sz + k" by (simp add: Suc)
      then have "(unat j' + i) mod unat sz = k mod unat sz" by simp
      with True show ?thesis by simp
    next
      case False
      then show ?thesis by (simp add: suc Suc)
    qed
    ultimately show ?thesis by (simp add: nat_j')
  qed
qed simp

lemma find_free_complete:
  assumes "k < unat sz" "\<not> used_bit A k"
  shows "\<exists>i. find_free (unat sz) A sz j = Some i \<and> i < sz \<and> \<not> used_bit A (unat i)"
proof (cases "find_free (unat sz) A sz j")
  case None
  from assms(1) have sz: "sz \<noteq> 0" by auto
  define j' where "j' = (if sz \<le> j then 0 else unat j)"
  have "j' < unat sz"
    using sz by (auto simp: j'_def word_le_nat_alt unat_gt_0)
  define i where "i = (if j' \<le> k then k - j' else unat sz + k - j')"
  have "i < unat sz" "(j' + i) mod unat sz = k"
    using assms(1) \<open>j' < unat sz\<close> by (auto simp: i_def)
  with find_free_None [OF None sz, of i] assms(2) show ?thesis by (simp add: j'_def)
next
  case (Some i)
  then show ?thesis using find_free_Some [OF Some nonzero_unat [OF assms(1)]] by blast
qed

subsection \<open>What the operations do\<close>

text \<open>The fields that no operation changes.\<close>

definition same_pool :: "allocator \<Rightarrow> allocator \<Rightarrow> bool" where
  "same_pool a a' \<longleftrightarrow> mz_addr a' = mz_addr a \<and> al_size a' = al_size a \<and>
     elem_size a' = elem_size a \<and> pool_offset a' = pool_offset a"

lemma same_pool_refl [simp]: "same_pool a a"
  by (simp add: same_pool_def)

lemma same_pool_trans: "same_pool a b \<Longrightarrow> same_pool b c \<Longrightarrow> same_pool a c"
  by (simp add: same_pool_def)

lemma same_pool_elem_at: "same_pool a a' \<Longrightarrow> elem_at a' = elem_at a"
  by (auto simp: same_pool_def elem_at_def)

lemma same_pool_ok: "same_pool a a' \<Longrightarrow> pool_ok a' = pool_ok a"
  by (simp add: same_pool_def pool_ok_def)

lemma shmalloc_full: "n_free a = 0 \<Longrightarrow> udpdk_shmalloc a = (NULL, a)"
  by (simp add: udpdk_shmalloc_def)

lemma shmalloc_ret: "n_free a \<noteq> 0 \<Longrightarrow> fst (udpdk_shmalloc a) = elem_at a (next_free a)"
  by (simp add: udpdk_shmalloc_def Let_def)

lemma shmalloc_same_pool: "same_pool a (snd (udpdk_shmalloc a))"
  by (simp add: udpdk_shmalloc_def Let_def same_pool_def split: option.split)

lemma shmalloc_bits:
  "n_free a \<noteq> 0 \<Longrightarrow> free_bitfield (snd (udpdk_shmalloc a)) = SetBit (free_bitfield a) (next_free a)"
  by (simp add: udpdk_shmalloc_def Let_def split: option.split)

lemma shmalloc_n_free:
  "n_free a \<noteq> 0 \<Longrightarrow> n_free (snd (udpdk_shmalloc a)) = n_free a - 1"
  by (simp add: udpdk_shmalloc_def Let_def split: option.split)

lemma shmalloc_next:
  "n_free a \<noteq> 0 \<Longrightarrow> n_free a - 1 \<noteq> 0 \<Longrightarrow>
    find_free (unat (al_size a)) (SetBit (free_bitfield a) (next_free a)) (al_size a)
      (next_free a + 1) = Some j \<Longrightarrow>
    next_free (snd (udpdk_shmalloc a)) = j"
  by (simp add: udpdk_shmalloc_def Let_def)

lemma shmalloc_used_idx:
  assumes "alloc_inv a" "n_free a \<noteq> 0"
  shows "used_idx (snd (udpdk_shmalloc a)) = insert (unat (next_free a)) (used_idx a)"
    and "free_idx (snd (udpdk_shmalloc a)) = free_idx a - {unat (next_free a)}"
    and "unat (next_free a) \<in> free_idx a"
  using assms shmalloc_same_pool [of a]
  by (auto simp: used_idx_def free_idx_def shmalloc_bits used_SetBit same_pool_def alloc_inv_def)

lemma shmalloc_inv:
  assumes "alloc_inv a"
  shows "alloc_inv (snd (udpdk_shmalloc a))"
proof (cases "n_free a = 0")
  case True
  with assms show ?thesis by (simp add: shmalloc_full)
next
  case False
  let ?a = "snd (udpdk_shmalloc a)"
  note ix = shmalloc_used_idx [OF assms False]
  have size: "al_size ?a = al_size a"
    using shmalloc_same_pool [of a] by (simp add: same_pool_def)
  have card: "unat (n_free ?a) = card (free_idx ?a)"
    using assms False ix(3)
    by (simp add: shmalloc_n_free ix(2) unat_minus_one_word alloc_inv_def)
  have "n_free ?a \<noteq> 0 \<longrightarrow> unat (next_free ?a) \<in> free_idx ?a"
  proof
    assume nz: "n_free ?a \<noteq> 0"
    then have "card (free_idx ?a) \<noteq> 0"
      by (simp add: card [symmetric] unat_eq_0 del: card_0_eq)
    then obtain k where "k \<in> free_idx ?a" by fastforce
    then have k: "k < unat (al_size a)"
        "\<not> used_bit (SetBit (free_bitfield a) (next_free a)) k"
      by (simp_all add: free_idx_def size shmalloc_bits [OF False])
    obtain j where j: "find_free (unat (al_size a)) (SetBit (free_bitfield a) (next_free a))
          (al_size a) (next_free a + 1) = Some j"
        "j < al_size a" "\<not> used_bit (SetBit (free_bitfield a) (next_free a)) (unat j)"
      using find_free_complete [OF k] by blast
    have "next_free ?a = j"
      using nz by (intro shmalloc_next [OF False _ j(1)]) (simp add: shmalloc_n_free False)
    with j show "unat (next_free ?a) \<in> free_idx ?a"
      by (simp add: free_idx_def size shmalloc_bits [OF False] word_less_nat_alt)
  qed
  with card assms show ?thesis
    by (simp add: alloc_inv_def same_pool_ok [OF shmalloc_same_pool])
qed

lemma live_shmalloc:
  assumes "alloc_inv a" "n_free a \<noteq> 0"
  shows "live (snd (udpdk_shmalloc a)) = insert (fst (udpdk_shmalloc a)) (live a)"
    and "fst (udpdk_shmalloc a) \<notin> live a"
    and "fst (udpdk_shmalloc a) \<noteq> NULL"
proof -
  note ix = shmalloc_used_idx [OF assms]
  have pool: "pool_ok a" using assms by (simp add: alloc_inv_def)
  have ret: "fst (udpdk_shmalloc a) = elem_at a (of_nat (unat (next_free a)))"
    using assms by (simp add: shmalloc_ret)
  show "live (snd (udpdk_shmalloc a)) = insert (fst (udpdk_shmalloc a)) (live a)"
    by (simp add: live_def ix(1) ret same_pool_elem_at [OF shmalloc_same_pool])
  show "fst (udpdk_shmalloc a) \<notin> live a"
    unfolding live_def ret
    using ix(3) by (auto simp: used_idx_def free_idx_def elem_at_eq [OF pool])
  show "fst (udpdk_shmalloc a) \<noteq> NULL"
    unfolding ret using ix(3) by (intro elem_at_nonnull [OF pool]) (simp add: free_idx_def)
qed

subsection \<open>Freeing\<close>

text \<open>The pool as a range of addresses, and the element an address lies in.\<close>

definition pool_start :: "allocator \<Rightarrow> nat" where
  "pool_start a = unat (mz_addr a) + unat (pool_offset a)"

definition in_pool :: "allocator \<Rightarrow> ptr \<Rightarrow> bool" where
  "in_pool a p \<longleftrightarrow> pool_start a \<le> unat p \<and>
     unat p < pool_start a + unat (al_size a) * unat (elem_size a)"

definition idx_of :: "allocator \<Rightarrow> ptr \<Rightarrow> nat" where
  "idx_of a p = (unat p - pool_start a) div unat (elem_size a)"

lemma unat_pool_start: "pool_ok a \<Longrightarrow> unat (mz_addr a + ucast (pool_offset a)) = pool_start a"
  using unat_elem_at [of a 0] by (simp add: elem_at_def pool_start_def)

lemma unat_pool_end:
  "pool_ok a \<Longrightarrow> unat (mz_addr a + ucast (pool_offset a) + ucast (al_size a * elem_size a)) =
    pool_start a + unat (al_size a) * unat (elem_size a)"
  using unat_elem_at [of a "unat (al_size a)"] by (simp add: elem_at_def pool_start_def)

lemma idx_of_less: "pool_ok a \<Longrightarrow> in_pool a p \<Longrightarrow> idx_of a p < unat (al_size a)"
  unfolding idx_of_def in_pool_def by (intro less_mult_imp_div_less) linarith

lemma in_pool_elem:
  assumes "pool_ok a" "k < unat (al_size a)"
  shows "in_pool a (elem_at a (of_nat k))" and "idx_of a (elem_at a (of_nat k)) = k"
proof -
  have es: "0 < unat (elem_size a)"
    using assms(1) by (simp add: pool_ok_def unat_gt_0 word_neq_0_conv)
  have "unat (elem_at a (of_nat k)) = pool_start a + k * unat (elem_size a)"
    using unat_elem_at [OF assms(1)] assms(2) by (simp add: pool_start_def)
  then show "in_pool a (elem_at a (of_nat k))" "idx_of a (elem_at a (of_nat k)) = k"
    using assms(2) es by (simp_all add: in_pool_def idx_of_def)
qed

lemma live_in_pool:
  "pool_ok a \<Longrightarrow> p \<in> live a \<Longrightarrow>
    in_pool a p \<and> idx_of a p \<in> used_idx a \<and> p = elem_at a (of_nat (idx_of a p))"
  by (auto simp: live_def used_idx_def in_pool_elem)

lemma unat_shfree_idx:
  assumes "pool_ok a" "in_pool a p"
  shows "unat (ucast ((p - (mz_addr a + ucast (pool_offset a))) div ucast (elem_size a)) :: u32)
    = idx_of a p"
proof -
  have "mz_addr a + ucast (pool_offset a) \<le> p"
    using assms by (simp add: word_le_nat_alt unat_pool_start in_pool_def)
  then have "unat ((p - (mz_addr a + ucast (pool_offset a))) div ucast (elem_size a) :: u64)
      = idx_of a p"
    by (simp add: unat_div unat_sub idx_of_def unat_pool_start [OF assms(1)])
  moreover have "idx_of a p < 2 ^ 32"
    using idx_of_less [OF assms] unat_bound [of "al_size a"] by simp
  ultimately show ?thesis
    by (simp add: unsigned_ucast_eq take_bit_nat_eq_self)
qed

lemma shfree_outside: "pool_ok a \<Longrightarrow> \<not> in_pool a p \<Longrightarrow> udpdk_shfree a p = a"
  by (auto simp: udpdk_shfree_def word_less_nat_alt word_le_nat_alt unat_pool_start unat_pool_end
      in_pool_def)

lemma shfree_unused:
  "pool_ok a \<Longrightarrow> in_pool a p \<Longrightarrow> idx_of a p \<notin> used_idx a \<Longrightarrow> udpdk_shfree a p = a"
  by (simp add: udpdk_shfree_def Let_def TestBit_used unat_shfree_idx used_idx_def idx_of_less)

lemma shfree_same_pool: "same_pool a (udpdk_shfree a p)"
  by (simp add: udpdk_shfree_def Let_def same_pool_def)

lemma shfree_eq:
  assumes "pool_ok a" "in_pool a p" "idx_of a p \<in> used_idx a"
  shows "udpdk_shfree a p =
    a\<lparr>free_bitfield := ClearBit (free_bitfield a) (of_nat (idx_of a p)), n_free := n_free a + 1,
      next_free := (if n_free a + 1 = 1 then of_nat (idx_of a p) else next_free a)\<rparr>"
proof -
  have i: "(ucast ((p - (mz_addr a + ucast (pool_offset a))) div ucast (elem_size a)) :: u32)
      = of_nat (idx_of a p)"
    using arg_cong [OF unat_shfree_idx [OF assms(1,2)], of "of_nat :: nat \<Rightarrow> u32"] by simp
  have "\<not> (p < mz_addr a + ucast (pool_offset a) \<or>
      mz_addr a + ucast (pool_offset a) + ucast (al_size a * elem_size a) \<le> p)"
    using assms(2) by (simp add: word_less_nat_alt word_le_nat_alt unat_pool_start [OF assms(1)]
        unat_pool_end [OF assms(1)] in_pool_def not_le not_less)
  then show ?thesis
    using assms(3) unat_shfree_idx [OF assms(1,2)]
    by (simp add: udpdk_shfree_def Let_def TestBit_used used_idx_def i)
qed

lemma shfree_used_idx:
  assumes "pool_ok a" "in_pool a p" "idx_of a p \<in> used_idx a"
  shows "used_idx (udpdk_shfree a p) = used_idx a - {idx_of a p}"
    and "free_idx (udpdk_shfree a p) = insert (idx_of a p) (free_idx a)"
proof -
  have "idx_of a p < unat (al_size a)" by (rule idx_of_less [OF assms(1,2)])
  moreover from this have "unat (of_nat (idx_of a p) :: u32) = idx_of a p"
    using unat_bound [of "al_size a"] by (simp add: unat_of_nat)
  ultimately show "used_idx (udpdk_shfree a p) = used_idx a - {idx_of a p}"
      "free_idx (udpdk_shfree a p) = insert (idx_of a p) (free_idx a)"
    by (auto simp: used_idx_def free_idx_def shfree_eq [OF assms] used_ClearBit)
qed

lemma shfree_inv:
  assumes "alloc_inv a"
  shows "alloc_inv (udpdk_shfree a p)"
proof (cases "in_pool a p \<and> idx_of a p \<in> used_idx a")
  case False
  with assms show ?thesis
    by (metis shfree_outside shfree_unused alloc_inv_def)
next
  case True
  have ok: "pool_ok a" using assms by (simp add: alloc_inv_def)
  note T = True [THEN conjunct1] True [THEN conjunct2]
  note ix = shfree_used_idx [OF ok T]
  have lt: "idx_of a p < unat (al_size a)" by (rule idx_of_less [OF ok T(1)])
  have notin: "idx_of a p \<notin> free_idx a"
    using T(2) by (simp add: free_idx_def used_idx_def)
  have "card (free_idx a) < unat (al_size a)"
    using card_used_free [of a] T(2) card_gt_0_iff [of "used_idx a"] by auto
  then have nf: "unat (n_free a + 1) = card (free_idx a) + 1"
    using assms unat_bound [of "al_size a"] by (subst unat_plus_one) (simp_all add: alloc_inv_def)
  have ofn: "unat (of_nat (idx_of a p) :: u32) = idx_of a p"
    using lt unat_bound [of "al_size a"] by (simp add: unat_of_nat)
  have nz: "n_free a \<noteq> 0" if "n_free a + 1 \<noteq> 1"
    using that by auto
  have "n_free (udpdk_shfree a p) = n_free a + 1"
    "next_free (udpdk_shfree a p) = (if n_free a + 1 = 1 then of_nat (idx_of a p) else next_free a)"
    by (simp_all add: shfree_eq [OF ok T])
  then show ?thesis
    using assms nf notin nz
    by (auto simp: alloc_inv_def same_pool_ok [OF shfree_same_pool] ix ofn)
qed

lemma live_shfree:
  assumes "alloc_inv a" "p \<in> live a"
  shows "live (udpdk_shfree a p) = live a - {p}"
proof -
  have ok: "pool_ok a" using assms by (simp add: alloc_inv_def)
  note p = live_in_pool [OF ok assms(2)]
  have ix: "used_idx (udpdk_shfree a p) = used_idx a - {idx_of a p}"
    using p by (intro shfree_used_idx [OF ok]) auto
  have "inj_on (\<lambda>k. elem_at a (of_nat k)) (used_idx a)"
    by (auto intro!: inj_onI elem_at_inj [OF ok] simp: used_idx_def)
  then have "live (udpdk_shfree a p) = live a - {elem_at a (of_nat (idx_of a p))}"
    using p unfolding live_def ix same_pool_elem_at [OF shfree_same_pool]
    by (subst inj_on_image_set_diff [where C = "used_idx a"]) auto
  with p show ?thesis by simp
qed

lemma shfree_not_live:
  assumes "alloc_inv a" "p \<notin> live a" "p = elem_at a (of_nat k)" "k < unat (al_size a)"
  shows "udpdk_shfree a p = a"
proof -
  have ok: "pool_ok a" using assms by (simp add: alloc_inv_def)
  have "k \<notin> used_idx a" using assms by (auto simp: live_def)
  then show ?thesis
    unfolding assms(3) using in_pool_elem [OF ok assms(4)] shfree_unused [OF ok] by simp
qed

subsection \<open>The interface of an object pool\<close>

text \<open>
  What the linked lists and the binding table rely on. \<open>cap\<close> is the number of elements of
  the pool; \<open>take_objs\<close> makes \<open>n\<close> allocations in a row, \<open>put_objs\<close> frees a list of objects.
\<close>

fun take_objs :: "('a \<Rightarrow> ptr \<times> 'a) \<Rightarrow> nat \<Rightarrow> 'a \<Rightarrow> ptr list \<times> 'a" where
  "take_objs get 0 a = ([], a)"
| "take_objs get (Suc n) a =
     (let (p, a') = get a; (ps, a'') = take_objs get n a' in (p # ps, a''))"

fun put_objs :: "('a \<Rightarrow> ptr \<Rightarrow> 'a) \<Rightarrow> ptr list \<Rightarrow> 'a \<Rightarrow> 'a" where
  "put_objs free [] a = a"
| "put_objs free (p # ps) a = put_objs free ps (free a p)"

locale object_pool =
  fixes get :: "'a \<Rightarrow> ptr \<times> 'a"
    and free :: "'a \<Rightarrow> ptr \<Rightarrow> 'a"
    and objs :: "'a \<Rightarrow> ptr set"
    and cap :: "'a \<Rightarrow> nat"
    and inv :: "'a \<Rightarrow> bool"
  assumes get_fresh: "inv a \<Longrightarrow> card (objs a) < cap a \<Longrightarrow>
      fst (get a) \<notin> objs a \<and> fst (get a) \<noteq> NULL \<and> objs (snd (get a)) = insert (fst (get a)) (objs a)"
    and get_full: "inv a \<Longrightarrow> cap a \<le> card (objs a) \<Longrightarrow> get a = (NULL, a)"
    and get_inv: "inv a \<Longrightarrow> inv (snd (get a))"
    and get_cap: "cap (snd (get a)) = cap a"
    and free_objs: "inv a \<Longrightarrow> p \<in> objs a \<Longrightarrow> objs (free a p) = objs a - {p}"
    and free_inv: "inv a \<Longrightarrow> inv (free a p)"
    and free_cap: "cap (free a p) = cap a"
    and objs_finite: "finite (objs a)"
begin

lemma get_null_iff: "inv a \<Longrightarrow> fst (get a) = NULL \<longleftrightarrow> cap a \<le> card (objs a)"
  using get_fresh [of a] get_full [of a] by (cases "cap a \<le> card (objs a)") auto

lemma get_free: "inv a \<Longrightarrow> card (objs a) < cap a \<Longrightarrow> objs (free (snd (get a)) (fst (get a))) = objs a"
  using get_fresh [of a] get_inv [of a] by (auto simp: free_objs)

lemma take_objs_fresh:
  "inv a \<Longrightarrow> card (objs a) + n \<le> cap a \<Longrightarrow> take_objs get n a = (ps, a') \<Longrightarrow>
    inv a' \<and> cap a' = cap a \<and> distinct ps \<and> length ps = n \<and> NULL \<notin> set ps \<and>
    set ps \<inter> objs a = {} \<and> objs a' = objs a \<union> set ps"
proof (induction n arbitrary: a ps)
  case (Suc n)
  let ?p = "fst (get a)" and ?a = "snd (get a)"
  obtain qs where qs: "take_objs get n ?a = (qs, a')" "ps = ?p # qs"
    using Suc.prems(3) by (auto simp: case_prod_beta Let_def prod_eq_iff)
  have fresh: "?p \<notin> objs a" "?p \<noteq> NULL" "objs ?a = insert ?p (objs a)"
    using get_fresh [of a] Suc.prems by auto
  have "card (objs ?a) + n \<le> cap ?a"
    using Suc.prems(2) fresh by (simp add: objs_finite get_cap)
  from Suc.IH [OF get_inv [OF Suc.prems(1)] this qs(1)] fresh qs(2) show ?case
    by (auto simp: get_cap)
qed simp

lemma put_objs_objs:
  "inv a \<Longrightarrow> distinct ps \<Longrightarrow> set ps \<subseteq> objs a \<Longrightarrow>
    inv (put_objs free ps a) \<and> objs (put_objs free ps a) = objs a - set ps"
proof (induction ps arbitrary: a)
  case (Cons p ps)
  then have "set ps \<subseteq> objs (free a p)" "distinct ps"
    by (auto simp: free_objs)
  from Cons.IH [OF free_inv [OF Cons.prems(1)] this(2,1)] Cons.prems show ?case
    by (auto simp: free_objs)
qed simp

lemma take_put_objs:
  assumes "inv a" "card (objs a) + n \<le> cap a" "take_objs get n a = (ps, a')" "mset qs = mset ps"
  shows "objs (put_objs free qs a') = objs a"
proof -
  note t = take_objs_fresh [OF assms(1,2,3)]
  have "distinct qs" "set qs = set ps"
    using t mset_eq_imp_distinct_iff [OF assms(4)] mset_eq_setD [OF assms(4)] by auto
  with put_objs_objs [of a' qs] t show ?thesis by auto
qed

end

lemma n_free_full: "alloc_inv a \<Longrightarrow> n_free a = 0 \<longleftrightarrow> unat (al_size a) \<le> card (live a)"
proof -
  assume inv: "alloc_inv a"
  then have "n_free a = 0 \<longleftrightarrow> card (free_idx a) = 0"
    by (metis alloc_inv_def unat_eq_zero)
  also have "\<dots> \<longleftrightarrow> unat (al_size a) \<le> card (used_idx a)"
    using card_used_free [of a] by linarith
  finally show ?thesis
    using inv by (simp add: alloc_inv_def card_live)
qed

interpretation sh: object_pool udpdk_shmalloc udpdk_shfree live "\<lambda>a. unat (al_size a)" alloc_inv
proof (unfold_locales, goal_cases)
  case (1 a)
  then show ?case using live_shmalloc [of a] n_free_full [of a] by auto
next
  case (2 a)
  then show ?case using shmalloc_full n_free_full by blast
next
  case (3 a)
  then show ?case by (rule shmalloc_inv)
next
  case (4 a)
  show ?case using shmalloc_same_pool [of a] by (simp add: same_pool_def)
next
  case (5 a p)
  then show ?case by (rule live_shfree)
next
  case (6 a p)
  then show ?case by (rule shfree_inv)
next
  case (7 a p)
  show ?case using shfree_same_pool [of a p] by (simp add: same_pool_def)
next
  case (8 a)
  show ?case by (simp add: live_def)
qed

subsection \<open>A fresh allocator\<close>

text \<open>What DPDK documents of \<open>rte_memzone_reserve\<close>: the zone is a block of the address space.\<close>

definition reserve_ok :: "(string \<Rightarrow> u32 \<Rightarrow> (ptr \<times> (nat \<Rightarrow> u32)) option) \<Rightarrow> bool" where
  "reserve_ok reserve \<longleftrightarrow>
     (\<forall>name len addr words. reserve name len = Some (addr, words) \<longrightarrow>
        addr \<noteq> NULL \<and> unat addr + unat len < 2 ^ 64)"

lemma init_bits_free: "k < unat sz \<Longrightarrow> \<not> used_bit (clear_bytes words (unat (sz div 8 + 1))) k"
  for sz :: u32
proof (rule used_clear_bytes)
  assume "k < unat sz"
  have "unat (sz div 8 + 1) = unat sz div 8 + 1"
    using unat_bound [of sz] by (subst unat_plus_one) (simp_all add: unat_div)
  with \<open>k < unat sz\<close> show "k < 8 * unat (sz div 8 + 1)" by simp
qed

lemma init_fields:
  assumes "udpdk_init_allocator reserve name sz esz = Some (Some a)"
  shows "al_size a = sz" "elem_size a = (esz + 64 - 1) div 64" "n_free a = sz" "next_free a = 0"
    and "pool_offset a = (20 + (sz div 8 + 1) + elem_size a - 1) div elem_size a"
    and "used_idx a = {}" "free_idx a = {..<unat sz}" "live a = {}" "elem_size a \<noteq> 0"
    and "\<exists>words. reserve name (pool_offset a + sz * elem_size a) = Some (mz_addr a, words)"
  using assms
  by (auto simp: udpdk_init_allocator_def Let_def live_def used_idx_def free_idx_def init_bits_free
      split: if_splits option.splits)

lemma init_alloc_inv:
  assumes "reserve_ok reserve" "udpdk_init_allocator reserve name sz esz = Some (Some a)"
    and "0 < sz" "unat sz \<le> 2 ^ 16" "unat esz \<le> 2 ^ 15"
  shows "alloc_inv a"
proof -
  note f = init_fields [OF assms(2)]
  have es: "unat (elem_size a) \<le> 2 ^ 10"
    using assms(5) by (simp add: f(2) unat_div unat_word_ariths)
  have po: "unat (pool_offset a) \<le> 2 ^ 15"
  proof -
    let ?N = "20 + unat sz div 8 + unat (elem_size a)"
    have e1: "20 + (sz div 8 + 1) + elem_size a - 1 = of_nat ?N"
      using arg_cong [OF unat_div [of sz 8], of "of_nat :: nat \<Rightarrow> u32"] by simp
    have e2: "unat (of_nat ?N :: u32) \<le> ?N"
      unfolding unat_of_nat by (rule mod_less_eq_dividend)
    have e3: "?N \<le> 2 ^ 15"
      using assms(4) es by simp
    have "unat (20 + (sz div 8 + 1) + elem_size a - 1) \<le> 2 ^ 15"
      unfolding e1 by (rule order_trans [OF e2 e3])
    then show ?thesis
      unfolding f(5) unat_div by (rule order_trans [OF div_le_dividend])
  qed
  have prod: "unat sz * unat (elem_size a) \<le> 2 ^ 16 * 2 ^ 10"
    by (rule mult_le_mono [OF assms(4) es])
  then have len: "unat (pool_offset a + sz * elem_size a) =
      unat (pool_offset a) + unat sz * unat (elem_size a)"
    using po by (simp add: unat_word_ariths)
  obtain words where "reserve name (pool_offset a + sz * elem_size a) = Some (mz_addr a, words)"
    using f(10) by blast
  then have "mz_addr a \<noteq> NULL"
      "unat (mz_addr a) + unat (pool_offset a + sz * elem_size a) < 2 ^ 64"
    using assms(1) unfolding reserve_ok_def by blast+
  then have pool: "pool_ok a"
    using f(9) prod by (simp add: pool_ok_def f(1) len word_neq_0_conv add.assoc)
  with assms(3) show ?thesis
    by (auto simp: alloc_inv_def f word_less_nat_alt)
qed

end
