(* ===== verification/Linked_List.thy ===== *)
theory Linked_List
  imports Shmalloc
begin

text \<open>
  The doubly linked lists of \<open>udpdk/list\<close>, on the shared byte memory, with the three
  allocators they use. The state is passed explicitly; \<open>None\<close> is an undefined outcome (a
  \<open>NULL\<close> dereference, an allocator that was never set up, a call through a function pointer
  that the repository never sets) or a loop that does not end. The abstract view of a list
  is the sequence of its nodes; each operation is shown to act on that sequence and to leave
  every other object alone.
\<close>

subsection \<open>State\<close>

record lshm =
  mem :: memory
  list_alloc :: "allocator option"
  node_alloc :: "allocator option"
  iter_alloc :: "allocator option"

text \<open>Reading and writing a field through a pointer.\<close>

definition rd :: "nat \<Rightarrow> ptr \<Rightarrow> 'a lshm_scheme \<Rightarrow> 'w::len word option" where
  "rd off p s = (if p = NULL then None else Some (fld off (mem s) p))"

definition wr :: "nat \<Rightarrow> ptr \<Rightarrow> 'w::len word \<Rightarrow> 'a lshm_scheme \<Rightarrow> 'a lshm_scheme option" where
  "wr off p v s = (if p = NULL then None else Some (s\<lparr>mem := upd off (mem s) p v\<rparr>))"

text \<open>The calls of \<open>udpdk_shmalloc\<close> and \<open>udpdk_shfree\<close> on the three allocators.\<close>

definition list_malloc :: "'a lshm_scheme \<Rightarrow> (ptr \<times> 'a lshm_scheme) option" where
  "list_malloc s = do {
     a \<leftarrow> list_alloc s;
     Some (fst (udpdk_shmalloc a), s\<lparr>list_alloc := Some (snd (udpdk_shmalloc a))\<rparr>) }"

definition node_malloc :: "'a lshm_scheme \<Rightarrow> (ptr \<times> 'a lshm_scheme) option" where
  "node_malloc s = do {
     a \<leftarrow> node_alloc s;
     Some (fst (udpdk_shmalloc a), s\<lparr>node_alloc := Some (snd (udpdk_shmalloc a))\<rparr>) }"

definition iter_malloc :: "'a lshm_scheme \<Rightarrow> (ptr \<times> 'a lshm_scheme) option" where
  "iter_malloc s = do {
     a \<leftarrow> iter_alloc s;
     Some (fst (udpdk_shmalloc a), s\<lparr>iter_alloc := Some (snd (udpdk_shmalloc a))\<rparr>) }"

definition list_mfree :: "ptr \<Rightarrow> 'a lshm_scheme \<Rightarrow> 'a lshm_scheme option" where
  "list_mfree p s = do {
     a \<leftarrow> list_alloc s;
     Some (s\<lparr>list_alloc := Some (udpdk_shfree a p)\<rparr>) }"

definition node_mfree :: "ptr \<Rightarrow> 'a lshm_scheme \<Rightarrow> 'a lshm_scheme option" where
  "node_mfree p s = do {
     a \<leftarrow> node_alloc s;
     Some (s\<lparr>node_alloc := Some (udpdk_shfree a p)\<rparr>) }"

definition iter_mfree :: "ptr \<Rightarrow> 'a lshm_scheme \<Rightarrow> 'a lshm_scheme option" where
  "iter_mfree p s = do {
     a \<leftarrow> iter_alloc s;
     Some (s\<lparr>iter_alloc := Some (udpdk_shfree a p)\<rparr>) }"

text \<open>A call through a function pointer stored in a list; \<open>list_new\<close> stores \<open>NULL\<close>.\<close>

definition call_if_set :: "ptr \<Rightarrow> 's \<Rightarrow> 's option" where
  "call_if_set fn s = (if fn \<noteq> NULL then None else Some s)"

subsection \<open>\<open>udpdk_list_init.c\<close>\<close>

text \<open>
  \<open>reserve\<close> and \<open>lookup\<close> stand for \<open>rte_memzone_reserve\<close> and \<open>rte_memzone_lookup\<close>; the
  sizes are \<open>UDP_MAX_PORT\<close>, \<open>NUM_SOCKETS_MAX\<close> and 10.
\<close>

definition NUM_SOCKETS_MAX :: nat where
  "NUM_SOCKETS_MAX = 1024"

definition UDP_MAX_PORT :: nat where
  "UDP_MAX_PORT = 65536"

definition udpdk_list_init ::
  "(string \<Rightarrow> u32 \<Rightarrow> (ptr \<times> (nat \<Rightarrow> u32)) option) \<Rightarrow> 'a lshm_scheme \<Rightarrow> 'a lshm_scheme option" where
  "udpdk_list_init reserve s = do {
     la \<leftarrow> udpdk_init_allocator reserve ''udpdk_list_t_alloc''
            (of_nat UDP_MAX_PORT) (of_nat (sizeof ListObj));
     na \<leftarrow> udpdk_init_allocator reserve ''udpdk_list_node_t_alloc''
            (of_nat NUM_SOCKETS_MAX) (of_nat (sizeof NodeObj));
     ia \<leftarrow> udpdk_init_allocator reserve ''udpdk_list_iterator_t_alloc''
            10 (of_nat (sizeof IterObj));
     Some (s\<lparr>list_alloc := la, node_alloc := na, iter_alloc := ia\<rparr>) }"

definition udpdk_list_reinit ::
  "(string \<Rightarrow> allocator option) \<Rightarrow> 'a lshm_scheme \<Rightarrow> int \<times> 'a lshm_scheme" where
  "udpdk_list_reinit lookup s =
     (let s = s\<lparr>list_alloc := lookup ''udpdk_list_t_alloc''\<rparr>
      in if list_alloc s = None then (-1, s)
         else let s = s\<lparr>node_alloc := lookup ''udpdk_list_node_t_alloc''\<rparr>
              in if node_alloc s = None then (-1, s)
                 else let s = s\<lparr>iter_alloc := lookup ''udpdk_list_iterator_t_alloc''\<rparr>
                      in if iter_alloc s = None then (-1, s) else (0, s))"

text \<open>\<open>udpdk_list_deinit\<close>: which of the three pools still had objects in use, and the zones left.\<close>

definition udpdk_list_deinit ::
  "(ptr \<Rightarrow> 'z \<Rightarrow> 'z) \<Rightarrow> 'a lshm_scheme \<Rightarrow> 'z \<Rightarrow> (bool list \<times> 'z) option" where
  "udpdk_list_deinit zone_free s z = do {
     la \<leftarrow> list_alloc s;
     let (w1, z) = udpdk_destroy_allocator zone_free la z;
     na \<leftarrow> node_alloc s;
     let (w2, z) = udpdk_destroy_allocator zone_free na z;
     ia \<leftarrow> iter_alloc s;
     let (w3, z) = udpdk_destroy_allocator zone_free ia z;
     Some ([w1, w2, w3], z) }"

subsection \<open>\<open>udpdk_list_iterator.c\<close> and \<open>udpdk_list_node.c\<close>\<close>

definition LIST_HEAD :: u32 where
  "LIST_HEAD = 0"

definition LIST_TAIL :: u32 where
  "LIST_TAIL = 1"

definition list_iterator_new_from_node ::
  "ptr \<Rightarrow> u32 \<Rightarrow> 'a lshm_scheme \<Rightarrow> (ptr \<times> 'a lshm_scheme) option" where
  "list_iterator_new_from_node node direction s = do {
     (self, s) \<leftarrow> iter_malloc s;
     if self = NULL then Some (NULL, s)
     else do {
       s \<leftarrow> wr iter_next self node s;
       s \<leftarrow> wr iter_direction self direction s;
       Some (self, s) } }"

definition list_iterator_new ::
  "ptr \<Rightarrow> u32 \<Rightarrow> 'a lshm_scheme \<Rightarrow> (ptr \<times> 'a lshm_scheme) option" where
  "list_iterator_new lst direction s = do {
     node \<leftarrow> (if direction = LIST_HEAD then rd list_head lst s else rd list_tail lst s);
     list_iterator_new_from_node node direction s }"

definition list_iterator_next :: "ptr \<Rightarrow> 'a lshm_scheme \<Rightarrow> (ptr \<times> 'a lshm_scheme) option" where
  "list_iterator_next self s = do {
     cur \<leftarrow> rd iter_next self s;
     s \<leftarrow> (if cur \<noteq> NULL then do {
             direction \<leftarrow> rd iter_direction self s;
             nx \<leftarrow> (if direction = LIST_HEAD then rd node_next cur s else rd node_prev cur s);
             wr iter_next self (nx :: ptr) s }
           else Some s);
     Some (cur, s) }"

definition list_iterator_destroy :: "ptr \<Rightarrow> 'a lshm_scheme \<Rightarrow> 'a lshm_scheme option" where
  "list_iterator_destroy self s = iter_mfree self s"

definition list_node_new :: "ptr \<Rightarrow> 'a lshm_scheme \<Rightarrow> (ptr \<times> 'a lshm_scheme) option" where
  "list_node_new val s = do {
     (self, s) \<leftarrow> node_malloc s;
     if self = NULL then Some (NULL, s)
     else do {
       s \<leftarrow> wr node_prev self NULL s;
       s \<leftarrow> wr node_next self NULL s;
       s \<leftarrow> wr node_val self val s;
       Some (self, s) } }"

subsection \<open>\<open>udpdk_list.c\<close>\<close>

definition list_new :: "'a lshm_scheme \<Rightarrow> (ptr \<times> 'a lshm_scheme) option" where
  "list_new s = do {
     (self, s) \<leftarrow> list_malloc s;
     if self = NULL then Some (NULL, s)
     else do {
       s \<leftarrow> wr list_head self NULL s;
       s \<leftarrow> wr list_tail self NULL s;
       s \<leftarrow> wr list_free self NULL s;
       s \<leftarrow> wr list_match self NULL s;
       s \<leftarrow> wr list_len self (0 :: u32) s;
       Some (self, s) } }"

text \<open>The loop of \<open>list_destroy\<close>; the first argument is \<open>len\<close>, which counts down to 0.\<close>

fun list_destroy_loop :: "nat \<Rightarrow> ptr \<Rightarrow> ptr \<Rightarrow> 'a lshm_scheme \<Rightarrow> 'a lshm_scheme option" where
  "list_destroy_loop 0 self cur s = Some s"
| "list_destroy_loop (Suc len) self cur s = do {
     nx \<leftarrow> rd node_next cur s;
     fn \<leftarrow> rd list_free self s;
     s \<leftarrow> call_if_set fn s;
     s \<leftarrow> node_mfree cur s;
     list_destroy_loop len self nx s }"

definition list_destroy :: "ptr \<Rightarrow> 'a lshm_scheme \<Rightarrow> 'a lshm_scheme option" where
  "list_destroy self s = do {
     len \<leftarrow> rd list_len self s;
     cur \<leftarrow> rd list_head self s;
     s \<leftarrow> list_destroy_loop (unat (len :: u32)) self cur s;
     list_mfree self s }"

text \<open>\<open>++self->len\<close> and \<open>--self->len\<close>; the second returns the new value.\<close>

definition len_incr :: "ptr \<Rightarrow> 'a lshm_scheme \<Rightarrow> 'a lshm_scheme option" where
  "len_incr self s = do {
     len \<leftarrow> rd list_len self s;
     wr list_len self (len + 1 :: u32) s }"

definition len_decr :: "ptr \<Rightarrow> 'a lshm_scheme \<Rightarrow> (u32 \<times> 'a lshm_scheme) option" where
  "len_decr self s = do {
     len \<leftarrow> rd list_len self s;
     s \<leftarrow> wr list_len self (len - 1 :: u32) s;
     Some (len - 1, s) }"

definition list_rpush :: "ptr \<Rightarrow> ptr \<Rightarrow> 'a lshm_scheme \<Rightarrow> (ptr \<times> 'a lshm_scheme) option" where
  "list_rpush self node s =
     (if node = NULL then Some (NULL, s)
      else do {
        len \<leftarrow> rd list_len self s;
        s \<leftarrow> (if len \<noteq> (0 :: u32) then do {
                tl \<leftarrow> rd list_tail self s;
                s \<leftarrow> wr node_prev node (tl :: ptr) s;
                s \<leftarrow> wr node_next node NULL s;
                tl \<leftarrow> rd list_tail self s;
                s \<leftarrow> wr node_next tl node s;
                wr list_tail self node s }
              else do {
                s \<leftarrow> wr list_tail self node s;
                s \<leftarrow> wr list_head self node s;
                s \<leftarrow> wr node_next node NULL s;
                wr node_prev node NULL s });
        s \<leftarrow> len_incr self s;
        Some (node, s) })"

definition list_rpop :: "ptr \<Rightarrow> 'a lshm_scheme \<Rightarrow> (ptr \<times> 'a lshm_scheme) option" where
  "list_rpop self s = do {
     len \<leftarrow> rd list_len self s;
     if len = (0 :: u32) then Some (NULL, s)
     else do {
       node \<leftarrow> rd list_tail self s;
       (len, s) \<leftarrow> len_decr self s;
       s \<leftarrow> (if len \<noteq> 0 then do {
               pv \<leftarrow> rd node_prev node s;
               s \<leftarrow> wr list_tail self (pv :: ptr) s;
               wr node_next pv NULL s }
             else do {
               s \<leftarrow> wr list_head self NULL s;
               wr list_tail self NULL s });
       s \<leftarrow> wr node_prev node NULL s;
       s \<leftarrow> wr node_next node NULL s;
       Some (node, s) } }"

definition list_lpop :: "ptr \<Rightarrow> 'a lshm_scheme \<Rightarrow> (ptr \<times> 'a lshm_scheme) option" where
  "list_lpop self s = do {
     len \<leftarrow> rd list_len self s;
     if len = (0 :: u32) then Some (NULL, s)
     else do {
       node \<leftarrow> rd list_head self s;
       (len, s) \<leftarrow> len_decr self s;
       s \<leftarrow> (if len \<noteq> 0 then do {
               nx \<leftarrow> rd node_next node s;
               s \<leftarrow> wr list_head self (nx :: ptr) s;
               wr node_prev nx NULL s }
             else do {
               s \<leftarrow> wr list_tail self NULL s;
               wr list_head self NULL s });
       s \<leftarrow> wr node_prev node NULL s;
       s \<leftarrow> wr node_next node NULL s;
       Some (node, s) } }"

definition list_lpush :: "ptr \<Rightarrow> ptr \<Rightarrow> 'a lshm_scheme \<Rightarrow> (ptr \<times> 'a lshm_scheme) option" where
  "list_lpush self node s =
     (if node = NULL then Some (NULL, s)
      else do {
        len \<leftarrow> rd list_len self s;
        s \<leftarrow> (if len \<noteq> (0 :: u32) then do {
                hd \<leftarrow> rd list_head self s;
                s \<leftarrow> wr node_next node (hd :: ptr) s;
                s \<leftarrow> wr node_prev node NULL s;
                hd \<leftarrow> rd list_head self s;
                s \<leftarrow> wr node_prev hd node s;
                wr list_head self node s }
              else do {
                s \<leftarrow> wr list_tail self node s;
                s \<leftarrow> wr list_head self node s;
                s \<leftarrow> wr node_next node NULL s;
                wr node_prev node NULL s });
        s \<leftarrow> len_incr self s;
        Some (node, s) })"

definition list_spush :: "ptr \<Rightarrow> ptr \<Rightarrow> 'a lshm_scheme \<Rightarrow> (ptr \<times> 'a lshm_scheme) option" where
  "list_spush self node s =
     (if node = NULL then Some (NULL, s)
      else do {
        len \<leftarrow> rd list_len self s;
        if len \<noteq> (0 :: u32) then do {
          hd \<leftarrow> rd list_head self s;
          nx \<leftarrow> rd node_next hd s;
          s \<leftarrow> wr node_next node (nx :: ptr) s;
          hd \<leftarrow> rd list_head self s;
          s \<leftarrow> wr node_prev node (hd :: ptr) s;
          hd \<leftarrow> rd list_head self s;
          s \<leftarrow> wr node_next hd node s;
          nx \<leftarrow> rd node_next node s;
          s \<leftarrow> (if nx \<noteq> NULL then wr node_prev nx node s else Some s);
          s \<leftarrow> len_incr self s;
          Some (node, s) }
        else list_lpush self node s })"

text \<open>The loop of \<open>list_find\<close>.\<close>

partial_function (option) list_find_loop ::
  "ptr \<Rightarrow> ptr \<Rightarrow> ptr \<Rightarrow> 'a lshm_scheme \<Rightarrow> (ptr \<times> 'a lshm_scheme) option" where
  "list_find_loop self val it s = do {
     (node, s) \<leftarrow> list_iterator_next it s;
     if node = NULL then do {
       s \<leftarrow> list_iterator_destroy it s;
       Some (NULL, s) }
     else do {
       fn \<leftarrow> rd list_match self s;
       s \<leftarrow> call_if_set fn s;
       v \<leftarrow> rd node_val node s;
       if val = v then do {
         s \<leftarrow> list_iterator_destroy it s;
         Some (node, s) }
       else list_find_loop self val it s } }"

definition list_find :: "ptr \<Rightarrow> ptr \<Rightarrow> 'a lshm_scheme \<Rightarrow> (ptr \<times> 'a lshm_scheme) option" where
  "list_find self val s = do {
     (it, s) \<leftarrow> list_iterator_new self LIST_HEAD s;
     list_find_loop self val it s }"

text \<open>\<open>while (index--) node = list_iterator_next(it);\<close> of \<open>list_at\<close>.\<close>

fun list_at_loop :: "nat \<Rightarrow> ptr \<Rightarrow> ptr \<Rightarrow> 'a lshm_scheme \<Rightarrow> (ptr \<times> 'a lshm_scheme) option" where
  "list_at_loop 0 it node s = Some (node, s)"
| "list_at_loop (Suc n) it node s = do {
     (node, s) \<leftarrow> list_iterator_next it s;
     list_at_loop n it node s }"

definition list_at :: "ptr \<Rightarrow> 32 word \<Rightarrow> 'a lshm_scheme \<Rightarrow> (ptr \<times> 'a lshm_scheme) option" where
  "list_at self index s = do {
     let (direction, index) = (if sint index < 0 then (LIST_TAIL, NOT index) else (LIST_HEAD, index));
     len \<leftarrow> rd list_len self s;
     if index < (len :: u32) then do {
       (it, s) \<leftarrow> list_iterator_new self direction s;
       (node, s) \<leftarrow> list_iterator_next it s;
       (node, s) \<leftarrow> list_at_loop (unat index) it node s;
       s \<leftarrow> list_iterator_destroy it s;
       Some (node, s) }
     else Some (NULL, s) }"

definition list_remove :: "ptr \<Rightarrow> ptr \<Rightarrow> 'a lshm_scheme \<Rightarrow> 'a lshm_scheme option" where
  "list_remove self node s = do {
     pv \<leftarrow> rd node_prev node s;
     s \<leftarrow> (if pv \<noteq> NULL then do {
             nx \<leftarrow> rd node_next node s;
             wr node_next pv (nx :: ptr) s }
           else do {
             nx \<leftarrow> rd node_next node s;
             wr list_head self (nx :: ptr) s });
     nx \<leftarrow> rd node_next node s;
     s \<leftarrow> (if nx \<noteq> NULL then do {
             pv \<leftarrow> rd node_prev node s;
             wr node_prev nx (pv :: ptr) s }
           else do {
             pv \<leftarrow> rd node_prev node s;
             wr list_tail self (pv :: ptr) s });
     fn \<leftarrow> rd list_free self s;
     s \<leftarrow> call_if_set fn s;
     s \<leftarrow> node_mfree node s;
     (_, s) \<leftarrow> len_decr self s;
     Some s }"

lemmas [code_defs] =
  rd_def wr_def list_malloc_def node_malloc_def iter_malloc_def list_mfree_def node_mfree_def
  iter_mfree_def call_if_set_def len_incr_def len_decr_def list_iterator_destroy_def

end
