(* ===== verification/List_Refine.thy ===== *)
theory List_Refine
  imports Linked_List
begin

text \<open>
  The linked lists implement sequences of nodes. \<open>dlist F m self ns\<close> says that the list
  object \<open>self\<close> of the memory \<open>m\<close> holds the nodes \<open>ns\<close> in this order, with consistent
  links in both directions; \<open>F\<close> is the footprint of the live objects. Each push, pop and
  removal is refined to the operation on \<open>ns\<close>; iteration visits \<open>ns\<close> or its reverse.
\<close>

subsection \<open>The representation predicate\<close>

fun seg :: "memory \<Rightarrow> ptr \<Rightarrow> ptr list \<Rightarrow> ptr \<Rightarrow> bool" where
  "seg m pv [] nx \<longleftrightarrow> True"
| "seg m pv (p # ps) nx \<longleftrightarrow>
     fld node_prev m p = pv \<and> fld node_next m p = head_or nx ps \<and> seg m p ps nx"

definition dlist :: "footprint \<Rightarrow> memory \<Rightarrow> ptr \<Rightarrow> ptr list \<Rightarrow> bool" where
  "dlist F m self ns \<longleftrightarrow>
     self \<in> F ListObj \<and> set ns \<subseteq> F NodeObj \<and> distinct ns \<and> length ns < 2 ^ 32 \<and>
     fld list_head m self = head_or NULL ns \<and>
     fld list_tail m self = last_or NULL ns \<and>
     (fld list_len m self :: u32) = of_nat (length ns) \<and>
     fld list_free m self = NULL \<and> fld list_match m self = NULL \<and>
     seg m NULL ns NULL"

lemma seg_append:
  "seg m pv (ps @ qs) nx \<longleftrightarrow> seg m pv ps (head_or nx qs) \<and> seg m (last_or pv ps) qs nx"
  by (induction ps arbitrary: pv) (auto simp: conj_ac)

lemma seg_cong:
  "(\<And>p. p \<in> set ps \<Longrightarrow> (fld node_prev m' p :: ptr) = fld node_prev m p) \<Longrightarrow>
   (\<And>p. p \<in> set ps \<Longrightarrow> (fld node_next m' p :: ptr) = fld node_next m p) \<Longrightarrow>
   seg m' pv ps nx = seg m pv ps nx"
  by (induction ps arbitrary: pv) auto

lemma seg_upd_other:
  fixes v :: "'b::len word"
  assumes "separated F" "q \<in> F K" "off + LENGTH('b) div 8 \<le> sizeof K"
    and "set ps \<subseteq> F NodeObj" "K \<noteq> NodeObj \<or> q \<notin> set ps"
  shows "seg (upd off m q v) pv ps nx = seg m pv ps nx"
proof (rule seg_cong)
  fix p assume p: "p \<in> set ps"
  then have "p \<in> F NodeObj" "(NodeObj, p) \<noteq> (K, q)"
    using assms(4,5) by auto
  then show "(fld node_prev (upd off m q v) p :: ptr) = fld node_prev m p"
      "(fld node_next (upd off m q v) p :: ptr) = fld node_next m p"
    using assms(1-3) by (intro fld_upd_other [of F p NodeObj q K]; simp)+
qed

lemmas seg_upd [mem_simps] =
  seg_upd_other [where K = NodeObj] seg_upd_other [where K = ListObj]
  seg_upd_other [where K = IterObj] seg_upd_other [where K = InfoObj]

lemma dlist_in: "dlist F m self ns \<Longrightarrow> self \<in> F ListObj" "dlist F m self ns \<Longrightarrow> n \<in> set ns \<Longrightarrow> n \<in> F NodeObj"
  by (auto simp: dlist_def)

lemma dlist_len_zero:
  "dlist F m self ns \<Longrightarrow> (fld list_len m self :: u32) = 0 \<longleftrightarrow> ns = []"
  by (auto simp: dlist_def word_of_nat_eq_0_iff dest: nat_dvd_not_less)

lemma unat_dlist_len: "dlist F m self ns \<Longrightarrow> unat (fld list_len m self :: u32) = length ns"
  by (simp add: dlist_def unat_of_nat)

lemma dlist_frame:
  assumes "dlist F m self ns" "frame F T m m'" "(ListObj, self) \<notin> T"
    and "\<And>p. p \<in> set ns \<Longrightarrow> (NodeObj, p) \<notin> T"
  shows "dlist F m' self ns"
proof -
  note inF = dlist_in [OF assms(1)]
  have l: "(fld off m' self :: 'w::len word) = fld off m self"
    if "off + LENGTH('w) div 8 \<le> 40" for off
    using that by (intro frame_fld [OF assms(2) inF(1) assms(3)]) simp
  have n: "(fld off m' p :: ptr) = fld off m p" if "p \<in> set ns" "off \<le> 16" for off p
    using that by (intro frame_fld [OF assms(2) inF(2) assms(4)]) simp_all
  show ?thesis
    using assms(1) seg_cong [of ns m' m NULL NULL] n by (simp add: dlist_def l)
qed

lemma dlist_mono: "dlist F m self ns \<Longrightarrow> (\<And>K. F K \<subseteq> F' K) \<Longrightarrow> dlist F' m self ns"
  unfolding dlist_def by blast

text \<open>The nodes of a list, read from memory: the abstraction function.\<close>

fun walk :: "memory \<Rightarrow> ptr \<Rightarrow> nat \<Rightarrow> ptr list" where
  "walk m p 0 = []"
| "walk m p (Suc n) = p # walk m (fld node_next m p) n"

definition nodes_at :: "memory \<Rightarrow> ptr \<Rightarrow> ptr list" where
  "nodes_at m self = walk m (fld list_head m self) (unat (fld list_len m self :: u32))"

lemma walk_seg: "seg m pv ps nx \<Longrightarrow> walk m (head_or nx ps) (length ps) = ps"
proof (induction ps arbitrary: pv)
  case (Cons p ps)
  then have "walk m (head_or nx ps) (length ps) = ps" by auto
  with Cons.prems show ?case by simp
qed simp

lemma nodes_at_dlist: "dlist F m self ns \<Longrightarrow> nodes_at m self = ns"
  unfolding nodes_at_def using unat_dlist_len [of F m self ns]
  by (auto simp: dlist_def walk_seg)

lemma dlist_unique: "dlist F m self ns \<Longrightarrow> dlist F m self ns' \<Longrightarrow> ns = ns'"
  using nodes_at_dlist by blast

subsection \<open>Pushes\<close>

text \<open>Which objects a push may write: the list object and nodes.\<close>

definition touched :: "ptr \<Rightarrow> ptr set \<Rightarrow> (obj_kind \<times> ptr) set" where
  "touched self N = insert (ListObj, self) (Pair NodeObj ` N)"

lemma in_touched [simp]:
  "(ListObj, p) \<in> touched self N \<longleftrightarrow> p = self" "(NodeObj, p) \<in> touched self N \<longleftrightarrow> p \<in> N"
  "(IterObj, p) \<notin> touched self N" "(InfoObj, p) \<notin> touched self N"
  by (auto simp: touched_def)

definition vals_kept :: "footprint \<Rightarrow> memory \<Rightarrow> memory \<Rightarrow> bool" where
  "vals_kept F m m' \<longleftrightarrow> (\<forall>p \<in> F NodeObj. (fld node_val m' p :: ptr) = fld node_val m p)"

lemma list_rpush_refine:
  assumes sep: "separated F" and l: "dlist F (mem s) self ns"
    and node: "node \<in> F NodeObj" "node \<notin> set ns" and len: "length ns + 1 < 2 ^ 32"
  shows "\<exists>m'. list_rpush self node s = Some (node, s\<lparr>mem := m'\<rparr>) \<and>
    dlist F m' self (ns @ [node]) \<and> frame F (touched self (insert node (set ns))) (mem s) m' \<and>
    vals_kept F (mem s) m'"
proof (cases ns rule: rev_cases)
  case Nil
  have inF: "self \<in> F ListObj" using l by (rule dlist_in)
  have nn: "self \<noteq> NULL" "node \<noteq> NULL"
    using separated_nonnull [OF sep] inF node(1) by auto
  let ?m = "upd list_len (upd node_prev (upd node_next (upd list_head (upd list_tail (mem s)
     self node) self node) node NULL) node NULL) self (1 :: u32)"
  have "list_rpush self node s = Some (node, s\<lparr>mem := ?m\<rparr>)"
    using sep l inF node nn Nil
    by (simp add: list_rpush_def code_defs mem_simps dlist_def)
  moreover have "dlist F ?m self (ns @ [node])"
    using sep l inF node nn Nil by (simp add: dlist_def mem_simps)
  moreover have "frame F (touched self (insert node (set ns))) (mem s) ?m"
    using sep inF node by (intro frame_intros) auto
  moreover have "vals_kept F (mem s) ?m"
    using sep inF node by (auto simp: vals_kept_def mem_simps)
  ultimately show ?thesis by blast
next
  case (snoc qs t)
  have inF: "self \<in> F ListObj" "t \<in> F NodeObj" "set qs \<subseteq> F NodeObj" using l snoc by (auto simp: dlist_def)
  have nn: "self \<noteq> NULL" "node \<noteq> NULL" "t \<noteq> NULL"
    using separated_nonnull [OF sep] inF node(1) by auto
  have dist: "t \<noteq> node" "node \<noteq> t" "t \<notin> set qs" "node \<notin> set qs" using node l snoc by (auto simp: dlist_def)
  let ?m = "upd list_len (upd list_tail (upd node_next (upd node_next (upd node_prev (mem s)
     node t) node NULL) t node) self node) self (of_nat (length ns) + 1 :: u32)"
  have "list_rpush self node s = Some (node, s\<lparr>mem := ?m\<rparr>)"
    using sep l inF node nn dist dlist_len_zero [OF l] snoc
    by (simp add: list_rpush_def code_defs mem_simps dlist_def)
  moreover have "dlist F ?m self (ns @ [node])"
    using sep l inF node nn dist snoc len by (simp add: dlist_def mem_simps seg_append)
  moreover have "frame F (touched self (insert node (set ns))) (mem s) ?m"
    using sep inF node snoc by (intro frame_intros) auto
  moreover have "vals_kept F (mem s) ?m"
    using sep inF node by (auto simp: vals_kept_def mem_simps)
  ultimately show ?thesis by blast
qed

lemma list_lpush_refine:
  assumes sep: "separated F" and l: "dlist F (mem s) self ns"
    and node: "node \<in> F NodeObj" "node \<notin> set ns" and len: "length ns + 1 < 2 ^ 32"
  shows "\<exists>m'. list_lpush self node s = Some (node, s\<lparr>mem := m'\<rparr>) \<and>
    dlist F m' self (node # ns) \<and> frame F (touched self (insert node (set ns))) (mem s) m' \<and>
    vals_kept F (mem s) m'"
proof (cases ns)
  case Nil
  have inF: "self \<in> F ListObj" using l by (rule dlist_in)
  have nn: "self \<noteq> NULL" "node \<noteq> NULL"
    using separated_nonnull [OF sep] inF node(1) by auto
  let ?m = "upd list_len (upd node_prev (upd node_next (upd list_head (upd list_tail (mem s)
     self node) self node) node NULL) node NULL) self (1 :: u32)"
  have "list_lpush self node s = Some (node, s\<lparr>mem := ?m\<rparr>)"
    using sep l inF node nn Nil
    by (simp add: list_lpush_def code_defs mem_simps dlist_def)
  moreover have "dlist F ?m self (node # ns)"
    using sep l inF node nn Nil by (simp add: dlist_def mem_simps)
  moreover have "frame F (touched self (insert node (set ns))) (mem s) ?m"
    using sep inF node by (intro frame_intros) auto
  moreover have "vals_kept F (mem s) ?m"
    using sep inF node by (auto simp: vals_kept_def mem_simps)
  ultimately show ?thesis by blast
next
  case (Cons h qs)
  have inF: "self \<in> F ListObj" "h \<in> F NodeObj" "set qs \<subseteq> F NodeObj" using l Cons by (auto simp: dlist_def)
  have nn: "self \<noteq> NULL" "node \<noteq> NULL" "h \<noteq> NULL"
    using separated_nonnull [OF sep] inF node(1) by auto
  have dist: "h \<noteq> node" "node \<noteq> h" "h \<notin> set qs" "node \<notin> set qs" using node l Cons by (auto simp: dlist_def)
  let ?m = "upd list_len (upd list_head (upd node_prev (upd node_prev (upd node_next (mem s)
     node h) node NULL) h node) self node) self (of_nat (length ns) + 1 :: u32)"
  have "list_lpush self node s = Some (node, s\<lparr>mem := ?m\<rparr>)"
    using sep l inF node nn dist dlist_len_zero [OF l] Cons
    by (simp add: list_lpush_def code_defs mem_simps dlist_def)
  moreover have "dlist F ?m self (node # ns)"
    using sep l inF node nn dist Cons len by (simp add: dlist_def mem_simps)
  moreover have "frame F (touched self (insert node (set ns))) (mem s) ?m"
    using sep inF node Cons by (intro frame_intros) auto
  moreover have "vals_kept F (mem s) ?m"
    using sep inF node by (auto simp: vals_kept_def mem_simps)
  ultimately show ?thesis by blast
qed

text \<open>
  \<open>list_spush\<close> puts the node second, or first in an empty list, unless the list has exactly
  one node: then \<open>tail\<close> keeps pointing to the old last node.
\<close>

lemma list_spush_refine:
  assumes sep: "separated F" and l: "dlist F (mem s) self ns"
    and node: "node \<in> F NodeObj" "node \<notin> set ns" and len: "length ns + 1 < 2 ^ 32"
    and two: "length ns \<noteq> 1"
  shows "\<exists>m'. list_spush self node s = Some (node, s\<lparr>mem := m'\<rparr>) \<and>
    dlist F m' self (take 1 ns @ node # drop 1 ns) \<and>
    frame F (touched self (insert node (set ns))) (mem s) m' \<and> vals_kept F (mem s) m'"
proof (cases ns)
  case Nil
  have "self \<noteq> NULL" "node \<noteq> NULL"
    using separated_nonnull [OF sep] dlist_in(1) [OF l] node(1) by auto
  then have "list_spush self node s = list_lpush self node s"
    using dlist_len_zero [OF l] Nil by (simp add: list_spush_def code_defs)
  with list_lpush_refine [OF sep l node len] Nil show ?thesis by simp
next
  case (Cons h qs)
  with two obtain k ks where C: "ns = h # k # ks" by (cases qs) auto
  have inF: "self \<in> F ListObj" "h \<in> F NodeObj" "k \<in> F NodeObj" "set ks \<subseteq> F NodeObj"
    using l C by (auto simp: dlist_def)
  have nn: "self \<noteq> NULL" "node \<noteq> NULL" "h \<noteq> NULL" "k \<noteq> NULL"
    using separated_nonnull [OF sep] inF node(1) by auto
  have dist: "h \<noteq> node" "node \<noteq> h" "k \<noteq> node" "node \<noteq> k" "k \<noteq> h" "h \<noteq> k"
      "k \<notin> set ks" "h \<notin> set ks" "node \<notin> set ks"
    using node l C by (auto simp: dlist_def)
  let ?m = "upd list_len (upd node_prev (upd node_next (upd node_prev (upd node_next (mem s)
     node k) node h) h node) k node) self (of_nat (length ns) + 1 :: u32)"
  have "list_spush self node s = Some (node, s\<lparr>mem := ?m\<rparr>)"
    using sep l inF node nn dist dlist_len_zero [OF l] C
    by (simp add: list_spush_def code_defs mem_simps dlist_def)
  moreover have "dlist F ?m self (take 1 ns @ node # drop 1 ns)"
    using sep l inF node nn dist C len by (simp add: dlist_def mem_simps)
  moreover have "frame F (touched self (insert node (set ns))) (mem s) ?m"
    using sep inF node C by (intro frame_intros) auto
  moreover have "vals_kept F (mem s) ?m"
    using sep inF node by (auto simp: vals_kept_def mem_simps)
  ultimately show ?thesis by blast
qed

lemma list_spush_one:
  assumes sep: "separated F" and l: "dlist F (mem s) self [h]"
    and node: "node \<in> F NodeObj" "node \<noteq> h"
  shows "\<exists>m'. list_spush self node s = Some (node, s\<lparr>mem := m'\<rparr>) \<and>
    nodes_at m' self = [h, node] \<and> fld list_tail m' self = h \<and> (\<forall>ns. \<not> dlist F m' self ns)"
proof -
  have inF: "self \<in> F ListObj" "h \<in> F NodeObj" using l by (auto simp: dlist_def)
  have nn: "self \<noteq> NULL" "node \<noteq> NULL" "h \<noteq> NULL"
    using separated_nonnull [OF sep] inF node(1) by auto
  let ?m = "upd list_len (upd node_next (upd node_prev (upd node_next (mem s)
     node NULL) node h) h node) self (2 :: u32)"
  have "list_spush self node s = Some (node, s\<lparr>mem := ?m\<rparr>)"
    using sep l inF node nn dlist_len_zero [OF l]
    by (simp add: list_spush_def code_defs mem_simps dlist_def)
  moreover have nodes: "nodes_at ?m self = [h, node]"
  proof -
    have "(fld list_len ?m self :: u32) = 2" "fld list_head ?m self = h" "fld node_next ?m h = node"
      using sep l inF node nn by (simp_all add: mem_simps dlist_def)
    moreover have "walk ?m h 2 = [h, fld node_next ?m h]"
      by (simp add: numeral_2_eq_2)
    ultimately show ?thesis by (simp add: nodes_at_def)
  qed
  moreover have tail: "fld list_tail ?m self = h"
    using sep l inF node nn by (simp add: mem_simps dlist_def)
  moreover have "\<not> dlist F ?m self ns" for ns
  proof
    assume d: "dlist F ?m self ns"
    then have "ns = [h, node]" using nodes nodes_at_dlist by metis
    with d tail node(2) show False by (simp add: dlist_def)
  qed
  ultimately show ?thesis by blast
qed

subsection \<open>Pops\<close>

lemma of_nat_len_zero: "length ns < 2 ^ 32 \<Longrightarrow> (of_nat (length ns) :: u32) = 0 \<longleftrightarrow> ns = []"
  by (auto simp: word_of_nat_eq_0_iff dest: nat_dvd_not_less)

lemma list_rpop_refine:
  assumes sep: "separated F" and l: "dlist F (mem s) self ns"
  shows "\<exists>m'. list_rpop self s = Some (last_or NULL ns, s\<lparr>mem := m'\<rparr>) \<and>
    dlist F m' self (butlast ns) \<and> frame F (touched self (set ns)) (mem s) m' \<and>
    vals_kept F (mem s) m'"
proof (cases ns rule: rev_cases)
  case Nil
  have "self \<noteq> NULL" using separated_nonnull [OF sep] dlist_in(1) [OF l] by auto
  then have "list_rpop self s = Some (NULL, s\<lparr>mem := mem s\<rparr>)"
    using dlist_len_zero [OF l] Nil by (simp add: list_rpop_def code_defs)
  moreover have "dlist F (mem s) self (butlast ns)"
    using l Nil by simp
  ultimately show ?thesis
    using Nil by (intro exI [of _ "mem s"]) (simp add: vals_kept_def frame_refl)
next
  case (snoc qs t)
  have inF: "self \<in> F ListObj" "t \<in> F NodeObj" "set qs \<subseteq> F NodeObj" using l snoc by (auto simp: dlist_def)
  have nn: "self \<noteq> NULL" "t \<noteq> NULL" using separated_nonnull [OF sep] inF by auto
  have dist: "t \<notin> set qs" "length qs < 2 ^ 32" using l snoc by (auto simp: dlist_def)
  have e: "last_or NULL ns = t" "butlast ns = qs" using snoc by simp_all
  note zero = dlist_len_zero [OF l] of_nat_len_zero [OF dist(2)]
  show ?thesis
  proof (cases qs rule: rev_cases)
    case Nil
    let ?m = "upd node_next (upd node_prev (upd list_tail (upd list_head (upd list_len (mem s)
       self (0 :: u32)) self NULL) self NULL) t NULL) t NULL"
    have "list_rpop self s = Some (t, s\<lparr>mem := ?m\<rparr>)"
      using sep l inF nn dist zero snoc Nil
      by (simp add: list_rpop_def code_defs mem_simps dlist_def)
    moreover have "dlist F ?m self qs"
      using sep l inF nn dist snoc Nil by (simp add: dlist_def mem_simps)
    moreover have "frame F (touched self (set ns)) (mem s) ?m"
      using sep inF snoc by (intro frame_intros) auto
    moreover have "vals_kept F (mem s) ?m"
      using sep inF by (auto simp: vals_kept_def mem_simps)
    ultimately show ?thesis unfolding e by blast
  next
    case (snoc rs u)
    note S = \<open>ns = qs @ [t]\<close> this
    have u: "u \<in> F NodeObj" "u \<noteq> NULL" "u \<noteq> t" "t \<noteq> u" "u \<notin> set rs" "t \<notin> set rs" "set rs \<subseteq> F NodeObj"
      using inF dist l S separated_nonnull [OF sep] by (auto simp: dlist_def)
    let ?m = "upd node_next (upd node_prev (upd node_next (upd list_tail (upd list_len (mem s)
       self (of_nat (length qs) :: u32)) self u) u NULL) t NULL) t NULL"
    have "list_rpop self s = Some (t, s\<lparr>mem := ?m\<rparr>)"
      using sep l inF nn dist zero S u
      by (simp add: list_rpop_def code_defs mem_simps dlist_def seg_append)
    moreover have "dlist F ?m self qs"
      using sep l inF nn dist S u by (simp add: dlist_def mem_simps seg_append)
    moreover have "frame F (touched self (set ns)) (mem s) ?m"
      using sep inF S u by (intro frame_intros) auto
    moreover have "vals_kept F (mem s) ?m"
      using sep inF u by (auto simp: vals_kept_def mem_simps)
    ultimately show ?thesis unfolding e by blast
  qed
qed

lemma list_lpop_refine:
  assumes sep: "separated F" and l: "dlist F (mem s) self ns"
  shows "\<exists>m'. list_lpop self s = Some (head_or NULL ns, s\<lparr>mem := m'\<rparr>) \<and>
    dlist F m' self (tl ns) \<and> frame F (touched self (set ns)) (mem s) m' \<and>
    vals_kept F (mem s) m'"
proof (cases ns)
  case Nil
  have "self \<noteq> NULL" using separated_nonnull [OF sep] dlist_in(1) [OF l] by auto
  then have "list_lpop self s = Some (NULL, s\<lparr>mem := mem s\<rparr>)"
    using dlist_len_zero [OF l] Nil by (simp add: list_lpop_def code_defs)
  moreover have "dlist F (mem s) self (tl ns)"
    using l Nil by simp
  ultimately show ?thesis
    using Nil by (intro exI [of _ "mem s"]) (simp add: vals_kept_def frame_refl)
next
  case (Cons t qs)
  have inF: "self \<in> F ListObj" "t \<in> F NodeObj" "set qs \<subseteq> F NodeObj" using l Cons by (auto simp: dlist_def)
  have nn: "self \<noteq> NULL" "t \<noteq> NULL" using separated_nonnull [OF sep] inF by auto
  have dist: "t \<notin> set qs" "length qs < 2 ^ 32" using l Cons by (auto simp: dlist_def)
  have e: "head_or NULL ns = t" "tl ns = qs" using Cons by simp_all
  note zero = dlist_len_zero [OF l] of_nat_len_zero [OF dist(2)]
  show ?thesis
  proof (cases qs)
    case Nil
    let ?m = "upd node_next (upd node_prev (upd list_head (upd list_tail (upd list_len (mem s)
       self (0 :: u32)) self NULL) self NULL) t NULL) t NULL"
    have "list_lpop self s = Some (t, s\<lparr>mem := ?m\<rparr>)"
      using sep l inF nn dist zero Cons Nil
      by (simp add: list_lpop_def code_defs mem_simps dlist_def)
    moreover have "dlist F ?m self qs"
      using sep l inF nn dist Cons Nil by (simp add: dlist_def mem_simps)
    moreover have "frame F (touched self (set ns)) (mem s) ?m"
      using sep inF Cons by (intro frame_intros) auto
    moreover have "vals_kept F (mem s) ?m"
      using sep inF by (auto simp: vals_kept_def mem_simps)
    ultimately show ?thesis unfolding e by blast
  next
    case (Cons u rs)
    note S = \<open>ns = t # qs\<close> this
    have u: "u \<in> F NodeObj" "u \<noteq> NULL" "u \<noteq> t" "t \<noteq> u" "u \<notin> set rs" "t \<notin> set rs" "set rs \<subseteq> F NodeObj"
      using inF dist l S separated_nonnull [OF sep] by (auto simp: dlist_def)
    let ?m = "upd node_next (upd node_prev (upd node_prev (upd list_head (upd list_len (mem s)
       self (of_nat (length qs) :: u32)) self u) u NULL) t NULL) t NULL"
    have "list_lpop self s = Some (t, s\<lparr>mem := ?m\<rparr>)"
      using sep l inF nn dist zero S u
      by (simp add: list_lpop_def code_defs mem_simps dlist_def)
    moreover have "dlist F ?m self qs"
      using sep l inF nn dist S u by (simp add: dlist_def mem_simps)
    moreover have "frame F (touched self (set ns)) (mem s) ?m"
      using sep inF S u by (intro frame_intros) auto
    moreover have "vals_kept F (mem s) ?m"
      using sep inF u by (auto simp: vals_kept_def mem_simps)
    ultimately show ?thesis unfolding e by blast
  qed
qed

subsection \<open>Removal and destruction\<close>

lemma list_remove_refine:
  assumes sep: "separated F" and l: "dlist F (mem s) self (xs @ node # ys)"
    and al: "node_alloc s = Some a"
  shows "\<exists>m'. list_remove self node s =
      Some (s\<lparr>mem := m', node_alloc := Some (udpdk_shfree a node)\<rparr>) \<and>
    dlist F m' self (xs @ ys) \<and> frame F (touched self (set xs \<union> set ys)) (mem s) m' \<and>
    vals_kept F (mem s) m'"
proof -
  have inF: "self \<in> F ListObj" "node \<in> F NodeObj" "set xs \<subseteq> F NodeObj" "set ys \<subseteq> F NodeObj"
    using l by (auto simp: dlist_def)
  have dist: "node \<notin> set xs" "node \<notin> set ys" "distinct (xs @ ys)" "set xs \<inter> set ys = {}"
    using l by (auto simp: dlist_def)
  let ?p = "last_or NULL xs" and ?n = "head_or NULL ys"
  have p: "xs \<noteq> [] \<Longrightarrow> ?p \<in> set xs" and n: "ys \<noteq> [] \<Longrightarrow> ?n \<in> set ys"
    by (auto intro: last_or_in head_or_in)
  have pF: "xs \<noteq> [] \<Longrightarrow> ?p \<in> F NodeObj" and nF: "ys \<noteq> [] \<Longrightarrow> ?n \<in> F NodeObj"
    using subsetD [OF inF(3)] subsetD [OF inF(4)] p n by simp_all
  have nn: "self \<noteq> NULL" "node \<noteq> NULL" "xs \<noteq> [] \<Longrightarrow> ?p \<noteq> NULL" "ys \<noteq> [] \<Longrightarrow> ?n \<noteq> NULL"
    using separated_nonnull [OF sep inF(1)] separated_nonnull [OF sep inF(2)]
      separated_nonnull [OF sep pF] separated_nonnull [OF sep nF] by simp_all
  have pn: "xs \<noteq> [] \<Longrightarrow> ?p \<in> F NodeObj \<and> ?p \<noteq> node" "ys \<noteq> [] \<Longrightarrow> ?n \<in> F NodeObj \<and> ?n \<noteq> node"
      "xs \<noteq> [] \<Longrightarrow> ys \<noteq> [] \<Longrightarrow> ?p \<noteq> ?n"
    using p n pF nF dist by auto
  let ?m1 = "if xs = [] then upd list_head (mem s) self ?n else upd node_next (mem s) ?p ?n"
  let ?m2 = "if ys = [] then upd list_tail ?m1 self ?p else upd node_prev ?m1 ?n ?p"
  let ?m = "upd list_len ?m2 self (of_nat (length (xs @ ys)) :: u32)"
  have links: "fld node_prev (mem s) node = ?p" "fld node_next (mem s) node = ?n"
      "fld list_free (mem s) self = NULL"
      "(fld list_len (mem s) self :: u32) = of_nat (length (xs @ ys)) + 1"
    using l by (simp_all add: dlist_def seg_append)
  have run: "list_remove self node s = Some (s\<lparr>mem := ?m, node_alloc := Some (udpdk_shfree a node)\<rparr>)"
    using sep inF nn pn al links
    by (cases "xs = []"; cases "ys = []")
      (simp_all add: list_remove_def code_defs mem_simps)
  have new: "dlist F ?m self (xs @ ys)"
  proof (cases xs rule: rev_cases; cases ys)
    assume "xs = []" "ys = []"
    then show ?thesis using l sep inF by (simp add: dlist_def mem_simps)
  next
    fix y zs assume "xs = []" "ys = y # zs"
    then show ?thesis using l sep inF dist by (simp add: dlist_def mem_simps)
  next
    fix zs x assume "xs = zs @ [x]" "ys = []"
    then show ?thesis using l sep inF dist by (simp add: dlist_def mem_simps seg_append)
  next
    fix zs x y us assume "xs = zs @ [x]" "ys = y # us"
    then show ?thesis using l sep inF dist
      by (simp add: dlist_def mem_simps seg_append) auto
  qed
  have fr: "frame F (touched self (set xs \<union> set ys)) (mem s) ?m"
    using sep inF p n by (cases "xs = []"; cases "ys = []") (auto intro!: frame_intros)
  have "vals_kept F (mem s) ?m"
    using sep inF pn by (cases "xs = []"; cases "ys = []") (auto simp: vals_kept_def mem_simps)
  with run new fr show ?thesis by blast
qed

lemma list_destroy_loop_eq:
  assumes "dlist F (mem s) self (xs @ ys)" "separated F" "node_alloc s = Some a"
  shows "list_destroy_loop (length ys) self (head_or NULL ys) s =
    Some (s\<lparr>node_alloc := Some (put_objs udpdk_shfree ys a)\<rparr>)"
  using assms
proof (induction ys arbitrary: xs s a)
  case (Cons y ys)
  have nn: "self \<noteq> NULL" "y \<noteq> NULL"
    using separated_nonnull [OF Cons.prems(2)] dlist_in [OF Cons.prems(1)] by auto
  let ?s = "s\<lparr>node_alloc := Some (udpdk_shfree a y)\<rparr>"
  have d: "dlist F (mem ?s) self ((xs @ [y]) @ ys)" "node_alloc ?s = Some (udpdk_shfree a y)"
    using Cons.prems(1) by simp_all
  from Cons.IH [OF d(1) Cons.prems(2) d(2)] Cons.prems nn show ?case
    by (simp add: code_defs dlist_def seg_append)
qed simp

lemma list_destroy_refine:
  assumes "dlist F (mem s) self ns" "separated F" "node_alloc s = Some a" "list_alloc s = Some la"
  shows "list_destroy self s =
    Some (s\<lparr>node_alloc := Some (put_objs udpdk_shfree ns a),
            list_alloc := Some (udpdk_shfree la self)\<rparr>)"
proof -
  have "self \<noteq> NULL"
    using separated_nonnull [OF assms(2)] dlist_in(1) [OF assms(1)] by auto
  moreover have "fld list_head (mem s) self = head_or NULL ns"
    using assms(1) by (simp add: dlist_def)
  ultimately show ?thesis
    using list_destroy_loop_eq [of F s self "[]" ns a] assms unat_dlist_len [OF assms(1)]
    by (simp add: list_destroy_def code_defs)
qed

subsection \<open>Creation\<close>

lemma list_new_refine:
  assumes "list_alloc s = Some a" "udpdk_shmalloc a = (p, a')"
    and "separated F" "p \<in> F ListObj"
  shows "\<exists>m'. list_new s = Some (p, s\<lparr>mem := m', list_alloc := Some a'\<rparr>) \<and>
    dlist F m' p [] \<and> frame F {(ListObj, p)} (mem s) m'"
proof -
  have nn: "p \<noteq> NULL" using assms(3,4) by (rule separated_nonnull)
  let ?m = "upd list_len (upd list_match (upd list_free (upd list_tail (upd list_head (mem s)
     p NULL) p NULL) p NULL) p NULL) p (0 :: u32)"
  have "list_new s = Some (p, s\<lparr>mem := ?m, list_alloc := Some a'\<rparr>)"
    using assms(1,2) nn by (simp add: list_new_def code_defs)
  moreover have "dlist F ?m p []"
    using assms(3,4) by (simp add: dlist_def mem_simps)
  moreover have "frame F {(ListObj, p)} (mem s) ?m"
    using assms(3,4) by (intro frame_intros) auto
  ultimately show ?thesis by blast
qed

lemma list_node_new_refine:
  assumes "node_alloc s = Some a" "udpdk_shmalloc a = (p, a')"
    and "separated F" "p \<in> F NodeObj"
  shows "\<exists>m'. list_node_new val s = Some (p, s\<lparr>mem := m', node_alloc := Some a'\<rparr>) \<and>
    fld node_val m' p = val \<and> frame F {(NodeObj, p)} (mem s) m'"
proof -
  have nn: "p \<noteq> NULL" using assms(3,4) by (rule separated_nonnull)
  let ?m = "upd node_val (upd node_next (upd node_prev (mem s) p NULL) p NULL) p val"
  have "list_node_new val s = Some (p, s\<lparr>mem := ?m, node_alloc := Some a'\<rparr>)"
    using assms(1,2) nn by (simp add: list_node_new_def code_defs)
  moreover have "fld node_val ?m p = val"
    by (simp add: mem_simps)
  moreover have "frame F {(NodeObj, p)} (mem s) ?m"
    using assms(3,4) by (intro frame_intros) auto
  ultimately show ?thesis by blast
qed

subsection \<open>Iteration\<close>

text \<open>The iterator object \<open>it\<close> is about to yield the nodes \<open>ps\<close>, in direction \<open>d\<close>.\<close>

definition iter_at :: "footprint \<Rightarrow> memory \<Rightarrow> ptr \<Rightarrow> u32 \<Rightarrow> ptr list \<Rightarrow> bool" where
  "iter_at F m it d ps \<longleftrightarrow> it \<in> F IterObj \<and> fld iter_next m it = head_or NULL ps \<and>
     fld iter_direction m it = d"

lemma list_iterator_new_refine:
  assumes "iter_alloc s = Some a" "udpdk_shmalloc a = (it, a')"
    and "separated F" "it \<in> F IterObj" "dlist F (mem s) self ns"
  shows "\<exists>m'. list_iterator_new self d s = Some (it, s\<lparr>mem := m', iter_alloc := Some a'\<rparr>) \<and>
    iter_at F m' it d (if d = LIST_HEAD then ns else rev ns) \<and>
    frame F {(IterObj, it)} (mem s) m'"
proof -
  have nn: "it \<noteq> NULL" "self \<noteq> NULL"
    using separated_nonnull [OF assms(3)] assms(4) dlist_in(1) [OF assms(5)] by auto
  have last: "head_or NULL (rev ns) = last_or NULL ns"
    by (cases ns rule: rev_cases) simp_all
  let ?m = "upd iter_direction (upd iter_next (mem s) it
     (head_or NULL (if d = LIST_HEAD then ns else rev ns))) it d"
  have "list_iterator_new self d s = Some (it, s\<lparr>mem := ?m, iter_alloc := Some a'\<rparr>)"
    using assms(1,2,5) nn
    by (simp add: list_iterator_new_def list_iterator_new_from_node_def code_defs dlist_def last)
  moreover have "iter_at F ?m it d (if d = LIST_HEAD then ns else rev ns)"
    using assms(3,4) by (simp add: iter_at_def mem_simps)
  moreover have "frame F {(IterObj, it)} (mem s) ?m"
    using assms(3,4) by (intro frame_intros) auto
  ultimately show ?thesis by blast
qed

text \<open>A list is untouched by writes to iterators.\<close>

lemma dlist_iter_frame: "dlist F m self ns \<Longrightarrow> frame F {(IterObj, it)} m m' \<Longrightarrow> dlist F m' self ns"
  by (erule dlist_frame) auto

lemma list_iterator_next_end:
  "separated F \<Longrightarrow> iter_at F (mem s) it d [] \<Longrightarrow> list_iterator_next it s = Some (NULL, s)"
  using separated_nonnull [of F it IterObj]
  by (simp add: list_iterator_next_def code_defs iter_at_def)

text \<open>A step forward needs only the link of the node, not that it is in a list.\<close>

lemma list_iterator_next_link:
  assumes "separated F" "iter_at F (mem s) it LIST_HEAD (y # zs)" "y \<in> F NodeObj"
    and "fld node_next (mem s) y = head_or NULL ys"
  shows "\<exists>m'. list_iterator_next it s = Some (y, s\<lparr>mem := m'\<rparr>) \<and>
    iter_at F m' it LIST_HEAD ys \<and> frame F {(IterObj, it)} (mem s) m'"
proof -
  have inF: "it \<in> F IterObj" using assms(2) by (simp add: iter_at_def)
  have nn: "it \<noteq> NULL" "y \<noteq> NULL" using separated_nonnull [OF assms(1)] inF assms(3) by auto
  let ?m = "upd iter_next (mem s) it (head_or NULL ys)"
  have "list_iterator_next it s = Some (y, s\<lparr>mem := ?m\<rparr>)"
    using assms(2,4) nn by (simp add: list_iterator_next_def code_defs iter_at_def)
  moreover have "iter_at F ?m it LIST_HEAD ys"
    using assms(1,2) inF by (simp add: iter_at_def mem_simps)
  moreover have "frame F {(IterObj, it)} (mem s) ?m"
    using assms(1) inF by (intro frame_intros) auto
  ultimately show ?thesis by blast
qed

lemma list_iterator_next_fwd:
  assumes "separated F" "dlist F (mem s) self (xs @ y # ys)" "iter_at F (mem s) it LIST_HEAD (y # ys)"
  shows "\<exists>m'. list_iterator_next it s = Some (y, s\<lparr>mem := m'\<rparr>) \<and>
    iter_at F m' it LIST_HEAD ys \<and> frame F {(IterObj, it)} (mem s) m'"
  by (rule list_iterator_next_link [OF assms(1,3)]) (use assms(2) in \<open>simp_all add: dlist_def seg_append\<close>)

lemma list_iterator_next_bwd:
  assumes "separated F" "dlist F (mem s) self (rev ys @ y # xs)"
    and "iter_at F (mem s) it LIST_TAIL (y # ys)"
  shows "\<exists>m'. list_iterator_next it s = Some (y, s\<lparr>mem := m'\<rparr>) \<and>
    iter_at F m' it LIST_TAIL ys \<and> frame F {(IterObj, it)} (mem s) m'"
proof -
  have inF: "it \<in> F IterObj" "y \<in> F NodeObj" using assms(2,3) by (auto simp: dlist_def iter_at_def)
  have nn: "it \<noteq> NULL" "y \<noteq> NULL" using separated_nonnull [OF assms(1)] inF by auto
  have "last_or NULL (rev ys) = head_or NULL ys" by (cases ys) simp_all
  then have link: "fld node_prev (mem s) y = head_or NULL ys"
    using assms(2) by (simp add: dlist_def seg_append)
  let ?m = "upd iter_next (mem s) it (head_or NULL ys)"
  have "list_iterator_next it s = Some (y, s\<lparr>mem := ?m\<rparr>)"
    using assms(3) nn link
    by (simp add: list_iterator_next_def code_defs iter_at_def LIST_HEAD_def LIST_TAIL_def)
  moreover have "iter_at F ?m it LIST_TAIL ys"
    using assms(1,3) inF by (simp add: iter_at_def mem_simps)
  moreover have "frame F {(IterObj, it)} (mem s) ?m"
    using assms(1) inF by (intro frame_intros) auto
  ultimately show ?thesis by blast
qed

text \<open>
  One step in either direction: \<open>pending\<close> says that the nodes still to come are a suffix of
  the list, or of its reverse.
\<close>

definition pending :: "footprint \<Rightarrow> memory \<Rightarrow> ptr \<Rightarrow> u32 \<Rightarrow> ptr list \<Rightarrow> bool" where
  "pending F m self d ys \<longleftrightarrow>
     (if d = LIST_HEAD then \<exists>xs. dlist F m self (xs @ ys)
      else d = LIST_TAIL \<and> (\<exists>xs. dlist F m self (rev ys @ xs)))"

lemma pending_new:
  "dlist F m self ns \<Longrightarrow> d = LIST_HEAD \<or> d = LIST_TAIL \<Longrightarrow>
    pending F m self d (if d = LIST_HEAD then ns else rev ns)"
  unfolding pending_def by (auto intro: exI [of _ "[]"])

lemma pending_frame:
  "pending F m self d ys \<Longrightarrow> frame F {(IterObj, it)} m m' \<Longrightarrow> pending F m' self d ys"
  unfolding pending_def by (meson dlist_iter_frame)

lemma list_iterator_next_step:
  assumes "separated F" "pending F (mem s) self d (y # ys)" "iter_at F (mem s) it d (y # ys)"
  shows "\<exists>m'. list_iterator_next it s = Some (y, s\<lparr>mem := m'\<rparr>) \<and>
    iter_at F m' it d ys \<and> pending F m' self d ys \<and> frame F {(IterObj, it)} (mem s) m'"
proof (cases "d = LIST_HEAD")
  case True
  with assms(2) obtain xs where d: "dlist F (mem s) self (xs @ y # ys)"
    by (auto simp: pending_def)
  with list_iterator_next_fwd [OF assms(1) d] assms(3) True obtain m' where
    m': "list_iterator_next it s = Some (y, s\<lparr>mem := m'\<rparr>)" "iter_at F m' it d ys"
      "frame F {(IterObj, it)} (mem s) m'" by blast
  have "dlist F m' self ((xs @ [y]) @ ys)"
    using dlist_iter_frame [OF d m'(3)] by simp
  then have "\<exists>xs. dlist F m' self (xs @ ys)" by (rule exI)
  with True have "pending F m' self d ys" by (simp add: pending_def)
  with m' show ?thesis by blast
next
  case False
  with assms(2) obtain xs where T: "d = LIST_TAIL" and d: "dlist F (mem s) self (rev ys @ y # xs)"
    by (auto simp: pending_def)
  with list_iterator_next_bwd [OF assms(1) d] assms(3) obtain m' where
    m': "list_iterator_next it s = Some (y, s\<lparr>mem := m'\<rparr>)" "iter_at F m' it d ys"
      "frame F {(IterObj, it)} (mem s) m'" by blast
  have "dlist F m' self (rev ys @ y # xs)"
    by (rule dlist_iter_frame [OF d m'(3)])
  then have "\<exists>xs. dlist F m' self (rev ys @ xs)" by (rule exI)
  with T False have "pending F m' self d ys" by (simp add: pending_def)
  with m' show ?thesis by blast
qed

lemma node_iter_frame:
  "frame F {(IterObj, it)} m m' \<Longrightarrow> n \<in> F NodeObj \<Longrightarrow> (fld node_val m' n :: ptr) = fld node_val m n"
  by (erule frame_fld) auto

lemma list_match_iter_frame:
  "dlist F m self ns \<Longrightarrow> frame F {(IterObj, it)} m m' \<Longrightarrow> fld list_match m' self = NULL"
  using dlist_iter_frame [of F m self ns it m'] by (simp add: dlist_def)

lemma list_find_loop_refine:
  assumes "separated F" "pending F (mem s) self LIST_HEAD ys" "iter_at F (mem s) it LIST_HEAD ys"
    and "iter_alloc s = Some a"
  shows "\<exists>m'. list_find_loop self val it s =
      Some (head_or NULL (filter (\<lambda>n. fld node_val (mem s) n = val) ys),
        s\<lparr>mem := m', iter_alloc := Some (udpdk_shfree a it)\<rparr>) \<and>
    frame F {(IterObj, it)} (mem s) m'"
  using assms(2-4)
proof (induction ys arbitrary: s)
  case Nil
  have "list_find_loop self val it s = Some (NULL, s\<lparr>mem := mem s, iter_alloc := Some (udpdk_shfree a it)\<rparr>)"
    using list_iterator_next_end [OF assms(1) Nil.prems(2)] Nil.prems(3)
    by (subst list_find_loop.simps) (simp add: code_defs)
  then show ?case
    by (intro exI [of _ "mem s"]) (simp add: frame_refl)
next
  case (Cons y ys)
  obtain m1 where m1: "list_iterator_next it s = Some (y, s\<lparr>mem := m1\<rparr>)"
      "iter_at F m1 it LIST_HEAD ys" "pending F m1 self LIST_HEAD ys"
      "frame F {(IterObj, it)} (mem s) m1"
    using list_iterator_next_step [OF assms(1) Cons.prems(1,2)] by blast
  obtain xs where d: "dlist F (mem s) self (xs @ y # ys)"
    using Cons.prems(1) by (auto simp: pending_def)
  have inF: "self \<in> F ListObj" "y \<in> F NodeObj" "set ys \<subseteq> F NodeObj"
    using d by (auto simp: dlist_def)
  have nn: "self \<noteq> NULL" "y \<noteq> NULL"
    using separated_nonnull [OF assms(1)] inF by auto
  have mt: "fld list_match m1 self = NULL"
    by (rule list_match_iter_frame [OF d m1(4)])
  have val: "(fld node_val m1 y :: ptr) = fld node_val (mem s) y"
    by (rule node_iter_frame [OF m1(4) inF(2)])
  show ?case
  proof (cases "val = fld node_val (mem s) y")
    case True
    then have "list_find_loop self val it s =
        Some (y, s\<lparr>mem := m1, iter_alloc := Some (udpdk_shfree a it)\<rparr>)"
      using m1(1) nn mt val Cons.prems(3)
      by (subst list_find_loop.simps) (simp add: code_defs)
    with True m1(4) show ?thesis by auto
  next
    case False
    let ?s = "s\<lparr>mem := m1\<rparr>"
    have "list_find_loop self val it s = list_find_loop self val it ?s"
      using m1(1) nn mt val False
      by (subst list_find_loop.simps) (simp add: code_defs)
    moreover obtain m' where m': "list_find_loop self val it ?s =
          Some (head_or NULL (filter (\<lambda>n. fld node_val m1 n = val) ys),
            ?s\<lparr>mem := m', iter_alloc := Some (udpdk_shfree a it)\<rparr>)"
        "frame F {(IterObj, it)} m1 m'"
      using Cons.IH [of ?s] m1(2,3) Cons.prems(3) by auto
    moreover have "filter (\<lambda>n. fld node_val m1 n = val) ys = filter (\<lambda>n. fld node_val (mem s) n = val) ys"
      using inF(3) by (intro filter_cong) (auto simp: node_iter_frame [OF m1(4)])
    ultimately show ?thesis
      using False frame_trans [OF m1(4) m'(2)] by auto
  qed
qed

lemma list_find_refine:
  assumes "separated F" "dlist F (mem s) self ns"
    and "iter_alloc s = Some a" "udpdk_shmalloc a = (it, a')" "it \<in> F IterObj"
  shows "\<exists>m'. list_find self val s =
      Some (head_or NULL (filter (\<lambda>n. fld node_val (mem s) n = val) ns),
        s\<lparr>mem := m', iter_alloc := Some (udpdk_shfree a' it)\<rparr>) \<and>
    frame F {(IterObj, it)} (mem s) m'"
proof -
  obtain m1 where m1: "list_iterator_new self LIST_HEAD s = Some (it, s\<lparr>mem := m1, iter_alloc := Some a'\<rparr>)"
      "iter_at F m1 it LIST_HEAD ns" "frame F {(IterObj, it)} (mem s) m1"
    using list_iterator_new_refine [OF assms(3,4,1,5,2), of LIST_HEAD] by auto
  let ?s = "s\<lparr>mem := m1, iter_alloc := Some a'\<rparr>"
  have "pending F (mem ?s) self LIST_HEAD ns"
    using pending_frame [OF pending_new [OF assms(2), of LIST_HEAD] m1(3)] by simp
  with list_find_loop_refine [OF assms(1), of ?s self ns it a' val] m1(2)
  obtain m' where m': "list_find_loop self val it ?s =
        Some (head_or NULL (filter (\<lambda>n. fld node_val m1 n = val) ns),
          ?s\<lparr>mem := m', iter_alloc := Some (udpdk_shfree a' it)\<rparr>)"
      "frame F {(IterObj, it)} m1 m'"
    by auto
  have "filter (\<lambda>n. fld node_val m1 n = val) ns = filter (\<lambda>n. fld node_val (mem s) n = val) ns"
    using dlist_in(2) [OF assms(2)] by (intro filter_cong) (auto simp: node_iter_frame [OF m1(3)])
  with m1 m' frame_trans [OF m1(3) m'(2)] show ?thesis
    by (auto simp: list_find_def)
qed

lemma list_at_loop_refine:
  assumes "separated F" "n \<le> length ys"
    and "pending F (mem s) self d ys" "iter_at F (mem s) it d ys"
  shows "\<exists>m'. list_at_loop n it y s = Some ((y # ys) ! n, s\<lparr>mem := m'\<rparr>) \<and>
    frame F {(IterObj, it)} (mem s) m'"
  using assms(2-4)
proof (induction n arbitrary: s y ys)
  case 0
  then show ?case by (intro exI [of _ "mem s"]) (simp add: frame_refl)
next
  case (Suc n)
  then obtain z zs where ys: "ys = z # zs" by (cases ys) auto
  obtain m1 where m1: "list_iterator_next it s = Some (z, s\<lparr>mem := m1\<rparr>)" "iter_at F m1 it d zs"
      "pending F m1 self d zs" "frame F {(IterObj, it)} (mem s) m1"
    using list_iterator_next_step [OF assms(1)] Suc.prems(2,3) unfolding ys by blast
  obtain m' where "list_at_loop n it z (s\<lparr>mem := m1\<rparr>) = Some ((z # zs) ! n, s\<lparr>mem := m'\<rparr>)"
      "frame F {(IterObj, it)} m1 m'"
    using Suc.IH [of zs "s\<lparr>mem := m1\<rparr>" z] Suc.prems(1) m1(2,3) ys by auto
  with m1(1) frame_trans [OF m1(4)] ys show ?case by auto
qed

text \<open>What \<open>list_at\<close> answers: negative indices count from the end, \<open>NULL\<close> out of range.\<close>

definition nth_node :: "ptr list \<Rightarrow> int \<Rightarrow> ptr" where
  "nth_node ns i =
     (if 0 \<le> i \<and> i < int (length ns) then ns ! nat i
      else if i < 0 \<and> - int (length ns) \<le> i then ns ! nat (int (length ns) + i)
      else NULL)"

lemma nth_node_nat: "j < length ns \<Longrightarrow> nth_node ns (int j) = ns ! j"
  by (simp add: nth_node_def)

text \<open>Where the walk of \<open>list_at\<close> ends: \<open>k\<close> steps from the head, or from the tail for a negative index.\<close>

lemma nth_node_walk:
  fixes index :: u32
  assumes k: "k = (if sint index < 0 then NOT index else index)"
  shows "nth_node ns (sint index) =
    (if unat k < length ns then (if sint index < 0 then rev ns else ns) ! unat k else NULL)"
proof -
  have nat_k: "int (unat k) = (if sint index < 0 then - sint index - 1 else sint index)"
    using unat_nonneg [of index] unat_not [of index] by (simp add: k)
  consider "\<not> unat k < length ns" | "unat k < length ns" "sint index < 0" | "unat k < length ns" "\<not> sint index < 0"
    by blast
  then show ?thesis
  proof cases
    case 1
    then have "int (length ns) \<le> int (unat k)" by linarith
    then have "\<not> (0 \<le> sint index \<and> sint index < int (length ns))"
        "\<not> (sint index < 0 \<and> - int (length ns) \<le> sint index)"
      unfolding nat_k by (auto split: if_splits)
    then have "nth_node ns (sint index) = NULL" unfolding nth_node_def by presburger
    with 1 show ?thesis by simp
  next
    case 2
    have "int (unat k) = - sint index - 1" using nat_k 2(2) by (simp only: if_True)
    then have "nat (int (length ns) + sint index) = length ns - Suc (unat k) \<and>
        - int (length ns) \<le> sint index"
      by (rule from_end [OF _ 2(1)])
    then show ?thesis using 2 by (simp add: nth_node_def rev_nth)
  next
    case 3
    have e: "sint index = int (unat k)" using nat_k 3(2) by (simp only: if_False)
    have "nth_node ns (sint index) = ns ! unat k" unfolding e using 3(1) by (rule nth_node_nat)
    with 3 show ?thesis by simp
  qed
qed

lemma list_at_refine:
  assumes "separated F" "dlist F (mem s) self ns"
    and "iter_alloc s = Some a" "udpdk_shmalloc a = (it, a')" "it \<in> F IterObj"
  shows "\<exists>m' al. list_at self index s = Some (nth_node ns (sint index), s\<lparr>mem := m', iter_alloc := Some al\<rparr>) \<and>
    al \<in> {a, udpdk_shfree a' it} \<and> frame F {(IterObj, it)} (mem s) m'"
proof -
  define d where "d = (if sint index < 0 then LIST_TAIL else LIST_HEAD)"
  define k where "k = (if sint index < 0 then NOT index else index)"
  define ys where "ys = (if d = LIST_HEAD then ns else rev ns)"
  have nn: "self \<noteq> NULL"
    using separated_nonnull [OF assms(1)] dlist_in(1) [OF assms(2)] by auto
  have d: "d = LIST_HEAD \<or> d = LIST_TAIL" by (simp add: d_def)
  have len: "k < fld list_len (mem s) self \<longleftrightarrow> unat k < length ns"
    by (simp add: word_less_nat_alt unat_dlist_len [OF assms(2)])
  have run: "list_at self index s = (if k < fld list_len (mem s) self then do {
       (it, s) \<leftarrow> list_iterator_new self d s;
       (node, s) \<leftarrow> list_iterator_next it s;
       (node, s) \<leftarrow> list_at_loop (unat k) it node s;
       s \<leftarrow> list_iterator_destroy it s;
       Some (node, s) } else Some (NULL, s))"
    using nn by (simp add: list_at_def code_defs d_def k_def)
  note walk = nth_node_walk [OF k_def, of ns]
  show ?thesis
  proof (cases "unat k < length ns")
    case False
    then show ?thesis unfolding run len walk
      by (intro exI [of _ "mem s"] exI [of _ a]) (simp add: assms(3)[symmetric] frame_refl)
  next
    case True
    have lys: "unat k < length ys" using True by (simp add: ys_def)
    then obtain y zs where ys: "ys = y # zs" by (cases ys) auto
    obtain m1 where m1: "list_iterator_new self d s = Some (it, s\<lparr>mem := m1, iter_alloc := Some a'\<rparr>)"
        "iter_at F m1 it d ys" "frame F {(IterObj, it)} (mem s) m1"
      using list_iterator_new_refine [OF assms(3,4,1,5,2), of d] by (auto simp: ys_def)
    let ?s = "s\<lparr>mem := m1, iter_alloc := Some a'\<rparr>"
    have p1: "pending F (mem ?s) self d (y # zs)"
      using pending_frame [OF pending_new [OF assms(2) d] m1(3)] ys by (simp add: ys_def)
    have i1: "iter_at F (mem ?s) it d (y # zs)" using m1(2) ys by simp
    obtain m2 where m2: "list_iterator_next it ?s = Some (y, ?s\<lparr>mem := m2\<rparr>)" "iter_at F m2 it d zs"
        "pending F m2 self d zs" "frame F {(IterObj, it)} m1 m2"
      using list_iterator_next_step [OF assms(1) p1 i1] by auto
    obtain m3 where m3: "list_at_loop (unat k) it y (?s\<lparr>mem := m2\<rparr>) = Some (ys ! unat k, ?s\<lparr>mem := m3\<rparr>)"
        "frame F {(IterObj, it)} m2 m3"
      using list_at_loop_refine [OF assms(1), of "unat k" zs "?s\<lparr>mem := m2\<rparr>" self d it y] m2(2,3) lys
      by (auto simp: ys)
    have "ys ! unat k = nth_node ns (sint index)"
      using True by (simp add: walk ys_def d_def LIST_TAIL_def LIST_HEAD_def)
    then show ?thesis
      unfolding run using True len m1(1) m2(1) m3(1)
        frame_trans [OF frame_trans [OF m1(3) m2(4)] m3(2)]
      by (intro exI [of _ m3] exI [of _ "udpdk_shfree a' it"])
        (simp add: list_iterator_destroy_def iter_mfree_def)
  qed
qed

end
