(* ===== verification/Bind_Table.thy ===== *)
theory Bind_Table
  imports List_Refine
begin

text \<open>
  The table of bound sockets (\<open>udpdk/udpdk_bind_table.c\<close>): for each of the 65536 UDP ports a
  pointer to a linked list of \<open>struct bind_info\<close>, or \<open>NULL\<close>. Ports and IPv4 addresses are
  kept as the code keeps them, in network byte order; both are only compared and used as
  indices. \<open>None\<close> is an undefined outcome, as in the theory of the lists.
\<close>

subsection \<open>State\<close>

text \<open>
  The index type has exactly \<open>UDP_MAX_PORT\<close> values: every caller passes a 16-bit port (the
  \<open>unsigned short\<close> of \<open>udpdk_bind\<close>, the port it stored in the slot, or the \<open>uint16_t\<close> of a
  received packet).
\<close>

record bshm = lshm +
  info_alloc :: "allocator option"
  sock_bind_table :: "u16 \<Rightarrow> ptr"

text \<open>Constants of the Linux headers (\<open>asm-generic/socket.h\<close>, \<open>netinet/in.h\<close>).\<close>

definition SO_REUSEADDR :: u32 where
  "SO_REUSEADDR = 2"

definition SO_REUSEPORT :: u32 where
  "SO_REUSEPORT = 15"

definition INADDR_ANY :: u32 where
  "INADDR_ANY = 0"

text \<open>A C bool made from an integer expression, and the truth value of a stored one.\<close>

definition c_bool :: "u32 \<Rightarrow> u8" where
  "c_bool x = (if x \<noteq> 0 then 1 else 0)"

definition info_malloc :: "'a bshm_scheme \<Rightarrow> (ptr \<times> 'a bshm_scheme) option" where
  "info_malloc s = do {
     a \<leftarrow> info_alloc s;
     Some (fst (udpdk_shmalloc a), s\<lparr>info_alloc := Some (snd (udpdk_shmalloc a))\<rparr>) }"

definition info_mfree :: "ptr \<Rightarrow> 'a bshm_scheme \<Rightarrow> 'a bshm_scheme option" where
  "info_mfree p s = do {
     a \<leftarrow> info_alloc s;
     Some (s\<lparr>info_alloc := Some (udpdk_shfree a p)\<rparr>) }"

subsection \<open>Operations\<close>

text \<open>\<open>reserve\<close> is \<open>rte_memzone_reserve\<close>.\<close>

definition btable_init ::
  "(string \<Rightarrow> u32 \<Rightarrow> (ptr \<times> (nat \<Rightarrow> u32)) option) \<Rightarrow> 'a bshm_scheme \<Rightarrow> 'a bshm_scheme option" where
  "btable_init reserve s = do {
     a \<leftarrow> udpdk_init_allocator reserve ''bind_info_alloc''
           (of_nat NUM_SOCKETS_MAX) (of_nat (sizeof InfoObj));
     let s = s\<lparr>info_alloc := a\<rparr>;
     Some (s\<lparr>sock_bind_table := (\<lambda>i. NULL)\<rparr>) }"

text \<open>The loop of \<open>btable_get_free_port\<close>; the first argument counts the ports left.\<close>

fun free_port_loop :: "nat \<Rightarrow> nat \<Rightarrow> (u16 \<Rightarrow> ptr) \<Rightarrow> int" where
  "free_port_loop 0 i tbl = -1"
| "free_port_loop (Suc n) i tbl =
     (if tbl (of_nat i) = NULL then int i else free_port_loop n (Suc i) tbl)"

definition btable_get_free_port :: "'a bshm_scheme \<Rightarrow> int" where
  "btable_get_free_port s = free_port_loop UDP_MAX_PORT 0 (sock_bind_table s)"

text \<open>
  The three tests of \<open>btable_can_bind\<close> under which it goes on to the next binding, in the
  order of the code.
\<close>

definition skip_binding :: "u32 \<Rightarrow> u32 \<Rightarrow> u32 \<Rightarrow> bool \<Rightarrow> bool" where
  "skip_binding ip_new opts ip_oth oth_reuseport \<longleftrightarrow>
     (if ip_oth \<noteq> ip_new \<and> ip_oth \<noteq> INADDR_ANY \<and> ip_new \<noteq> INADDR_ANY then True
      else if ip_oth \<noteq> ip_new \<and> (ip_oth = INADDR_ANY \<or> ip_new \<noteq> INADDR_ANY) \<and>
              (opts AND SO_REUSEADDR \<noteq> 0 \<or> opts AND SO_REUSEPORT \<noteq> 0) then True
      else if ip_oth = ip_new \<and> ip_new \<noteq> INADDR_ANY \<and>
              opts AND SO_REUSEPORT \<noteq> 0 \<and> oth_reuseport then True
      else False)"

partial_function (option) can_bind_loop ::
  "ptr \<Rightarrow> u32 \<Rightarrow> u32 \<Rightarrow> 'a bshm_scheme \<Rightarrow> (bool \<times> 'a bshm_scheme) option" where
  "can_bind_loop it ip_new opts s = do {
     (node, s) \<leftarrow> list_iterator_next it s;
     if node = NULL then Some (True, s)
     else do {
       b \<leftarrow> rd node_val node s;
       ip_oth \<leftarrow> rd info_ip b s;
       b \<leftarrow> rd node_val node s;
       oth_reuseport \<leftarrow> rd info_reuse_port b s;
       if skip_binding ip_new opts ip_oth (oth_reuseport \<noteq> (0 :: u8))
       then can_bind_loop it ip_new opts s
       else Some (False, s) } }"

definition btable_can_bind ::
  "u32 \<Rightarrow> u16 \<Rightarrow> u32 \<Rightarrow> 'a bshm_scheme \<Rightarrow> (bool \<times> 'a bshm_scheme) option" where
  "btable_can_bind ip port opts s =
     (if sock_bind_table s port = NULL then Some (True, s)
      else do {
        (it, s) \<leftarrow> list_iterator_new (sock_bind_table s port) LIST_HEAD s;
        (can_bind, s) \<leftarrow> can_bind_loop it ip opts s;
        s \<leftarrow> list_iterator_destroy it s;
        Some (can_bind, s) })"

text \<open>Filling in a \<open>struct bind_info\<close>.\<close>

definition write_info ::
  "ptr \<Rightarrow> u32 \<Rightarrow> u32 \<Rightarrow> u32 \<Rightarrow> 'a bshm_scheme \<Rightarrow> 'a bshm_scheme option" where
  "write_info b sk ip opts s = do {
     s \<leftarrow> wr info_sockfd b sk s;
     s \<leftarrow> wr info_ip b ip s;
     s \<leftarrow> wr info_reuse_addr b (c_bool (opts AND SO_REUSEADDR)) s;
     s \<leftarrow> wr info_reuse_port b (c_bool (opts AND SO_REUSEPORT)) s;
     wr info_closed b (0 :: u8) s }"

definition btable_add_binding ::
  "u32 \<Rightarrow> u32 \<Rightarrow> u16 \<Rightarrow> u32 \<Rightarrow> 'a bshm_scheme \<Rightarrow> (int \<times> 'a bshm_scheme) option" where
  "btable_add_binding sk ip port opts s = do {
     (can_bind, s) \<leftarrow> btable_can_bind ip port opts s;
     if \<not> can_bind then Some (-1, s)
     else do {
       s \<leftarrow> (if sock_bind_table s port = NULL then do {
               (l, s) \<leftarrow> list_new s;
               Some (s\<lparr>sock_bind_table := (sock_bind_table s)(port := l)\<rparr>) }
             else Some s);
       (b, s) \<leftarrow> info_malloc s;
       s \<leftarrow> write_info b sk ip opts s;
       (ln, s) \<leftarrow> list_node_new b s;
       (_, s) \<leftarrow> (if ip = INADDR_ANY then list_lpush (sock_bind_table s port) ln s
                  else list_rpush (sock_bind_table s port) ln s);
       Some (0, s) } }"

partial_function (option) del_loop ::
  "ptr \<Rightarrow> u32 \<Rightarrow> u16 \<Rightarrow> 'a bshm_scheme \<Rightarrow> 'a bshm_scheme option" where
  "del_loop it sk port s = do {
     (node, s) \<leftarrow> list_iterator_next it s;
     if node = NULL then Some s
     else do {
       b \<leftarrow> rd node_val node s;
       fd \<leftarrow> rd info_sockfd b s;
       if fd = sk then do {
         b \<leftarrow> rd node_val node s;
         s \<leftarrow> info_mfree b s;
         list_remove (sock_bind_table s port) node s }
       else del_loop it sk port s } }"

definition btable_del_binding :: "u32 \<Rightarrow> u16 \<Rightarrow> 'a bshm_scheme \<Rightarrow> 'a bshm_scheme option" where
  "btable_del_binding sk port s = do {
     (it, s) \<leftarrow> list_iterator_new (sock_bind_table s port) LIST_HEAD s;
     s \<leftarrow> del_loop it sk port s;
     s \<leftarrow> list_iterator_destroy it s;
     len \<leftarrow> rd list_len (sock_bind_table s port) s;
     if len = (0 :: u32) then do {
       s \<leftarrow> list_destroy (sock_bind_table s port) s;
       Some (s\<lparr>sock_bind_table := (sock_bind_table s)(port := NULL)\<rparr>) }
     else Some s }"

definition btable_get_bindings :: "u16 \<Rightarrow> 'a bshm_scheme \<Rightarrow> ptr" where
  "btable_get_bindings port s = sock_bind_table s port"

definition btable_destroy :: "(ptr \<Rightarrow> 'z \<Rightarrow> 'z) \<Rightarrow> 'a bshm_scheme \<Rightarrow> 'z \<Rightarrow> (bool \<times> 'z) option" where
  "btable_destroy zone_free s z = do {
     a \<leftarrow> info_alloc s;
     Some (udpdk_destroy_allocator zone_free a z) }"

subsection \<open>What the table promises\<close>

text \<open>
  Abstractly each port has a sequence of bindings. A new binding is allowed when it may be
  skipped past every binding of the port; wildcard bindings go to the front; a socket's
  binding is the first one with its number.
\<close>

record bind_info =
  bi_sockfd :: u32
  bi_ip :: u32
  bi_reuse_addr :: bool
  bi_reuse_port :: bool
  bi_closed :: bool

definition compatible :: "u32 \<Rightarrow> u32 \<Rightarrow> bind_info \<Rightarrow> bool" where
  "compatible ip opts b = skip_binding ip opts (bi_ip b) (bi_reuse_port b)"

definition new_info :: "u32 \<Rightarrow> u32 \<Rightarrow> u32 \<Rightarrow> bind_info" where
  "new_info sk ip opts =
     \<lparr>bi_sockfd = sk, bi_ip = ip, bi_reuse_addr = (opts AND SO_REUSEADDR \<noteq> 0),
      bi_reuse_port = (opts AND SO_REUSEPORT \<noteq> 0), bi_closed = False\<rparr>"

definition insert_binding :: "bind_info \<Rightarrow> bind_info list \<Rightarrow> bind_info list" where
  "insert_binding b bs = (if bi_ip b = INADDR_ANY then b # bs else bs @ [b])"

fun remove_socket :: "u32 \<Rightarrow> bind_info list \<Rightarrow> bind_info list" where
  "remove_socket sk [] = []"
| "remove_socket sk (b # bs) = (if bi_sockfd b = sk then bs else b # remove_socket sk bs)"

text \<open>Reading a \<open>struct bind_info\<close> from memory.\<close>

definition info_of :: "memory \<Rightarrow> ptr \<Rightarrow> bind_info" where
  "info_of m b =
     \<lparr>bi_sockfd = fld info_sockfd m b, bi_ip = fld info_ip m b,
      bi_reuse_addr = (fld info_reuse_addr m b \<noteq> (0 :: u8)),
      bi_reuse_port = (fld info_reuse_port m b \<noteq> (0 :: u8)),
      bi_closed = (fld info_closed m b \<noteq> (0 :: u8))\<rparr>"

text \<open>The bindings of a port, read from the shared memory: the abstraction function.\<close>

definition port_nodes :: "memory \<Rightarrow> (u16 \<Rightarrow> ptr) \<Rightarrow> u16 \<Rightarrow> ptr list" where
  "port_nodes m tbl p = (if tbl p = NULL then [] else nodes_at m (tbl p))"

definition bindings :: "'a bshm_scheme \<Rightarrow> u16 \<Rightarrow> bind_info list" where
  "bindings s p =
     map (\<lambda>n. info_of (mem s) (fld node_val (mem s) n)) (port_nodes (mem s) (sock_bind_table s) p)"

lemmas [code_defs] = info_malloc_def info_mfree_def write_info_def

end
