(* ===== verification/Bind_Refine.thy ===== *)
theory Bind_Refine
  imports Bind_Table
begin

text \<open>
  The binding table in shared memory implements the abstract one: \<open>bindings\<close> reads, for each
  port, the sequence of bindings; adding and deleting a binding act on it as
  \<open>insert_binding\<close> and \<open>remove_socket\<close> do and on the other ports not at all, and the pools
  hold exactly the objects the table uses.
\<close>

subsection \<open>Footprints of the state\<close>

fun alloc_of :: "'a bshm_scheme \<Rightarrow> obj_kind \<Rightarrow> allocator option" where
  "alloc_of s ListObj = list_alloc s"
| "alloc_of s NodeObj = node_alloc s"
| "alloc_of s IterObj = iter_alloc s"
| "alloc_of s InfoObj = info_alloc s"

definition footprint_of :: "'a bshm_scheme \<Rightarrow> footprint" where
  "footprint_of s K = (case alloc_of s K of None \<Rightarrow> {} | Some a \<Rightarrow> live a)"

text \<open>The same, with the element that each allocator would hand out next.\<close>

definition with_next :: "'a bshm_scheme \<Rightarrow> footprint" where
  "with_next s K = (case alloc_of s K of None \<Rightarrow> {}
     | Some a \<Rightarrow> (if n_free a = 0 then live a else insert (elem_at a (next_free a)) (live a)))"

definition allocs_ok :: "'a bshm_scheme \<Rightarrow> bool" where
  "allocs_ok s \<longleftrightarrow> (\<forall>K. \<exists>a. alloc_of s K = Some a \<and> alloc_inv a)"

definition has_free :: "'a bshm_scheme \<Rightarrow> obj_kind \<Rightarrow> bool" where
  "has_free s K \<longleftrightarrow> (\<exists>a. alloc_of s K = Some a \<and> n_free a \<noteq> 0)"

text \<open>
  \<open>room s\<close>: the live objects and the next elements do not overlap. This is what allocation
  has to guarantee and what depends on the geometry of the pools.
\<close>

definition room :: "'a bshm_scheme \<Rightarrow> bool" where
  "room s \<longleftrightarrow> separated (with_next s)"

lemma footprint_next: "footprint_of s K \<subseteq> with_next s K"
  by (auto simp: footprint_of_def with_next_def split: option.split)

text \<open>
  \<open>iter_room s\<close>: only the next iterator is apart from the live objects. That is enough for the
  operations that open an iterator and allocate nothing else.
\<close>

definition next_iter :: "'a bshm_scheme \<Rightarrow> footprint" where
  "next_iter s K = (if K = IterObj then with_next s K else footprint_of s K)"

definition iter_room :: "'a bshm_scheme \<Rightarrow> bool" where
  "iter_room s \<longleftrightarrow> separated (next_iter s)"

lemma footprint_iter: "footprint_of s K \<subseteq> next_iter s K"
  using footprint_next [of s IterObj] by (simp add: next_iter_def)

lemma room_iter: "room s \<Longrightarrow> iter_room s"
  unfolding room_def iter_room_def
  by (rule separated_mono) (use footprint_next [of s] in \<open>auto simp: next_iter_def\<close>)

lemma room_separated: "room s \<Longrightarrow> separated (footprint_of s)"
  unfolding room_def by (rule separated_mono [OF _ footprint_next])

lemma shmalloc_with_next:
  assumes "alloc_of s K = Some a" "n_free a \<noteq> 0" "udpdk_shmalloc a = (p, a')"
  shows "p \<in> with_next s K"
  using assms shmalloc_ret [of a] by (auto simp: with_next_def)

subsection \<open>Fields under frames\<close>

lemma info_frame:
  "frame F T m m' \<Longrightarrow> b \<in> F InfoObj \<Longrightarrow> (InfoObj, b) \<notin> T \<Longrightarrow> info_of m' b = info_of m b"
  unfolding info_of_def by (subst (1 2 3 4 5) frame_fld [of F T m m' b InfoObj]) auto

lemma val_frame:
  "frame F T m m' \<Longrightarrow> n \<in> F NodeObj \<Longrightarrow> (NodeObj, n) \<notin> T \<Longrightarrow>
    (fld node_val m' n :: ptr) = fld node_val m n"
  by (erule frame_fld) auto

text \<open>The binding a node stands for.\<close>

definition binding_at :: "memory \<Rightarrow> ptr \<Rightarrow> bind_info" where
  "binding_at m n = info_of m (fld node_val m n)"

lemma binding_at_frame:
  assumes "frame F T m m'" "n \<in> F NodeObj" "(NodeObj, n) \<notin> T"
    and "fld node_val m n \<in> F InfoObj" "(InfoObj, fld node_val m n) \<notin> T"
  shows "binding_at m' n = binding_at m n"
  unfolding binding_at_def
  using val_frame [OF assms(1-3)] info_frame [OF assms(1,4,5)] by simp

subsection \<open>Iterating over the bindings of a port\<close>

text \<open>
  The facts a loop body has when it gets a node: the node and its binding can be read, and
  they read as they did before the iterator moved.
\<close>

lemma next_binding:
  assumes "separated F" "pending F (mem s) self LIST_HEAD (y # ys)"
    and "iter_at F (mem s) it LIST_HEAD (y # ys)"
    and "\<And>n. n \<in> set (y # ys) \<Longrightarrow> fld node_val (mem s) n \<in> F InfoObj"
  obtains m' where "list_iterator_next it s = Some (y, s\<lparr>mem := m'\<rparr>)"
    "iter_at F m' it LIST_HEAD ys" "pending F m' self LIST_HEAD ys"
    "frame F {(IterObj, it)} (mem s) m'"
    "y \<noteq> NULL" "y \<in> F NodeObj" "fld node_val m' y \<noteq> NULL"
    "\<And>n. n \<in> set (y # ys) \<Longrightarrow> (fld node_val m' n :: ptr) = fld node_val (mem s) n"
    "\<And>n. n \<in> set (y # ys) \<Longrightarrow> binding_at m' n = binding_at (mem s) n"
proof -
  obtain m' where m': "list_iterator_next it s = Some (y, s\<lparr>mem := m'\<rparr>)"
      "iter_at F m' it LIST_HEAD ys" "pending F m' self LIST_HEAD ys"
      "frame F {(IterObj, it)} (mem s) m'"
    using list_iterator_next_step [OF assms(1-3)] by blast
  have inF: "n \<in> F NodeObj" if "n \<in> set (y # ys)" for n
    using assms(2) that by (auto simp: pending_def dlist_def)
  have val: "(fld node_val m' n :: ptr) = fld node_val (mem s) n" if "n \<in> set (y # ys)" for n
    using val_frame [OF m'(4) inF [OF that]] by simp
  have bind: "binding_at m' n = binding_at (mem s) n" if "n \<in> set (y # ys)" for n
    using binding_at_frame [OF m'(4) inF [OF that]] assms(4) [OF that] by simp
  have "y \<in> F NodeObj" "y \<noteq> NULL" "fld node_val m' y \<noteq> NULL"
    using inF [of y] separated_nonnull [OF assms(1), of y NodeObj] val [of y]
      separated_nonnull [OF assms(1) assms(4), of y] by auto
  with m' val bind that show ?thesis by blast
qed

lemma can_bind_loop_refine:
  assumes "separated F" "pending F (mem s) self LIST_HEAD ys" "iter_at F (mem s) it LIST_HEAD ys"
    and "\<And>n. n \<in> set ys \<Longrightarrow> fld node_val (mem s) n \<in> F InfoObj"
  shows "\<exists>m'. can_bind_loop it ip opts s =
      Some (list_all (compatible ip opts) (map (binding_at (mem s)) ys), s\<lparr>mem := m'\<rparr>) \<and>
    frame F {(IterObj, it)} (mem s) m'"
  using assms(2-4)
proof (induction ys arbitrary: s)
  case Nil
  show ?case
    using list_iterator_next_end [OF assms(1) Nil.prems(2)]
    by (subst can_bind_loop.simps) (auto intro!: exI [of _ "mem s"] frame_refl)
next
  case (Cons y ys)
  obtain m1 where m1: "list_iterator_next it s = Some (y, s\<lparr>mem := m1\<rparr>)"
      "iter_at F m1 it LIST_HEAD ys" "pending F m1 self LIST_HEAD ys"
      "frame F {(IterObj, it)} (mem s) m1"
      "y \<noteq> NULL" "y \<in> F NodeObj" "fld node_val m1 y \<noteq> NULL"
      "\<And>n. n \<in> set (y # ys) \<Longrightarrow> (fld node_val m1 n :: ptr) = fld node_val (mem s) n"
      "\<And>n. n \<in> set (y # ys) \<Longrightarrow> binding_at m1 n = binding_at (mem s) n"
    by (rule next_binding [OF assms(1) Cons.prems]) auto
  let ?s = "s\<lparr>mem := m1\<rparr>"
  have run: "can_bind_loop it ip opts s =
      (if compatible ip opts (binding_at (mem s) y) then can_bind_loop it ip opts ?s
       else Some (False, ?s))"
    using m1(1,5,7) m1(9) [of y]
    by (subst can_bind_loop.simps) (simp add: code_defs compatible_def binding_at_def info_of_def)
  show ?case
  proof (cases "compatible ip opts (binding_at (mem s) y)")
    case False
    then show ?thesis using run m1(4) by auto
  next
    case True
    obtain m' where m': "can_bind_loop it ip opts ?s =
          Some (list_all (compatible ip opts) (map (binding_at m1) ys), ?s\<lparr>mem := m'\<rparr>)"
        "frame F {(IterObj, it)} m1 m'"
      using Cons.IH [of ?s] m1(2,3,8) Cons.prems(3) by auto
    moreover have "map (binding_at m1) ys = map (binding_at (mem s)) ys"
      using m1(9) by simp
    ultimately show ?thesis
      using True run frame_trans [OF m1(4) m'(2)] by auto
  qed
qed

subsection \<open>The invariant of the table\<close>

text \<open>
  \<open>table_rel F m tbl ns\<close>: the port \<open>p\<close> has the nodes \<open>ns p\<close>; the lists, the nodes and the
  bindings are exactly the objects of \<open>F\<close> (no leak, no sharing), and no iterator is in use.
\<close>

definition table_rel :: "footprint \<Rightarrow> memory \<Rightarrow> (u16 \<Rightarrow> ptr) \<Rightarrow> (u16 \<Rightarrow> ptr list) \<Rightarrow> bool" where
  "table_rel F m tbl ns \<longleftrightarrow>
     separated F \<and> F IterObj = {} \<and>
     (\<forall>p. if tbl p = NULL then ns p = [] else ns p \<noteq> [] \<and> dlist F m (tbl p) (ns p)) \<and>
     inj_on tbl {p. tbl p \<noteq> NULL} \<and>
     F ListObj = tbl ` {p. tbl p \<noteq> NULL} \<and>
     (\<forall>p q. p \<noteq> q \<longrightarrow> set (ns p) \<inter> set (ns q) = {}) \<and>
     F NodeObj = (\<Union>p. set (ns p)) \<and>
     inj_on (\<lambda>n. fld node_val m n :: ptr) (F NodeObj) \<and>
     F InfoObj = (\<lambda>n. fld node_val m n) ` F NodeObj"

lemma table_relD:
  assumes "table_rel F m tbl ns"
  shows "separated F" "F IterObj = {}"
    and "\<forall>p. if tbl p = NULL then ns p = [] else ns p \<noteq> [] \<and> dlist F m (tbl p) (ns p)"
    and "inj_on tbl {p. tbl p \<noteq> NULL}" "F ListObj = tbl ` {p. tbl p \<noteq> NULL}"
    and "\<forall>p q. p \<noteq> q \<longrightarrow> set (ns p) \<inter> set (ns q) = {}"
    and "F NodeObj = (\<Union>p. set (ns p))"
    and "inj_on (\<lambda>n. fld node_val m n :: ptr) (F NodeObj)"
    and "F InfoObj = (\<lambda>n. fld node_val m n) ` F NodeObj"
  using assms unfolding table_rel_def by - (elim conjE, assumption)+

lemma table_relI:
  assumes "separated F" "F IterObj = {}"
    and "\<And>p. if tbl p = NULL then ns p = [] else ns p \<noteq> [] \<and> dlist F m (tbl p) (ns p)"
    and "inj_on tbl {p. tbl p \<noteq> NULL}" "F ListObj = tbl ` {p. tbl p \<noteq> NULL}"
    and "\<And>p q. p \<noteq> q \<Longrightarrow> set (ns p) \<inter> set (ns q) = {}"
    and "F NodeObj = (\<Union>p. set (ns p))"
    and "inj_on (\<lambda>n. fld node_val m n :: ptr) (F NodeObj)"
    and "F InfoObj = (\<lambda>n. fld node_val m n) ` F NodeObj"
  shows "table_rel F m tbl ns"
  unfolding table_rel_def using assms by (intro conjI) simp_all

definition table_inv :: "'a bshm_scheme \<Rightarrow> bool" where
  "table_inv s \<longleftrightarrow> allocs_ok s \<and>
     table_rel (footprint_of s) (mem s) (sock_bind_table s) (port_nodes (mem s) (sock_bind_table s))"

lemma table_rel_nodes: "table_rel F m tbl ns \<Longrightarrow> port_nodes m tbl = ns"
  by (rule ext) (auto simp: table_rel_def port_nodes_def nodes_at_dlist split: if_splits)

lemma table_invI: "allocs_ok s \<Longrightarrow> table_rel (footprint_of s) (mem s) (sock_bind_table s) ns \<Longrightarrow> table_inv s"
  using table_rel_nodes by (fastforce simp: table_inv_def)

lemma bindings_eq: "table_rel F (mem s) (sock_bind_table s) ns \<Longrightarrow>
    bindings s p = map (binding_at (mem s)) (ns p)"
  by (auto simp: bindings_def binding_at_def dest: table_rel_nodes)

lemma table_rel_dlist: "table_rel F m tbl ns \<Longrightarrow> tbl p \<noteq> NULL \<Longrightarrow> dlist F m (tbl p) (ns p)"
  using table_relD(3) by metis

lemma table_rel_nonempty: "table_rel F m tbl ns \<Longrightarrow> ns p = [] \<longleftrightarrow> tbl p = NULL"
  using table_relD(3) by metis

lemma table_rel_node: "table_rel F m tbl ns \<Longrightarrow> n \<in> set (ns p) \<Longrightarrow> n \<in> F NodeObj"
  using table_relD(7) [of F m tbl ns] by auto

lemma table_rel_val: "table_rel F m tbl ns \<Longrightarrow> n \<in> F NodeObj \<Longrightarrow> fld node_val m n \<in> F InfoObj"
  using table_relD(9) [of F m tbl ns] by (auto simp del: table_relD)

lemma table_rel_list: "table_rel F m tbl ns \<Longrightarrow> tbl p \<noteq> NULL \<Longrightarrow> tbl p \<in> F ListObj"
  by (rule dlist_in(1) [OF table_rel_dlist])

lemma table_rel_other_list:
  "table_rel F m tbl ns \<Longrightarrow> p \<noteq> q \<Longrightarrow> tbl p \<noteq> NULL \<Longrightarrow> tbl q \<noteq> tbl p"
  using inj_onD [OF table_relD(4), of F m tbl ns q p] by auto

text \<open>Objects that a frame does not touch are related as before.\<close>

lemma table_rel_frame:
  assumes "table_rel F m tbl ns" "frame F {} m m'"
  shows "table_rel F m' tbl ns" and "n \<in> F NodeObj \<Longrightarrow> binding_at m' n = binding_at m n"
proof -
  have val: "(fld node_val m' n :: ptr) = fld node_val m n" if "n \<in> F NodeObj" for n
    using val_frame [OF assms(2) that] by simp
  have d: "dlist F m' (tbl p) (ns p)" if "tbl p \<noteq> NULL" for p
    by (rule dlist_frame [OF table_rel_dlist [OF assms(1) that] assms(2)]) auto
  note D = table_relD [OF assms(1)]
  show "table_rel F m' tbl ns"
  proof (rule table_relI [OF D(1,2) _ D(4,5) _ D(7)])
    show "inj_on (\<lambda>n. fld node_val m' n :: ptr) (F NodeObj)"
      using D(8) by (simp add: inj_on_def val)
    show "F InfoObj = (\<lambda>n. fld node_val m' n) ` F NodeObj"
      unfolding D(9) by (rule image_cong [OF refl]) (simp add: val)
  qed (use D(3,6) d in metis)+
  show "n \<in> F NodeObj \<Longrightarrow> binding_at m' n = binding_at m n"
    using binding_at_frame [OF assms(2)] table_rel_val [OF assms(1)] by simp
qed

text \<open>Adding a node to the list of a port.\<close>

definition add_objs :: "footprint \<Rightarrow> ptr \<Rightarrow> ptr \<Rightarrow> ptr \<Rightarrow> footprint" where
  "add_objs F l n b =
     F(ListObj := insert l (F ListObj), NodeObj := insert n (F NodeObj),
       InfoObj := insert b (F InfoObj))"

lemma add_objs_simps [simp]:
  "add_objs F l n b ListObj = insert l (F ListObj)"
  "add_objs F l n b NodeObj = insert n (F NodeObj)"
  "add_objs F l n b InfoObj = insert b (F InfoObj)"
  "add_objs F l n b IterObj = F IterObj"
  by (simp_all add: add_objs_def)

lemma add_objs_sub: "F K \<subseteq> add_objs F l n b K"
  by (cases K) auto

text \<open>Changing the list of one port: the other ports keep theirs.\<close>

lemma lists_update:
  assumes rel: "table_rel F m tbl ns"
    and port: "if l = NULL then ps = [] else ps \<noteq> [] \<and> dlist F' m' l ps"
    and other: "\<And>q. q \<noteq> port \<Longrightarrow> tbl q \<noteq> NULL \<Longrightarrow> dlist F' m' (tbl q) (ns q)"
  shows "if (tbl(port := l)) q = NULL then (ns(port := ps)) q = []
    else (ns(port := ps)) q \<noteq> [] \<and> dlist F' m' ((tbl(port := l)) q) ((ns(port := ps)) q)"
  using port other [of q] table_rel_nonempty [OF rel, of q] by auto

lemma dlist_other:
  assumes rel: "table_rel F m tbl ns" and q: "q \<noteq> port" "tbl q \<noteq> NULL" "tbl q \<noteq> l"
    and fr: "frame F (touched l X) m m'" and X: "X \<subseteq> set (ns port)"
  shows "dlist F m' (tbl q) (ns q)"
  using table_relD(6) [OF rel] q(1,3) X
  by (intro dlist_frame [OF table_rel_dlist [OF rel q(2)] fr]) auto

lemma table_rel_add:
  assumes rel: "table_rel F m tbl ns" and sep: "separated (add_objs F l n b)"
    and l: "if tbl port = NULL then l \<notin> F ListObj else l = tbl port"
    and fresh: "n \<notin> F NodeObj" "b \<notin> F InfoObj"
    and new: "dlist (add_objs F l n b) m' l ps" "set ps = insert n (set (ns port))"
    and val: "fld node_val m' n = b" "\<And>x. x \<in> F NodeObj \<Longrightarrow> (fld node_val m' x :: ptr) = fld node_val m x"
    and fr: "frame F (touched l (set (ns port))) m m'"
  shows "table_rel (add_objs F l n b) m' (tbl(port := l)) (ns(port := ps))"
    and "x \<in> F NodeObj \<Longrightarrow> binding_at m' x = binding_at m x"
proof -
  let ?F = "add_objs F l n b" and ?tbl = "tbl(port := l)" and ?ns = "ns(port := ps)"
  have lnn: "l \<noteq> NULL" using separated_nonnull [OF sep, of l ListObj] by simp
  have l': "tbl q \<noteq> l" if "q \<noteq> port" "tbl q \<noteq> NULL" for q
    using l table_rel_list [OF rel that(2)] table_rel_other_list [OF rel that] by (auto split: if_splits)
  note D = table_relD [OF rel]
  have lists: "if ?tbl q = NULL then ?ns q = [] else ?ns q \<noteq> [] \<and> dlist ?F m' (?tbl q) (?ns q)" for q
  proof (rule lists_update [OF rel])
    show "dlist ?F m' (tbl q) (ns q)" if "q \<noteq> port" "tbl q \<noteq> NULL" for q
      by (rule dlist_mono, rule dlist_other [OF rel that l' [OF that] fr], simp, rule add_objs_sub)
    show "if l = NULL then ps = [] else ps \<noteq> [] \<and> dlist ?F m' l ps" using lnn new by auto
  qed
  have vin: "fld node_val m x \<noteq> b" if "x \<in> F NodeObj" for x
    using fresh(2) table_rel_val [OF rel that] by auto
  show "table_rel ?F m' ?tbl ?ns"
  proof (rule table_relI [OF sep _ lists])
    show "?F IterObj = {}" using D(2) by simp
    show "inj_on ?tbl {p. ?tbl p \<noteq> NULL}"
      using D(4) l' lnn by (auto simp: inj_on_def split: if_splits)
    show "?F ListObj = ?tbl ` {p. ?tbl p \<noteq> NULL}"
      unfolding add_objs_simps D(5) using l lnn by (auto split: if_splits)
    show "set (?ns p) \<inter> set (?ns q) = {}" if "p \<noteq> q" for p q
      using D(6) that new(2) fresh(1) table_rel_node [OF rel] by auto
    show "?F NodeObj = (\<Union>p. set (?ns p))"
      unfolding add_objs_simps D(7) using new(2) by (auto split: if_splits)
    show "inj_on (\<lambda>n. fld node_val m' n :: ptr) (?F NodeObj)"
    proof -
      have "inj_on (\<lambda>n. fld node_val m' n :: ptr) (F NodeObj)"
        using D(8) by (simp add: inj_on_def val)
      moreover have "b \<notin> (\<lambda>n. fld node_val m' n) ` F NodeObj"
        using vin val(2) by auto
      ultimately show ?thesis using fresh(1) by (simp add: val(1))
    qed
    show "?F InfoObj = (\<lambda>n. fld node_val m' n) ` ?F NodeObj"
      unfolding add_objs_simps D(9) using val by (auto simp: image_iff)
  qed
  assume x: "x \<in> F NodeObj"
  show "binding_at m' x = binding_at m x"
    using val(2) [OF x] info_frame [OF fr table_rel_val [OF rel x]] by (simp add: binding_at_def)
qed

subsection \<open>A walk over the bindings changes nothing but the iterator\<close>

text \<open>The pools are where they were, and so is the state that callers add to the record.\<close>

definition same_pools :: "'a bshm_scheme \<Rightarrow> 'a bshm_scheme \<Rightarrow> bool" where
  "same_pools s s' \<longleftrightarrow> bshm.more s' = bshm.more s \<and>
     (\<forall>K. rel_option same_pool (alloc_of s K) (alloc_of s' K))"

lemma same_poolsI:
  "bshm.more s' = bshm.more s \<Longrightarrow> (\<And>K. rel_option same_pool (alloc_of s K) (alloc_of s' K)) \<Longrightarrow> same_pools s s'"
  by (simp add: same_pools_def)

lemma same_pools_refl [simp]: "same_pools s s"
  by (auto simp: same_pools_def rel_option_reflI)

lemma same_pools_more: "same_pools s s' \<Longrightarrow> bshm.more s' = bshm.more s"
  by (simp add: same_pools_def)

lemma same_pools_trans: "same_pools s t \<Longrightarrow> same_pools t u \<Longrightarrow> same_pools s u"
proof -
  have tr: "rel_option same_pool x z" if "rel_option same_pool x y" "rel_option same_pool y z" for x y z
    using that by (cases x; cases y; cases z) (auto intro: same_pool_trans)
  show "same_pools s t \<Longrightarrow> same_pools t u \<Longrightarrow> same_pools s u"
    unfolding same_pools_def using tr by metis
qed

text \<open>\<open>iter_step s s'\<close>: an iterator was taken, used and given back.\<close>

definition iter_step :: "'a bshm_scheme \<Rightarrow> 'a bshm_scheme \<Rightarrow> bool" where
  "iter_step s s' \<longleftrightarrow>
     (\<exists>m a. s' = s\<lparr>mem := m, iter_alloc := Some a\<rparr>) \<and> table_inv s' \<and>
     bindings s' = bindings s \<and> footprint_of s' = footprint_of s \<and> same_pools s s'"

lemma iter_step_alloc: "iter_step s s' \<Longrightarrow> K \<noteq> IterObj \<Longrightarrow> alloc_of s' K = alloc_of s K"
  by (cases K) (auto simp: iter_step_def)

lemma iter_step_tbl: "iter_step s s' \<Longrightarrow> sock_bind_table s' = sock_bind_table s"
  by (auto simp: iter_step_def)

lemma table_inv_rel:
  "table_inv s \<Longrightarrow>
    table_rel (footprint_of s) (mem s) (sock_bind_table s) (port_nodes (mem s) (sock_bind_table s))"
  by (simp add: table_inv_def)

lemma table_inv_alloc: "table_inv s \<Longrightarrow> \<exists>a. alloc_of s K = Some a \<and> alloc_inv a"
  by (simp add: table_inv_def allocs_ok_def)

lemma iter_step_refl:
  assumes "table_inv s"
  shows "iter_step s s"
proof -
  obtain a where "iter_alloc s = Some a"
    using table_inv_alloc [OF assms, of IterObj] by auto
  then have "s = s\<lparr>mem := mem s, iter_alloc := Some a\<rparr>"
    by (simp add: \<open>iter_alloc s = Some a\<close> [symmetric])
  then have "\<exists>m a. s = s\<lparr>mem := m, iter_alloc := Some a\<rparr>" by blast
  with assms show ?thesis unfolding iter_step_def by simp
qed

text \<open>The iterator's pool after it handed out an element and took it back.\<close>

lemma iter_cycle:
  assumes inv: "table_inv s" and a: "iter_alloc s = Some a" "n_free a \<noteq> 0" "udpdk_shmalloc a = (it, a')"
  shows "alloc_inv (udpdk_shfree a' it)" "live (udpdk_shfree a' it) = {}"
    "same_pool a (udpdk_shfree a' it)"
proof -
  have ai: "alloc_inv a" using table_inv_alloc [OF inv, of IterObj] a(1) by simp
  have live: "live a = {}"
    using table_relD(2) [OF table_inv_rel [OF inv]] a(1) by (simp add: footprint_of_def)
  have a': "alloc_inv a'" "live a' = {it}" "same_pool a a'"
    using shmalloc_inv [OF ai] live_shmalloc [OF ai a(2)] shmalloc_same_pool [of a]
    unfolding a(3) live by simp_all
  show "alloc_inv (udpdk_shfree a' it)" "live (udpdk_shfree a' it) = {}"
      "same_pool a (udpdk_shfree a' it)"
    using shfree_inv [OF a'(1)] live_shfree [OF a'(1)] a'(2) same_pool_trans [OF a'(3) shfree_same_pool]
    by auto
qed

lemma iter_stepI:
  assumes inv: "table_inv s" and al: "iter_alloc s = Some a" "udpdk_shmalloc a = (it, a')" "n_free a \<noteq> 0"
    and fr: "frame (next_iter s) {(IterObj, it)} (mem s) m'"
  shows "iter_step s (s\<lparr>mem := m', iter_alloc := Some (udpdk_shfree a' it)\<rparr>)" (is "iter_step s ?s")
proof -
  note rel = table_inv_rel [OF inv]
  have live: "live a = {}"
    using table_relD(2) [OF rel] al(1) by (simp add: footprint_of_def)
  note a'' = iter_cycle [OF inv al(1,3,2)]
  have fp: "footprint_of ?s = footprint_of s"
  proof
    show "footprint_of ?s K = footprint_of s K" for K
      using al(1) live a''(2) by (cases K) (simp_all add: footprint_of_def)
  qed
  have "frame (footprint_of s) {} (mem s) m'"
    using fr footprint_iter table_relD(2) [OF rel] by (rule_tac frame_mono) auto
  note rel' = table_rel_frame [OF rel this]
  have "allocs_ok ?s"
    unfolding allocs_ok_def
  proof
    show "\<exists>a. alloc_of ?s K = Some a \<and> alloc_inv a" for K
      using table_inv_alloc [OF inv, of K] a''(1) by (cases K) auto
  qed
  moreover have "table_rel (footprint_of ?s) (mem ?s) (sock_bind_table ?s)
      (port_nodes (mem s) (sock_bind_table s))"
    using rel'(1) fp by simp
  ultimately have inv': "table_inv ?s" by (rule table_invI)
  have "bindings ?s = bindings s"
  proof
    show "bindings ?s p = bindings s p" for p
      using bindings_eq [OF table_inv_rel [OF inv], of p] bindings_eq [of "footprint_of s" ?s _ p] rel'
        table_rel_node [OF rel, of _ p] by auto
  qed
  moreover have "same_pools s ?s"
  proof (rule same_poolsI)
    show "rel_option same_pool (alloc_of s K) (alloc_of ?s K)" for K
      using al(1) a''(3) by (cases K) (auto simp: rel_option_reflI)
  qed simp
  ultimately show ?thesis
    unfolding iter_step_def using inv' fp by blast
qed

text \<open>A fresh iterator on the list of a port.\<close>

lemma open_iter_in:
  assumes inv: "table_inv s" and nn: "sock_bind_table s port \<noteq> NULL"
    and a: "iter_alloc s = Some a" "udpdk_shmalloc a = (it, a')"
    and sep: "separated F" and G: "\<And>K. footprint_of s K \<subseteq> F K" and itF: "it \<in> F IterObj"
  obtains m1 where "list_iterator_new (sock_bind_table s port) LIST_HEAD s =
      Some (it, s\<lparr>mem := m1, iter_alloc := Some a'\<rparr>)"
    "iter_at F m1 it LIST_HEAD (port_nodes (mem s) (sock_bind_table s) port)"
    "frame F {(IterObj, it)} (mem s) m1"
    "dlist F m1 (sock_bind_table s port) (port_nodes (mem s) (sock_bind_table s) port)"
    "\<forall>n \<in> footprint_of s NodeObj. n \<in> F NodeObj \<and> (fld node_val m1 n :: ptr) = fld node_val (mem s) n \<and>
      fld node_val m1 n \<in> F InfoObj \<and> binding_at m1 n = binding_at (mem s) n"
proof -
  let ?ns = "port_nodes (mem s) (sock_bind_table s) port"
  note rel = table_inv_rel [OF inv]
  have d: "dlist F (mem s) (sock_bind_table s port) ?ns"
    by (rule dlist_mono [OF table_rel_dlist [OF rel nn] G])
  obtain m1 where m1: "list_iterator_new (sock_bind_table s port) LIST_HEAD s =
        Some (it, s\<lparr>mem := m1, iter_alloc := Some a'\<rparr>)"
      "iter_at F m1 it LIST_HEAD ?ns" "frame F {(IterObj, it)} (mem s) m1"
    using list_iterator_new_refine [OF a sep itF d, of LIST_HEAD] by auto
  have "n \<in> F NodeObj \<and> (fld node_val m1 n :: ptr) = fld node_val (mem s) n \<and>
      fld node_val m1 n \<in> F InfoObj \<and> binding_at m1 n = binding_at (mem s) n"
    if n: "n \<in> footprint_of s NodeObj" for n
  proof -
    have nF: "n \<in> F NodeObj" and bF: "fld node_val (mem s) n \<in> F InfoObj"
      using n table_rel_val [OF rel n] G by blast+
    show ?thesis using nF bF val_frame [OF m1(3) nF] binding_at_frame [OF m1(3) nF _ bF] by simp
  qed
  then show ?thesis using that [OF m1 dlist_iter_frame [OF d m1(3)]] by blast
qed

lemma open_iter:
  assumes inv: "table_inv s" and rm: "iter_room s" and nn: "sock_bind_table s port \<noteq> NULL"
    and a: "iter_alloc s = Some a" "n_free a \<noteq> 0" and it: "udpdk_shmalloc a = (it, a')"
  obtains m1 where "list_iterator_new (sock_bind_table s port) LIST_HEAD s =
      Some (it, s\<lparr>mem := m1, iter_alloc := Some a'\<rparr>)"
    "iter_at (next_iter s) m1 it LIST_HEAD (port_nodes (mem s) (sock_bind_table s) port)"
    "frame (next_iter s) {(IterObj, it)} (mem s) m1"
    "dlist (next_iter s) m1 (sock_bind_table s port) (port_nodes (mem s) (sock_bind_table s) port)"
    "\<And>n. n \<in> next_iter s NodeObj \<Longrightarrow> (fld node_val m1 n :: ptr) = fld node_val (mem s) n"
    "\<And>n. n \<in> set (port_nodes (mem s) (sock_bind_table s) port) \<Longrightarrow> n \<in> next_iter s NodeObj"
    "\<And>n. n \<in> set (port_nodes (mem s) (sock_bind_table s) port) \<Longrightarrow>
      fld node_val m1 n \<in> next_iter s InfoObj"
    "\<And>n. n \<in> set (port_nodes (mem s) (sock_bind_table s) port) \<Longrightarrow>
      binding_at m1 n = binding_at (mem s) n"
proof -
  note rel = table_inv_rel [OF inv]
  have itF: "it \<in> next_iter s IterObj"
    using shmalloc_with_next [OF _ a(2) it, of s IterObj] a(1) by (simp add: next_iter_def)
  have sep: "separated (next_iter s)" using rm by (simp add: iter_room_def)
  obtain m1 where m1: "list_iterator_new (sock_bind_table s port) LIST_HEAD s =
        Some (it, s\<lparr>mem := m1, iter_alloc := Some a'\<rparr>)"
      "iter_at (next_iter s) m1 it LIST_HEAD (port_nodes (mem s) (sock_bind_table s) port)"
      "frame (next_iter s) {(IterObj, it)} (mem s) m1"
      "dlist (next_iter s) m1 (sock_bind_table s port) (port_nodes (mem s) (sock_bind_table s) port)"
      "\<forall>n \<in> footprint_of s NodeObj. n \<in> next_iter s NodeObj \<and> (fld node_val m1 n :: ptr) = fld node_val (mem s) n \<and>
        fld node_val m1 n \<in> next_iter s InfoObj \<and> binding_at m1 n = binding_at (mem s) n"
    by (rule open_iter_in [OF inv nn a(1) it sep footprint_iter itF])
  have v: "(fld node_val m1 n :: ptr) = fld node_val (mem s) n" if "n \<in> next_iter s NodeObj" for n
    using val_frame [OF m1(3) that] by simp
  show ?thesis
    using that [OF m1(1-4) v] m1(5) table_rel_node [OF rel, of _ port] by blast
qed

lemma btable_can_bind_run:
  assumes sep: "separated F" and a: "iter_alloc s = Some a" "udpdk_shmalloc a = (it, a')" "it \<in> F IterObj"
    and d: "dlist F (mem s) (sock_bind_table s port) ns"
    and val: "\<And>x. x \<in> set ns \<Longrightarrow> fld node_val (mem s) x \<in> F InfoObj"
  obtains m' where "btable_can_bind ip port opts s =
      Some (list_all (compatible ip opts) (map (binding_at (mem s)) ns), s\<lparr>mem := m', iter_alloc := Some (udpdk_shfree a' it)\<rparr>)"
    "frame F {(IterObj, it)} (mem s) m'"
proof -
  let ?l = "sock_bind_table s port"
  obtain m1 where m1: "list_iterator_new ?l LIST_HEAD s = Some (it, s\<lparr>mem := m1, iter_alloc := Some a'\<rparr>)"
      "iter_at F m1 it LIST_HEAD ns" "frame F {(IterObj, it)} (mem s) m1"
    using list_iterator_new_refine [OF a(1,2) sep a(3) d, of LIST_HEAD] by auto
  let ?s1 = "s\<lparr>mem := m1, iter_alloc := Some a'\<rparr>"
  have v1: "(fld node_val m1 x :: ptr) = fld node_val (mem s) x \<and> binding_at m1 x = binding_at (mem s) x"
    if "x \<in> set ns" for x
    using val_frame [OF m1(3) dlist_in(2) [OF d that]] binding_at_frame [OF m1(3) dlist_in(2) [OF d that] _ val [OF that]]
    by simp
  have pend: "pending F (mem ?s1) ?l LIST_HEAD ns"
    using pending_new [OF dlist_iter_frame [OF d m1(3)], of LIST_HEAD] by simp
  have bs: "map (binding_at m1) ns = map (binding_at (mem s)) ns" using v1 by simp
  obtain m2 where m2: "can_bind_loop it ip opts ?s1 =
        Some (list_all (compatible ip opts) (map (binding_at m1) ns), ?s1\<lparr>mem := m2\<rparr>)" "frame F {(IterObj, it)} m1 m2"
    using can_bind_loop_refine [OF sep pend, of it ip opts] m1(2) v1 val by auto
  have "?l \<noteq> NULL" using separated_nonnull [OF sep dlist_in(1) [OF d]] .
  then show ?thesis
    using that [OF _ frame_trans [OF m1(3) m2(2)]] m1(1) m2(1) bs by (simp add: btable_can_bind_def code_defs)
qed

lemma btable_can_bind_refine:
  assumes inv: "table_inv s" and rm: "iter_room s" and free: "has_free s IterObj"
  shows "\<exists>s'. btable_can_bind ip port opts s = Some (list_all (compatible ip opts) (bindings s port), s') \<and>
    iter_step s s'"
proof (cases "sock_bind_table s port = NULL")
  case True
  then show ?thesis
    using iter_step_refl [OF inv] by (auto simp: btable_can_bind_def bindings_def port_nodes_def)
next
  case False
  note rel = table_inv_rel [OF inv]
  from free obtain a where a: "iter_alloc s = Some a" "n_free a \<noteq> 0"
    by (auto simp: has_free_def)
  obtain it a' where it: "udpdk_shmalloc a = (it, a')" by (cases "udpdk_shmalloc a")
  have itF: "it \<in> next_iter s IterObj"
    using shmalloc_with_next [OF _ a(2) it, of s IterObj] a(1) by (simp add: next_iter_def)
  have sep: "separated (next_iter s)" using rm by (simp add: iter_room_def)
  have d: "dlist (next_iter s) (mem s) (sock_bind_table s port) (port_nodes (mem s) (sock_bind_table s) port)"
    by (rule dlist_mono [OF table_rel_dlist [OF rel False] footprint_iter])
  have val: "fld node_val (mem s) x \<in> next_iter s InfoObj" if "x \<in> set (port_nodes (mem s) (sock_bind_table s) port)" for x
    using table_rel_val [OF rel table_rel_node [OF rel that]] footprint_iter by blast
  obtain m' where "btable_can_bind ip port opts s = Some (list_all (compatible ip opts)
        (map (binding_at (mem s)) (port_nodes (mem s) (sock_bind_table s) port)), s\<lparr>mem := m', iter_alloc := Some (udpdk_shfree a' it)\<rparr>)"
      "frame (next_iter s) {(IterObj, it)} (mem s) m'"
    by (rule btable_can_bind_run [OF sep a(1) it itF d val])
  then show ?thesis
    using iter_stepI [OF inv a(1) it a(2)] by (auto simp: bindings_eq [OF rel])
qed

subsection \<open>Adding a binding\<close>

lemma c_bool_nonzero [simp]: "c_bool x \<noteq> 0 \<longleftrightarrow> x \<noteq> 0" "c_bool x = 0 \<longleftrightarrow> x = 0"
  by (simp_all add: c_bool_def)

lemma write_info_refine:
  assumes "separated F" "b \<in> F InfoObj"
  shows "\<exists>m'. write_info b sk ip opts s = Some (s\<lparr>mem := m'\<rparr>) \<and>
    info_of m' b = new_info sk ip opts \<and> frame F {(InfoObj, b)} (mem s) m'"
proof -
  have nn: "b \<noteq> NULL" using assms by (rule separated_nonnull)
  let ?m = "upd info_closed (upd info_reuse_port (upd info_reuse_addr (upd info_ip (upd info_sockfd
     (mem s) b sk) b ip) b (c_bool (opts AND SO_REUSEADDR))) b (c_bool (opts AND SO_REUSEPORT)))
     b (0 :: u8)"
  have "write_info b sk ip opts s = Some (s\<lparr>mem := ?m\<rparr>)"
    using nn by (simp add: code_defs)
  moreover have "info_of ?m b = new_info sk ip opts"
    using assms by (simp add: info_of_def new_info_def mem_simps)
  moreover have "frame F {(InfoObj, b)} (mem s) ?m"
    using assms by (intro frame_intros) auto
  ultimately show ?thesis by blast
qed

text \<open>The list of the port: the one there is, or a new empty one.\<close>

lemma add_list_refine:
  assumes rel: "table_rel F (mem s) (sock_bind_table s) ns"
    and al: "list_alloc s = Some la" "udpdk_shmalloc la = (l, la')"
    and L: "L = (if sock_bind_table s port = NULL then l else sock_bind_table s port)"
    and sep: "separated F'" "\<And>K. F K \<subseteq> F' K" "L \<in> F' ListObj" "l \<notin> F ListObj"
  shows "\<exists>m'. (if sock_bind_table s port = NULL then do {
               (l, s) \<leftarrow> list_new s;
               Some (s\<lparr>sock_bind_table := (sock_bind_table s)(port := l)\<rparr>) }
             else Some s) = Some (s\<lparr>mem := m',
      list_alloc := Some (if sock_bind_table s port = NULL then la' else la),
      sock_bind_table := (sock_bind_table s)(port := L)\<rparr>) \<and>
    dlist F' m' L (ns port) \<and> frame F {} (mem s) m'"
proof (cases "sock_bind_table s port = NULL")
  case True
  obtain m' where m': "list_new s = Some (l, s\<lparr>mem := m', list_alloc := Some la'\<rparr>)"
      "dlist F' m' l []" "frame F' {(ListObj, l)} (mem s) m'"
    using list_new_refine [OF al sep(1)] sep(3) L True by auto
  have "frame F {} (mem s) m'"
    using m'(3) sep(2,4) by (rule_tac frame_mono) auto
  moreover have "ns port = []" using table_rel_nonempty [OF rel] True by simp
  ultimately show ?thesis using m'(1,2) True L by auto
next
  case False
  have "dlist F' (mem s) L (ns port)"
    using dlist_mono [OF table_rel_dlist [OF rel False] sep(2)] L False by simp
  moreover have "s = s\<lparr>mem := mem s, list_alloc := Some la, sock_bind_table := (sock_bind_table s)(port := L)\<rparr>"
    using L False by (simp add: al(1) [symmetric])
  ultimately show ?thesis
    using False frame_refl by (intro exI [of _ "mem s"]) (simp add: al(1) [symmetric])
qed

text \<open>The straight-line part of \<open>btable_add_binding\<close>, after the check.\<close>

definition add_new ::
  "u32 \<Rightarrow> u32 \<Rightarrow> u16 \<Rightarrow> u32 \<Rightarrow> 'a bshm_scheme \<Rightarrow> (int \<times> 'a bshm_scheme) option" where
  "add_new sk ip port opts s = do {
     (b, s) \<leftarrow> info_malloc s;
     s \<leftarrow> write_info b sk ip opts s;
     (ln, s) \<leftarrow> list_node_new b s;
     (_, s) \<leftarrow> (if ip = INADDR_ANY then list_lpush (sock_bind_table s port) ln s
                else list_rpush (sock_bind_table s port) ln s);
     Some (0, s) }"

definition add_rest ::
  "u32 \<Rightarrow> u32 \<Rightarrow> u16 \<Rightarrow> u32 \<Rightarrow> 'a bshm_scheme \<Rightarrow> (int \<times> 'a bshm_scheme) option" where
  "add_rest sk ip port opts s = do {
     s \<leftarrow> (if sock_bind_table s port = NULL then do {
             (l, s) \<leftarrow> list_new s;
             Some (s\<lparr>sock_bind_table := (sock_bind_table s)(port := l)\<rparr>) }
           else Some s);
     add_new sk ip port opts s }"

lemma btable_add_binding_eq:
  "btable_add_binding sk ip port opts s = do {
     (can_bind, s) \<leftarrow> btable_can_bind ip port opts s;
     if \<not> can_bind then Some (-1, s) else add_rest sk ip port opts s }"
  unfolding btable_add_binding_def add_rest_def add_new_def by (rule refl)

lemma push_refine:
  assumes "separated F" "dlist F (mem s) self ns" "node \<in> F NodeObj" "node \<notin> set ns"
    and "length ns + 1 < 2 ^ 32"
  shows "\<exists>m'. (if ip = INADDR_ANY then list_lpush self node s else list_rpush self node s) =
      Some (node, s\<lparr>mem := m'\<rparr>) \<and>
    dlist F m' self (if ip = INADDR_ANY then node # ns else ns @ [node]) \<and>
    frame F (touched self (insert node (set ns))) (mem s) m' \<and> vals_kept F (mem s) m'"
  using list_lpush_refine [OF assms] list_rpush_refine [OF assms] by simp

lemma add_new_refine:
  assumes sep: "separated F" and inF: "n \<in> F NodeObj" "b \<in> F InfoObj"
    and d: "dlist F (mem s) (sock_bind_table s port) ns" "n \<notin> set ns" "length ns + 1 < 2 ^ 32"
    and na: "node_alloc s = Some na" "udpdk_shmalloc na = (n, na')"
    and fa: "info_alloc s = Some fa" "udpdk_shmalloc fa = (b, fa')"
    and ps: "ps = (if ip = INADDR_ANY then n # ns else ns @ [n])"
  shows "\<exists>m'. add_new sk ip port opts s =
      Some (0, s\<lparr>mem := m', node_alloc := Some na', info_alloc := Some fa'\<rparr>) \<and>
    dlist F m' (sock_bind_table s port) ps \<and> fld node_val m' n = b \<and>
    binding_at m' n = new_info sk ip opts \<and>
    frame F (insert (InfoObj, b) (touched (sock_bind_table s port) (insert n (set ns)))) (mem s) m' \<and>
    (\<forall>x \<in> F NodeObj. x \<noteq> n \<longrightarrow> (fld node_val m' x :: ptr) = fld node_val (mem s) x)"
proof -
  let ?l = "sock_bind_table s port"
  define S where "S m nal = s\<lparr>mem := m, node_alloc := nal, info_alloc := Some fa'\<rparr>" for m nal
  have S: "(S m nal)\<lparr>node_alloc := nal'\<rparr> = S m nal'" "(S m nal)\<lparr>mem := m'\<rparr> = S m' nal"
      "mem (S m nal) = m" "node_alloc (S m nal) = nal" "sock_bind_table (S m nal) = sock_bind_table s"
      "s\<lparr>info_alloc := Some fa'\<rparr> = S (mem s) (Some na)"
    for m nal m' nal'
    using na(1) by (simp_all add: S_def)
  obtain m1 where m1: "write_info b sk ip opts (S (mem s) (Some na)) = Some (S m1 (Some na))"
      "info_of m1 b = new_info sk ip opts" "frame F {(InfoObj, b)} (mem s) m1"
    using write_info_refine [OF sep inF(2), of sk ip opts "S (mem s) (Some na)"] unfolding S by blast
  obtain m2 where m2: "list_node_new b (S m1 (Some na)) = Some (n, S m2 (Some na'))"
      "fld node_val m2 n = b" "frame F {(NodeObj, n)} m1 m2"
    using list_node_new_refine [where s = "S m1 (Some na)" and val = b, OF S(4) na(2) sep inF(1)]
    unfolding S by blast
  have d2: "dlist F (mem (S m2 (Some na'))) ?l ns"
    using d(2) unfolding S by (auto intro!: dlist_frame [OF dlist_frame [OF d(1) m1(3)] m2(3)])
  obtain m3 where m3: "(if ip = INADDR_ANY then list_lpush ?l n (S m2 (Some na'))
        else list_rpush ?l n (S m2 (Some na'))) = Some (n, S m3 (Some na'))"
      "dlist F m3 ?l ps" "frame F (touched ?l (insert n (set ns))) m2 m3" "vals_kept F m2 m3"
    using push_refine [OF sep d2 inF(1) d(2,3), of ip] unfolding ps S by blast
  have run: "add_new sk ip port opts s = Some (0, S m3 (Some na'))"
    using fa m1(1) m2(1) m3(1) by (simp add: add_new_def info_malloc_def S split: if_splits)
  have fr: "frame F (insert (InfoObj, b) (touched ?l (insert n (set ns)))) (mem s) m3"
    by (rule frame_trans [OF frame_mono [OF m1(3)] frame_trans [OF frame_mono [OF m2(3)] frame_mono [OF m3(3)]]])
      auto
  have valn: "fld node_val m3 n = b"
    using m3(4) m2(2) inF(1) by (simp add: vals_kept_def)
  have "info_of m3 b = new_info sk ip opts"
    using info_frame [OF m3(3) inF(2)] info_frame [OF m2(3) inF(2)] m1(2) by simp
  then have "binding_at m3 n = new_info sk ip opts" by (simp add: binding_at_def valn)
  moreover have "(fld node_val m3 x :: ptr) = fld node_val (mem s) x" if "x \<in> F NodeObj" "x \<noteq> n" for x
    using m3(4) val_frame [OF m2(3) that(1)] val_frame [OF m1(3) that(1)] that by (simp add: vals_kept_def)
  ultimately show ?thesis using run m3(2) valn fr unfolding S_def by blast
qed

lemma add_rest_refine:
  assumes rel: "table_rel F (mem s) (sock_bind_table s) ns"
    and al: "list_alloc s = Some la" "udpdk_shmalloc la = (l, la')" "l \<notin> F ListObj"
      "node_alloc s = Some na" "udpdk_shmalloc na = (n, na')" "n \<notin> F NodeObj"
      "info_alloc s = Some fa" "udpdk_shmalloc fa = (b, fa')" "b \<notin> F InfoObj"
    and L: "L = (if sock_bind_table s port = NULL then l else sock_bind_table s port)"
    and sep: "separated (add_objs F L n b)" and len: "length (ns port) + 1 < 2 ^ 32"
    and ps: "ps = (if ip = INADDR_ANY then n # ns port else ns port @ [n])"
  shows "\<exists>m'. add_rest sk ip port opts s = Some (0, s\<lparr>mem := m',
      list_alloc := Some (if sock_bind_table s port = NULL then la' else la),
      node_alloc := Some na', info_alloc := Some fa',
      sock_bind_table := (sock_bind_table s)(port := L)\<rparr>) \<and>
    table_rel (add_objs F L n b) m' ((sock_bind_table s)(port := L)) (ns(port := ps)) \<and>
    (\<forall>x \<in> F NodeObj. binding_at m' x = binding_at (mem s) x) \<and>
    binding_at m' n = new_info sk ip opts"
proof -
  let ?F = "add_objs F L n b" and ?tbl = "(sock_bind_table s)(port := L)"
  obtain m2 where m2: "(if sock_bind_table s port = NULL then do {
               (l, s) \<leftarrow> list_new s;
               Some (s\<lparr>sock_bind_table := (sock_bind_table s)(port := l)\<rparr>) }
             else Some s) = Some (s\<lparr>mem := m2,
               list_alloc := Some (if sock_bind_table s port = NULL then la' else la), sock_bind_table := ?tbl\<rparr>)"
      "dlist ?F m2 L (ns port)" "frame F {} (mem s) m2"
    using add_list_refine [OF rel al(1,2) L sep add_objs_sub _ al(3)] by auto
  let ?s = "s\<lparr>mem := m2, list_alloc := Some (if sock_bind_table s port = NULL then la' else la),
    sock_bind_table := ?tbl\<rparr>"
  have nns: "n \<notin> set (ns port)" using table_rel_node [OF rel] al(6) by blast
  have inF: "n \<in> ?F NodeObj" "b \<in> ?F InfoObj" by simp_all
  have s: "dlist ?F (mem ?s) (sock_bind_table ?s port) (ns port)" "node_alloc ?s = Some na"
      "info_alloc ?s = Some fa"
    using m2(2) al(4,7) by simp_all
  have t: "sock_bind_table ?s port = L" "mem ?s = m2" by simp_all
  obtain m3 where m3: "add_new sk ip port opts ?s =
        Some (0, ?s\<lparr>mem := m3, node_alloc := Some na', info_alloc := Some fa'\<rparr>)"
      "dlist ?F m3 L ps" "fld node_val m3 n = b" "binding_at m3 n = new_info sk ip opts"
      "frame ?F (insert (InfoObj, b) (touched L (insert n (set (ns port))))) m2 m3"
      "\<forall>x \<in> ?F NodeObj. x \<noteq> n \<longrightarrow> (fld node_val m3 x :: ptr) = fld node_val m2 x"
    using add_new_refine [OF sep inF s(1) nns len s(2) al(5) s(3) al(8) ps, of sk opts]
    unfolding t by blast
  have run: "add_rest sk ip port opts s = Some (0, s\<lparr>mem := m3,
      list_alloc := Some (if sock_bind_table s port = NULL then la' else la),
      node_alloc := Some na', info_alloc := Some fa', sock_bind_table := ?tbl\<rparr>)"
    unfolding add_rest_def m2(1) using m3(1) by simp
  have fr: "frame F (touched L (set (ns port))) (mem s) m3"
  proof (rule frame_trans)
    show "frame F (touched L (set (ns port))) (mem s) m2"
      by (rule frame_mono [OF m2(3)]) auto
    show "frame F (touched L (set (ns port))) m2 m3"
      using al(6,9) by (intro frame_mono [OF m3(5)]) (auto simp: add_objs_def touched_def split: if_splits)
  qed
  have val: "(fld node_val m3 x :: ptr) = fld node_val (mem s) x" if "x \<in> F NodeObj" for x
    using m3(6) val_frame [OF m2(3) that] that al(6) by auto
  have Lc: "if sock_bind_table s port = NULL then L \<notin> F ListObj else L = sock_bind_table s port"
    using L al(3) by simp
  have set_ps: "set ps = insert n (set (ns port))" by (simp add: ps)
  with run table_rel_add [OF rel sep Lc al(6,9) m3(2) set_ps m3(3) val fr] m3(4) show ?thesis by blast
qed

end
