(* ===== verification/Bind_Ops.thy ===== *)
theory Bind_Ops
  imports Bind_Refine
begin

text \<open>
  The operations of the binding table as a whole: on a state that satisfies the invariant of
  the table, and with an element left in each pool, adding and deleting a binding implement
  \<open>insert_binding\<close> and \<open>remove_socket\<close>, keep the invariant and return what they took.
\<close>

subsection \<open>Adding a binding\<close>

lemma next_same: "iter_step s s' \<Longrightarrow> K \<noteq> IterObj \<Longrightarrow> with_next s' K = with_next s K"
  using iter_step_alloc [of s s' K] by (simp add: with_next_def)

lemma port_length:
  assumes inv: "table_inv s" and a: "node_alloc s = Some a" "n_free a \<noteq> 0"
  shows "length (port_nodes (mem s) (sock_bind_table s) p) + 1 < 2 ^ 32"
proof -
  note rel = table_inv_rel [OF inv]
  let ?ns = "port_nodes (mem s) (sock_bind_table s) p"
  have fp: "footprint_of s NodeObj = live a" using a by (simp add: footprint_of_def)
  have ai: "alloc_inv a" using table_inv_alloc [OF inv, of NodeObj] a by simp
  have "distinct ?ns"
    using table_rel_dlist [OF rel, of p] table_rel_nonempty [OF rel, of p]
    by (cases "sock_bind_table s p = NULL") (auto simp: dlist_def)
  then have "length ?ns = card (set ?ns)" by (simp add: distinct_card)
  also have "\<dots> \<le> card (live a)"
    using table_rel_node [OF rel, of _ p] fp by (intro card_mono sh.objs_finite) auto
  also have "\<dots> < unat (al_size a)" using n_free_full [OF ai] a(2) by simp
  finally show ?thesis using unat_bound [of "al_size a"] by simp
qed

lemma shmalloc_pair:
  assumes "alloc_inv a" "n_free a \<noteq> 0"
  obtains p a' where "udpdk_shmalloc a = (p, a')" "alloc_inv a'" "live a' = insert p (live a)"
    "p \<notin> live a" "same_pool a a'"
  using live_shmalloc [OF assms] shmalloc_inv [OF assms(1)] shmalloc_same_pool [of a]
  by (cases "udpdk_shmalloc a") auto

text \<open>
  A state built from the relation of its parts: every allocator has been replaced by one of the
  same pool with the live elements of the footprint.
\<close>

lemma table_rebuild:
  assumes pools: "\<And>K. \<exists>a a'. alloc_of s K = Some a \<and> alloc_of s' K = Some a' \<and> alloc_inv a' \<and>
      same_pool a a' \<and> live a' = F' K"
    and more: "bshm.more s' = bshm.more s"
    and rel: "table_rel F' (mem s') (sock_bind_table s') ns"
  shows "table_inv s' \<and> same_pools s s' \<and> bindings s' = (\<lambda>p. map (binding_at (mem s')) (ns p))"
proof -
  have fp: "footprint_of s' = F'"
  proof
    show "footprint_of s' K = F' K" for K
      using pools [of K] by (elim exE conjE) (simp add: footprint_of_def)
  qed
  have ok: "allocs_ok s'"
    unfolding allocs_ok_def
  proof
    show "\<exists>a. alloc_of s' K = Some a \<and> alloc_inv a" for K
      using pools [of K] by (elim exE conjE) simp
  qed
  have "same_pools s s'"
  proof (rule same_poolsI [OF more])
    show "rel_option same_pool (alloc_of s K) (alloc_of s' K)" for K
      using pools [of K] by (elim exE conjE) simp
  qed
  moreover have "table_inv s'" by (rule table_invI [OF ok, unfolded fp]) (rule rel)
  moreover have "bindings s' = (\<lambda>p. map (binding_at (mem s')) (ns p))"
    by (rule ext) (rule bindings_eq [OF rel])
  ultimately show ?thesis by simp
qed

text \<open>One new element in each pool that \<open>btable_add_binding\<close> allocates from.\<close>

lemma btable_add_done:
  assumes inv: "table_inv s"
    and sep: "separated ((with_next s)(IterObj := {}))" and free: "has_free s ListObj" "has_free s NodeObj" "has_free s InfoObj"
  shows "\<exists>s'. add_rest sk ip port opts s = Some (0, s') \<and> table_inv s' \<and> same_pools s s' \<and>
    bindings s' = (bindings s)(port := insert_binding (new_info sk ip opts) (bindings s port))"
proof -
  note rel = table_inv_rel [OF inv]
  let ?F = "footprint_of s" and ?tbl = "sock_bind_table s"
  let ?ns = "port_nodes (mem s) ?tbl"
  obtain la where la: "list_alloc s = Some la" "n_free la \<noteq> 0" using free(1) by (auto simp: has_free_def)
  obtain na where na: "node_alloc s = Some na" "n_free na \<noteq> 0" using free(2) by (auto simp: has_free_def)
  obtain fa where fa: "info_alloc s = Some fa" "n_free fa \<noteq> 0" using free(3) by (auto simp: has_free_def)
  have ai: "alloc_inv la" "alloc_inv na" "alloc_inv fa"
    using table_inv_alloc [OF inv, of ListObj] table_inv_alloc [OF inv, of NodeObj]
      table_inv_alloc [OF inv, of InfoObj] la na fa by simp_all
  have fp: "?F ListObj = live la" "?F NodeObj = live na" "?F InfoObj = live fa"
    using la na fa by (simp_all add: footprint_of_def)
  obtain l la' where l: "udpdk_shmalloc la = (l, la')" "alloc_inv la'" "live la' = insert l (live la)"
      "l \<notin> live la" "same_pool la la'" by (rule shmalloc_pair [OF ai(1) la(2)])
  obtain n na' where n: "udpdk_shmalloc na = (n, na')" "alloc_inv na'" "live na' = insert n (live na)"
      "n \<notin> live na" "same_pool na na'" by (rule shmalloc_pair [OF ai(2) na(2)])
  obtain b fa' where b: "udpdk_shmalloc fa = (b, fa')" "alloc_inv fa'" "live fa' = insert b (live fa)"
      "b \<notin> live fa" "same_pool fa fa'" by (rule shmalloc_pair [OF ai(3) fa(2)])
  define L where "L = (if ?tbl port = NULL then l else ?tbl port)"
  define ps where "ps = (if ip = INADDR_ANY then n # ?ns port else ?ns port @ [n])"
  have LF: "L \<in> ?F ListObj" if "?tbl port \<noteq> NULL"
    using table_rel_list [OF rel that] that by (simp add: L_def)
  have nxt: "l \<in> with_next s ListObj" "n \<in> with_next s NodeObj" "b \<in> with_next s InfoObj"
    using shmalloc_with_next [OF _ la(2) l(1), of s ListObj] shmalloc_with_next [OF _ na(2) n(1), of s NodeObj]
      shmalloc_with_next [OF _ fa(2) b(1), of s InfoObj] la(1) na(1) fa(1) by simp_all
  have "L \<in> with_next s ListObj"
    using nxt(1) LF footprint_next [of s ListObj] by (cases "?tbl port = NULL") (auto simp: L_def)
  then have sub: "add_objs ?F L n b K \<subseteq> ((with_next s)(IterObj := {})) K" for K
    using nxt(2,3) footprint_next [of s] table_relD(2) [OF rel] by (cases K) auto
  have sepA: "separated (add_objs ?F L n b)" by (rule separated_mono [OF sep sub])
  have fresh: "l \<notin> ?F ListObj" "n \<notin> ?F NodeObj" "b \<notin> ?F InfoObj" using l(4) n(4) b(4) fp by simp_all
  define la2 where "la2 = (if ?tbl port = NULL then la' else la)"
  obtain m' where run: "add_rest sk ip port opts s = Some (0, s\<lparr>mem := m', list_alloc := Some la2,
        node_alloc := Some na', info_alloc := Some fa', sock_bind_table := ?tbl(port := L)\<rparr>)"
      and rel': "table_rel (add_objs ?F L n b) m' (?tbl(port := L)) (?ns(port := ps))"
      and keep: "\<forall>x \<in> ?F NodeObj. binding_at m' x = binding_at (mem s) x"
      and new: "binding_at m' n = new_info sk ip opts"
    using add_rest_refine [OF rel la(1) l(1) fresh(1) na(1) n(1) fresh(2) fa(1) b(1) fresh(3)
        L_def sepA port_length [OF inv na] ps_def, of sk opts] unfolding la2_def by blast
  let ?s' = "s\<lparr>mem := m', list_alloc := Some la2, node_alloc := Some na',
      info_alloc := Some fa', sock_bind_table := ?tbl(port := L)\<rparr>"
  have la2: "alloc_inv la2" "live la2 = insert L (live la)" "same_pool la la2"
    using l ai(1) LF fp(1) by (auto simp: la2_def L_def)
  have "table_inv ?s' \<and> same_pools s ?s' \<and> bindings ?s' = (\<lambda>p. map (binding_at (mem ?s')) ((?ns(port := ps)) p))"
  proof (rule table_rebuild)
    show "\<exists>a a'. alloc_of s K = Some a \<and> alloc_of ?s' K = Some a' \<and> alloc_inv a' \<and> same_pool a a' \<and>
        live a' = add_objs ?F L n b K" for K
      using table_inv_alloc [OF inv, of K] la(1) na(1) fa(1) la2 n(2,3,5) b(2,3,5) fp
      by (cases K) (auto simp: footprint_of_def)
    show "table_rel (add_objs ?F L n b) (mem ?s') (sock_bind_table ?s') (?ns(port := ps))"
      using rel' by simp
  qed simp
  moreover have "(\<lambda>p. map (binding_at (mem ?s')) ((?ns(port := ps)) p)) =
      (bindings s)(port := insert_binding (new_info sk ip opts) (bindings s port))"
    using keep table_rel_node [OF rel] new
    by (auto simp: bindings_eq [OF rel] ps_def insert_binding_def new_info_def fun_eq_iff)
  ultimately show ?thesis using run by auto
qed

text \<open>The operation: the check, then the insertion or the refusal.\<close>

lemma btable_add_refine:
  assumes inv: "table_inv s" and rm: "room s" and free: "\<And>K. has_free s K"
  shows "\<exists>r s'. btable_add_binding sk ip port opts s = Some (r, s') \<and> table_inv s' \<and> same_pools s s' \<and>
    (if list_all (compatible ip opts) (bindings s port)
     then r = 0 \<and> bindings s' = (bindings s)(port := insert_binding (new_info sk ip opts) (bindings s port))
     else r = -1 \<and> bindings s' = bindings s)"
proof -
  obtain s1 where s1: "btable_can_bind ip port opts s =
        Some (list_all (compatible ip opts) (bindings s port), s1)" "iter_step s s1"
    using btable_can_bind_refine [OF inv room_iter [OF rm] free] by blast
  have inv1: "table_inv s1" and b1: "bindings s1 = bindings s" and p1: "same_pools s s1"
    using s1(2) by (auto simp: iter_step_def)
  show ?thesis
  proof (cases "list_all (compatible ip opts) (bindings s port)")
    case False
    then show ?thesis using s1(1) inv1 b1 p1 by (auto simp: btable_add_binding_eq)
  next
    case True
    have "((with_next s1)(IterObj := {})) K \<subseteq> with_next s K" for K
      using next_same [OF s1(2), of K] by auto
    then have sep: "separated ((with_next s1)(IterObj := {}))"
      using rm separated_mono [of "with_next s"] unfolding room_def by blast
    have f: "has_free s1 K" if "K \<noteq> IterObj" for K
      using iter_step_alloc [OF s1(2) that] free [of K] by (simp add: has_free_def)
    show ?thesis
      using btable_add_done [OF inv1 sep f f f, where sk = sk and ip = ip and opts = opts and port = port] True s1(1) b1 same_pools_trans [OF p1]
      by (auto simp: btable_add_binding_eq)
  qed
qed

subsection \<open>Deleting a binding\<close>

text \<open>Taking the node \<open>n\<close> and its binding out of the list of a port.\<close>

definition del_objs :: "footprint \<Rightarrow> ptr set \<Rightarrow> ptr \<Rightarrow> ptr \<Rightarrow> footprint" where
  "del_objs F ls n b =
     F(ListObj := F ListObj - ls, NodeObj := F NodeObj - {n}, InfoObj := F InfoObj - {b})"

lemma del_objs_simps [simp]:
  "del_objs F ls n b ListObj = F ListObj - ls"
  "del_objs F ls n b NodeObj = F NodeObj - {n}"
  "del_objs F ls n b InfoObj = F InfoObj - {b}"
  "del_objs F ls n b IterObj = F IterObj"
  by (simp_all add: del_objs_def)

lemma del_objs_sub: "del_objs F ls n b K \<subseteq> F K"
  by (cases K) auto

lemma dlist_shrink:
  "dlist F m self ns \<Longrightarrow> self \<in> F' ListObj \<Longrightarrow> set ns \<subseteq> F' NodeObj \<Longrightarrow> dlist F' m self ns"
  by (simp add: dlist_def)

lemma table_rel_del:
  assumes rel: "table_rel F m tbl ns" and nn: "tbl port \<noteq> NULL"
    and ns: "ns port = us @ n # vs"
    and new: "dlist F m' (tbl port) (us @ vs)"
    and val: "\<And>x. x \<in> F NodeObj \<Longrightarrow> (fld node_val m' x :: ptr) = fld node_val m x"
    and fr: "frame F (touched (tbl port) (set us \<union> set vs)) m m'"
    and ls: "ls = (if us @ vs = [] then {tbl port} else {})"
    and l: "l = (if us @ vs = [] then NULL else tbl port)"
  shows "table_rel (del_objs F ls n (fld node_val m n)) m' (tbl(port := l)) (ns(port := us @ vs))"
    and "x \<in> F NodeObj \<Longrightarrow> binding_at m' x = binding_at m x"
proof -
  let ?F = "del_objs F ls n (fld node_val m n)" and ?tbl = "tbl(port := l)" and ?ns = "ns(port := us @ vs)"
  note D = table_relD [OF rel]
  have dist: "n \<notin> set (us @ vs)" using table_rel_dlist [OF rel nn] ns by (auto simp: dlist_def)
  have nF: "n \<in> F NodeObj" using table_rel_node [OF rel, of n port] ns by simp
  have disj: "set (ns q) \<inter> set (ns port) = {}" if "q \<noteq> port" for q
    using D(6) that by blast
  have l': "tbl q \<noteq> tbl port" if "q \<noteq> port" "tbl q \<noteq> NULL" for q
    using table_rel_other_list [OF rel that] by auto
  have inj: "fld node_val m x \<noteq> (fld node_val m n :: ptr)" if "x \<in> F NodeObj" "x \<noteq> n" for x
    using inj_onD [OF D(8) _ that(1) nF] that(2) by blast
  have lists: "if ?tbl q = NULL then ?ns q = [] else ?ns q \<noteq> [] \<and> dlist ?F m' (?tbl q) (?ns q)" for q
  proof (rule lists_update [OF rel])
    have "us @ vs \<noteq> [] \<Longrightarrow> dlist ?F m' (tbl port) (us @ vs)"
      using dist dlist_in [OF new] ls by (intro dlist_shrink [OF new]) auto
    then show "if l = NULL then us @ vs = [] else us @ vs \<noteq> [] \<and> dlist ?F m' l (us @ vs)"
      using l nn by auto
    fix q assume q: "q \<noteq> port" "tbl q \<noteq> NULL"
    have d: "dlist F m' (tbl q) (ns q)"
      using ns by (intro dlist_other [OF rel q l' [OF q] fr]) auto
    then show "dlist ?F m' (tbl q) (ns q)"
      using dlist_in [OF d] disj [OF q(1)] l' [OF q] ns ls
      by (intro dlist_shrink [OF d]) (auto split: if_splits)
  qed
  have sep: "separated ?F" by (rule separated_mono [OF D(1)]) (rule del_objs_sub)
  show "table_rel ?F m' ?tbl ?ns"
  proof (rule table_relI [OF sep _ lists])
    show "?F IterObj = {}" using D(2) by simp
    show "inj_on ?tbl {p. ?tbl p \<noteq> NULL}"
      using D(4) l nn l' by (auto simp: inj_on_def split: if_splits)
    show "?F ListObj = ?tbl ` {p. ?tbl p \<noteq> NULL}"
      unfolding del_objs_simps D(5) ls l using nn l' by (auto split: if_splits)
    show "set (?ns p) \<inter> set (?ns q) = {}" if "p \<noteq> q" for p q
      using disj [of p] disj [of q] D(6) that ns by auto
    show "?F NodeObj = (\<Union>p. set (?ns p))"
    proof -
      have "x \<in> (\<Union>p. set (?ns p))" if "x \<in> set (ns p)" "x \<noteq> n" for x p
        using that ns by (intro UN_I [of p]) auto
      moreover have "x \<in> set (ns p) \<and> x \<noteq> n" if "x \<in> set (?ns p)" for x p
        using that ns dist disj by (cases "p = port") auto
      ultimately show ?thesis unfolding del_objs_simps D(7) by blast
    qed
    show "inj_on (\<lambda>n. fld node_val m' n :: ptr) (?F NodeObj)"
      using D(8) by (simp add: inj_on_def val)
    show "?F InfoObj = (\<lambda>n. fld node_val m' n) ` ?F NodeObj"
      unfolding del_objs_simps D(9) using val inj by (auto simp: image_iff)
  qed
  assume x: "x \<in> F NodeObj"
  show "binding_at m' x = binding_at m x"
    using val [OF x] info_frame [OF fr table_rel_val [OF rel x]] by (simp add: binding_at_def)
qed

lemma del_loop_miss:
  assumes "separated F" "pending F (mem s) self LIST_HEAD ys" "iter_at F (mem s) it LIST_HEAD ys"
    and "\<And>n. n \<in> set ys \<Longrightarrow> fld node_val (mem s) n \<in> F InfoObj"
    and "\<And>n. n \<in> set ys \<Longrightarrow> bi_sockfd (binding_at (mem s) n) \<noteq> sk"
  shows "\<exists>m'. del_loop it sk port s = Some (s\<lparr>mem := m'\<rparr>) \<and> frame F {(IterObj, it)} (mem s) m'"
  using assms(2-5)
proof (induction ys arbitrary: s)
  case Nil
  show ?case
    using list_iterator_next_end [OF assms(1) Nil.prems(2)]
    by (subst del_loop.simps) (auto intro!: exI [of _ "mem s"] frame_refl)
next
  case (Cons y ys)
  obtain m1 where m1: "list_iterator_next it s = Some (y, s\<lparr>mem := m1\<rparr>)"
      "iter_at F m1 it LIST_HEAD ys" "pending F m1 self LIST_HEAD ys"
      "frame F {(IterObj, it)} (mem s) m1"
      "y \<noteq> NULL" "y \<in> F NodeObj" "fld node_val m1 y \<noteq> NULL"
      "\<And>n. n \<in> set (y # ys) \<Longrightarrow> (fld node_val m1 n :: ptr) = fld node_val (mem s) n"
      "\<And>n. n \<in> set (y # ys) \<Longrightarrow> binding_at m1 n = binding_at (mem s) n"
    by (rule next_binding [OF assms(1) Cons.prems(1-3)]) auto
  let ?s = "s\<lparr>mem := m1\<rparr>"
  have "fld info_sockfd m1 (fld node_val m1 y) \<noteq> sk"
    using Cons.prems(4) [of y] m1(9) [of y] by (simp add: binding_at_def info_of_def)
  then have run: "del_loop it sk port s = del_loop it sk port ?s"
    using m1(1,5,7) by (subst del_loop.simps) (simp add: code_defs)
  obtain m' where "del_loop it sk port ?s = Some (?s\<lparr>mem := m'\<rparr>)" "frame F {(IterObj, it)} m1 m'"
    using Cons.IH [of ?s] m1(2,3,8,9) Cons.prems(3,4) by auto
  then show ?case using run frame_trans [OF m1(4)] by auto
qed

text \<open>The memory after the removal of the first node whose binding has the socket's number.\<close>

lemma del_loop_hit:
  assumes "separated F" "dlist F (mem s) (sock_bind_table s port) (xs @ us @ n # vs)"
    and "iter_at F (mem s) it LIST_HEAD (us @ n # vs)"
    and "\<And>x. x \<in> set (us @ n # vs) \<Longrightarrow> fld node_val (mem s) x \<in> F InfoObj"
    and "\<And>x. x \<in> set us \<Longrightarrow> bi_sockfd (binding_at (mem s) x) \<noteq> sk"
    and "bi_sockfd (binding_at (mem s) n) = sk"
    and "node_alloc s = Some na" "info_alloc s = Some fa"
  shows "\<exists>m'. del_loop it sk port s = Some (s\<lparr>mem := m', node_alloc := Some (udpdk_shfree na n),
      info_alloc := Some (udpdk_shfree fa (fld node_val (mem s) n))\<rparr>) \<and>
    dlist F m' (sock_bind_table s port) (xs @ us @ vs) \<and>
    frame F (insert (IterObj, it) (touched (sock_bind_table s port) (set (xs @ us @ vs)))) (mem s) m' \<and>
    vals_kept F (mem s) m'"
  using assms(2-8)
proof (induction us arbitrary: s xs)
  case Nil
  let ?l = "sock_bind_table s port"
  have pend: "pending F (mem s) ?l LIST_HEAD (n # vs)"
    using Nil.prems(1) by (auto simp: pending_def)
  obtain m1 where m1: "list_iterator_next it s = Some (n, s\<lparr>mem := m1\<rparr>)"
      "frame F {(IterObj, it)} (mem s) m1"
      "n \<noteq> NULL" "n \<in> F NodeObj" "fld node_val m1 n \<noteq> NULL"
      "\<And>x. x \<in> set (n # vs) \<Longrightarrow> (fld node_val m1 x :: ptr) = fld node_val (mem s) x"
      "\<And>x. x \<in> set (n # vs) \<Longrightarrow> binding_at m1 x = binding_at (mem s) x"
    by (rule next_binding [OF assms(1) pend Nil.prems(2) [simplified]])
      (use Nil.prems(3) in auto)
  let ?fa = "udpdk_shfree fa (fld node_val (mem s) n)"
  let ?s = "s\<lparr>mem := m1, info_alloc := Some ?fa\<rparr>"
  have d1: "dlist F (mem ?s) ?l (xs @ n # vs)"
    using dlist_iter_frame [OF Nil.prems(1) m1(2)] by simp
  obtain m' where m': "list_remove ?l n ?s = Some (?s\<lparr>mem := m', node_alloc := Some (udpdk_shfree na n)\<rparr>)"
      "dlist F m' ?l (xs @ vs)" "frame F (touched ?l (set xs \<union> set vs)) m1 m'" "vals_kept F m1 m'"
    using list_remove_refine [OF assms(1) d1, of na] Nil.prems(6) by auto
  have sk: "fld info_sockfd m1 (fld node_val m1 n) = sk"
    using Nil.prems(5) m1(7) [of n] by (simp add: binding_at_def info_of_def)
  have "del_loop it sk port s = Some (s\<lparr>mem := m', node_alloc := Some (udpdk_shfree na n),
      info_alloc := Some ?fa\<rparr>)"
    using m1(1,3,5,6) sk m'(1) Nil.prems(7)
    by (subst del_loop.simps) (simp add: code_defs)
  moreover have "vals_kept F (mem s) m'"
    using m'(4) val_frame [OF m1(2)] by (simp add: vals_kept_def)
  moreover have "frame F (insert (IterObj, it) (touched ?l (set ([] @ xs @ vs)))) (mem s) m'"
    by (rule frame_trans [OF frame_mono [OF m1(2)] frame_mono [OF m'(3)]]) auto
  ultimately show ?case using m'(2) by auto
next
  case (Cons y us)
  let ?l = "sock_bind_table s port"
  have pend: "pending F (mem s) ?l LIST_HEAD (y # us @ n # vs)"
    using Cons.prems(1) by (auto simp: pending_def)
  obtain m1 where m1: "list_iterator_next it s = Some (y, s\<lparr>mem := m1\<rparr>)"
      "iter_at F m1 it LIST_HEAD (us @ n # vs)"
      "frame F {(IterObj, it)} (mem s) m1"
      "y \<noteq> NULL" "fld node_val m1 y \<noteq> NULL"
      "\<And>x. x \<in> set (y # us @ n # vs) \<Longrightarrow> (fld node_val m1 x :: ptr) = fld node_val (mem s) x"
      "\<And>x. x \<in> set (y # us @ n # vs) \<Longrightarrow> binding_at m1 x = binding_at (mem s) x"
    by (rule next_binding [OF assms(1) pend Cons.prems(2) [simplified]])
      (use Cons.prems(3) in auto)
  let ?s = "s\<lparr>mem := m1\<rparr>"
  have "fld info_sockfd m1 (fld node_val m1 y) \<noteq> sk"
    using Cons.prems(4) [of y] m1(7) [of y] by (simp add: binding_at_def info_of_def)
  then have run: "del_loop it sk port s = del_loop it sk port ?s"
    using m1(1,4,5) by (subst del_loop.simps) (simp add: code_defs)
  have d1: "dlist F (mem ?s) (sock_bind_table ?s port) ((xs @ [y]) @ us @ n # vs)"
    using dlist_iter_frame [OF Cons.prems(1) m1(3)] by simp
  obtain m' where m': "del_loop it sk port ?s = Some (?s\<lparr>mem := m', node_alloc := Some (udpdk_shfree na n),
        info_alloc := Some (udpdk_shfree fa (fld node_val (mem s) n))\<rparr>)"
      "dlist F m' ?l ((xs @ [y]) @ us @ vs)"
      "frame F (insert (IterObj, it) (touched ?l (set ((xs @ [y]) @ us @ vs)))) m1 m'"
      "vals_kept F m1 m'"
    using Cons.IH [OF d1] m1(2,6,7) Cons.prems(3-7) by auto
  have "vals_kept F (mem s) m'"
    using m'(4) val_frame [OF m1(3)] by (simp add: vals_kept_def)
  moreover have "frame F (insert (IterObj, it) (touched ?l (set ((xs @ [y]) @ us @ vs)))) (mem s) m'"
    by (rule frame_trans [OF frame_mono [OF m1(3)] m'(3)]) auto
  ultimately show ?case using run m'(1,2) by auto
qed

lemma remove_socket_miss: "(\<And>b. b \<in> set bs \<Longrightarrow> bi_sockfd b \<noteq> sk) \<Longrightarrow> remove_socket sk bs = bs"
  by (induction bs) auto

lemma remove_socket_hit:
  "(\<And>b. b \<in> set us \<Longrightarrow> bi_sockfd b \<noteq> sk) \<Longrightarrow> bi_sockfd b = sk \<Longrightarrow>
    remove_socket sk (us @ b # vs) = us @ vs"
  by (induction us) auto

lemma split_first:
  assumes "\<exists>x \<in> set xs. P x"
  obtains us n vs where "xs = us @ n # vs" "P n" "\<And>x. x \<in> set us \<Longrightarrow> \<not> P x"
  using split_list_first_prop [OF assms] by blast

text \<open>The part of \<open>btable_del_binding\<close> after the iterator has been given back.\<close>

definition del_finish :: "u16 \<Rightarrow> 'a bshm_scheme \<Rightarrow> 'a bshm_scheme option" where
  "del_finish port s = do {
     len \<leftarrow> rd list_len (sock_bind_table s port) s;
     if len = (0 :: u32) then do {
       s \<leftarrow> list_destroy (sock_bind_table s port) s;
       Some (s\<lparr>sock_bind_table := (sock_bind_table s)(port := NULL)\<rparr>) }
     else Some s }"

lemma btable_del_binding_eq:
  "btable_del_binding sk port s = do {
     (it, s) \<leftarrow> list_iterator_new (sock_bind_table s port) LIST_HEAD s;
     s \<leftarrow> del_loop it sk port s;
     s \<leftarrow> list_iterator_destroy it s;
     del_finish port s }"
  unfolding btable_del_binding_def del_finish_def by (rule refl)

lemma del_finish_refine:
  assumes d: "dlist F (mem s) (sock_bind_table s port) ns" and sep: "separated F"
    and al: "list_alloc s = Some la" "node_alloc s = Some na"
  shows "del_finish port s = Some (if ns = [] then
      s\<lparr>list_alloc := Some (udpdk_shfree la (sock_bind_table s port)),
        sock_bind_table := (sock_bind_table s)(port := NULL)\<rparr> else s)"
proof -
  have nn: "sock_bind_table s port \<noteq> NULL"
    using separated_nonnull [OF sep dlist_in(1) [OF d]] .
  have len: "(fld list_len (mem s) (sock_bind_table s port) :: u32) = 0 \<longleftrightarrow> ns = []"
    by (rule dlist_len_zero [OF d])
  have "list_destroy (sock_bind_table s port) s =
      Some (s\<lparr>list_alloc := Some (udpdk_shfree la (sock_bind_table s port))\<rparr>)" if "ns = []"
  proof -
    have "s\<lparr>node_alloc := Some na, list_alloc := x\<rparr> = s\<lparr>list_alloc := x\<rparr>" for x
      by (simp add: al(2) [symmetric])
    then show ?thesis using list_destroy_refine [OF d sep al(2,1)] that by simp
  qed
  then show ?thesis using nn len by (simp add: del_finish_def rd_def)
qed

text \<open>The state after a removal is related to the abstract one without the binding.\<close>

lemma del_state:
  assumes inv: "table_inv s" and nn: "sock_bind_table s port \<noteq> NULL"
    and ns: "port_nodes (mem s) (sock_bind_table s) port = us @ n # vs"
    and al: "list_alloc s = Some la" "node_alloc s = Some na" "info_alloc s = Some fa" "iter_alloc s = Some ia"
    and ia': "alloc_inv ia'" "live ia' = {}" "same_pool ia ia'"
    and new: "dlist (footprint_of s) m' (sock_bind_table s port) (us @ vs)"
    and val: "vals_kept (footprint_of s) (mem s) m'"
    and fr: "frame (footprint_of s) (touched (sock_bind_table s port) (set us \<union> set vs)) (mem s) m'"
    and s': "s' = s\<lparr>mem := m',
      list_alloc := Some (if us @ vs = [] then udpdk_shfree la (sock_bind_table s port) else la),
      node_alloc := Some (udpdk_shfree na n), iter_alloc := Some ia',
      info_alloc := Some (udpdk_shfree fa (fld node_val (mem s) n)),
      sock_bind_table := (sock_bind_table s)(port := if us @ vs = [] then NULL else sock_bind_table s port)\<rparr>"
  shows "table_inv s' \<and> same_pools s s' \<and> bindings s' =
    (bindings s)(port := map (binding_at (mem s)) (us @ vs))"
proof -
  note rel = table_inv_rel [OF inv]
  let ?F = "footprint_of s" and ?tbl = "sock_bind_table s" and ?b = "fld node_val (mem s) n"
  let ?ns = "port_nodes (mem s) ?tbl"
  define ls where "ls = (if us @ vs = [] then {?tbl port} else {})"
  have ai: "alloc_inv la" "alloc_inv na" "alloc_inv fa"
    using table_inv_alloc [OF inv, of ListObj] table_inv_alloc [OF inv, of NodeObj]
      table_inv_alloc [OF inv, of InfoObj] al by simp_all
  have fp: "?F ListObj = live la" "?F NodeObj = live na" "?F InfoObj = live fa"
    using al by (simp_all add: footprint_of_def)
  have nF: "n \<in> ?F NodeObj" using table_rel_node [OF rel, of n port] ns by simp
  note lv = table_rel_list [OF rel nn, unfolded fp] nF [unfolded fp] table_rel_val [OF rel nF, unfolded fp]
  have v: "(fld node_val m' x :: ptr) = fld node_val (mem s) x" if "x \<in> ?F NodeObj" for x
    using val that by (simp add: vals_kept_def)
  note del = table_rel_del [OF rel nn ns new v fr ls_def refl]
  have "table_inv s' \<and> same_pools s s' \<and> bindings s' = (\<lambda>p. map (binding_at (mem s')) ((?ns(port := us @ vs)) p))"
  proof (rule table_rebuild)
    show "\<exists>a a'. alloc_of s K = Some a \<and> alloc_of s' K = Some a' \<and> alloc_inv a' \<and> same_pool a a' \<and>
        live a' = del_objs ?F ls n ?b K" for K
      using live_shfree [OF ai(1) lv(1)] live_shfree [OF ai(2) lv(2)] live_shfree [OF ai(3) lv(3)]
        shfree_inv [OF ai(1)] shfree_inv [OF ai(2)] shfree_inv [OF ai(3)] ai(1) shfree_same_pool
        al ia' fp table_relD(2) [OF rel]
      by (cases K) (auto simp: s' ls_def)
    show "table_rel (del_objs ?F ls n ?b) (mem s') (sock_bind_table s') (?ns(port := us @ vs))"
      using del(1) by (simp add: s')
  qed (simp add: s')
  moreover have "(\<lambda>p. map (binding_at (mem s')) ((?ns(port := us @ vs)) p)) =
      (bindings s)(port := map (binding_at (mem s)) (us @ vs))"
    using del(2) table_rel_node [OF rel] table_rel_node [OF rel, of _ port] ns
    by (auto simp: bindings_eq [OF rel] s' fun_eq_iff)
  ultimately show ?thesis by auto
qed

text \<open>
  The two outcomes of the walk, from the state in which the iterator has been opened: no binding
  has the number of the socket, or \<open>n\<close> is the first node that has it.
\<close>

lemma btable_del_miss:
  assumes inv: "table_inv s" and sep: "separated (next_iter s)"
    and a: "iter_alloc s = Some a" "n_free a \<noteq> 0" "udpdk_shmalloc a = (it, a')"
    and ns: "ns = port_nodes (mem s) (sock_bind_table s) port" "ns \<noteq> []"
    and m1: "list_iterator_new (sock_bind_table s port) LIST_HEAD s = Some (it, s\<lparr>mem := m1, iter_alloc := Some a'\<rparr>)"
      "iter_at (next_iter s) m1 it LIST_HEAD ns" "frame (next_iter s) {(IterObj, it)} (mem s) m1"
      "dlist (next_iter s) m1 (sock_bind_table s port) ns"
      "\<And>n. n \<in> set ns \<Longrightarrow> fld node_val m1 n \<in> next_iter s InfoObj"
      "\<And>n. n \<in> set ns \<Longrightarrow> binding_at m1 n = binding_at (mem s) n"
    and miss: "\<And>n. n \<in> set ns \<Longrightarrow> bi_sockfd (binding_at (mem s) n) \<noteq> sk"
  obtains s' where "btable_del_binding sk port s = Some s'" "iter_step s s'"
proof -
  let ?F = "next_iter s" and ?s1 = "s\<lparr>mem := m1, iter_alloc := Some a'\<rparr>"
  obtain la where la: "list_alloc s = Some la" using table_inv_alloc [OF inv, of ListObj] by auto
  obtain na where na: "node_alloc s = Some na" using table_inv_alloc [OF inv, of NodeObj] by auto
  have pend: "pending ?F (mem ?s1) (sock_bind_table s port) LIST_HEAD ns"
    using pending_new [OF m1(4), of LIST_HEAD] by simp
  obtain m2 where m2: "del_loop it sk port ?s1 = Some (?s1\<lparr>mem := m2\<rparr>)"
      "frame ?F {(IterObj, it)} m1 m2"
    using del_loop_miss [OF sep pend, of it sk port] m1(2,5,6) miss by auto
  let ?s2 = "s\<lparr>mem := m2, iter_alloc := Some (udpdk_shfree a' it)\<rparr>"
  have d2: "dlist ?F (mem ?s2) (sock_bind_table ?s2 port) ns"
    using dlist_iter_frame [OF m1(4) m2(2)] by simp
  have "del_finish port ?s2 = Some ?s2"
    using del_finish_refine [OF d2 sep] la na ns(2) by simp
  then have "btable_del_binding sk port s = Some ?s2"
    using m1(1) m2(1) by (simp add: btable_del_binding_eq code_defs)
  then show thesis
    by (rule that) (rule iter_stepI [OF inv a(1,3,2) frame_trans [OF m1(3) m2(2)]])
qed

lemma btable_del_run:
  assumes sep: "separated F" and a: "iter_alloc s = Some a" "udpdk_shmalloc a = (it, a')" "it \<in> F IterObj"
    and d: "dlist F (mem s) (sock_bind_table s port) (us @ n # vs)"
    and val: "\<And>x. x \<in> set (us @ n # vs) \<Longrightarrow> fld node_val (mem s) x \<in> F InfoObj"
    and hit: "bi_sockfd (binding_at (mem s) n) = sk"
      "\<And>x. x \<in> set us \<Longrightarrow> bi_sockfd (binding_at (mem s) x) \<noteq> sk"
    and al: "list_alloc s = Some la" "node_alloc s = Some na" "info_alloc s = Some fa"
  obtains m' where "btable_del_binding sk port s = Some (s\<lparr>mem := m',
      list_alloc := Some (if us @ vs = [] then udpdk_shfree la (sock_bind_table s port) else la),
      node_alloc := Some (udpdk_shfree na n), iter_alloc := Some (udpdk_shfree a' it),
      info_alloc := Some (udpdk_shfree fa (fld node_val (mem s) n)),
      sock_bind_table := (sock_bind_table s)(port := if us @ vs = [] then NULL else sock_bind_table s port)\<rparr>)"
    "dlist F m' (sock_bind_table s port) (us @ vs)"
    "frame F (insert (IterObj, it) (touched (sock_bind_table s port) (set us \<union> set vs))) (mem s) m'"
    "vals_kept F (mem s) m'"
proof -
  let ?l = "sock_bind_table s port" and ?b = "fld node_val (mem s) n"
  obtain m1 where m1: "list_iterator_new ?l LIST_HEAD s = Some (it, s\<lparr>mem := m1, iter_alloc := Some a'\<rparr>)"
      "iter_at F m1 it LIST_HEAD (us @ n # vs)" "frame F {(IterObj, it)} (mem s) m1"
    using list_iterator_new_refine [OF a(1,2) sep a(3) d, of LIST_HEAD] by auto
  let ?s1 = "s\<lparr>mem := m1, iter_alloc := Some a'\<rparr>"
  have nF: "x \<in> F NodeObj" if "x \<in> set (us @ n # vs)" for x using dlist_in(2) [OF d that] .
  have v1: "(fld node_val m1 x :: ptr) = fld node_val (mem s) x" if "x \<in> F NodeObj" for x
    by (rule node_iter_frame [OF m1(3) that])
  have b1: "binding_at m1 x = binding_at (mem s) x" if "x \<in> set (us @ n # vs)" for x
    using binding_at_frame [OF m1(3) nF [OF that]] val [OF that] by simp
  have dd: "dlist F (mem ?s1) (sock_bind_table ?s1 port) ([] @ us @ n # vs)"
    using dlist_iter_frame [OF d m1(3)] by simp
  obtain m2 where m2: "del_loop it sk port ?s1 = Some (?s1\<lparr>mem := m2,
        node_alloc := Some (udpdk_shfree na n), info_alloc := Some (udpdk_shfree fa ?b)\<rparr>)"
      "dlist F m2 ?l (us @ vs)"
      "frame F (insert (IterObj, it) (touched ?l (set us \<union> set vs))) m1 m2" "vals_kept F m1 m2"
    using del_loop_hit [OF sep dd, of it sk na fa] m1(2) hit al(2,3) b1 v1 nF val by auto
  let ?s2 = "s\<lparr>mem := m2, node_alloc := Some (udpdk_shfree na n),
      info_alloc := Some (udpdk_shfree fa ?b), iter_alloc := Some (udpdk_shfree a' it)\<rparr>"
  have d2: "dlist F (mem ?s2) (sock_bind_table ?s2 port) (us @ vs)" using m2(2) by simp
  define s' where "s' = s\<lparr>mem := m2,
      list_alloc := Some (if us @ vs = [] then udpdk_shfree la ?l else la),
      node_alloc := Some (udpdk_shfree na n), iter_alloc := Some (udpdk_shfree a' it),
      info_alloc := Some (udpdk_shfree fa ?b),
      sock_bind_table := (sock_bind_table s)(port := if us @ vs = [] then NULL else ?l)\<rparr>"
  have "del_finish port ?s2 = Some s'"
    using del_finish_refine [OF d2 sep, of la] al(1) by (simp add: s'_def)
  then have run: "btable_del_binding sk port s = Some s'"
    using m1(1) m2(1) by (simp add: btable_del_binding_eq code_defs)
  have "vals_kept F (mem s) m2" using m2(4) v1 by (simp add: vals_kept_def)
  moreover have "frame F (insert (IterObj, it) (touched ?l (set us \<union> set vs))) (mem s) m2"
    by (rule frame_trans [OF frame_mono [OF m1(3)] m2(3)]) auto
  ultimately show thesis using run m2(2) that unfolding s'_def by blast
qed

lemma btable_del_hit:
  assumes inv: "table_inv s" and sep: "separated (next_iter s)" and nn: "sock_bind_table s port \<noteq> NULL"
    and a: "iter_alloc s = Some a" "n_free a \<noteq> 0" "udpdk_shmalloc a = (it, a')"
    and ns: "port_nodes (mem s) (sock_bind_table s) port = us @ n # vs"
    and hit: "bi_sockfd (binding_at (mem s) n) = sk"
      "\<And>x. x \<in> set us \<Longrightarrow> bi_sockfd (binding_at (mem s) x) \<noteq> sk"
  obtains s' where "btable_del_binding sk port s = Some s'" "table_inv s'" "same_pools s s'"
    "bindings s' = (bindings s)(port := map (binding_at (mem s)) (us @ vs))"
proof -
  note rel = table_inv_rel [OF inv]
  let ?F = "next_iter s" and ?l = "sock_bind_table s port"
  obtain la where la: "list_alloc s = Some la" using table_inv_alloc [OF inv, of ListObj] by auto
  obtain na where na: "node_alloc s = Some na" using table_inv_alloc [OF inv, of NodeObj] by auto
  obtain fa where fa: "info_alloc s = Some fa" using table_inv_alloc [OF inv, of InfoObj] by auto
  note G = footprint_iter [of s]
  have itF: "it \<in> ?F IterObj"
    using shmalloc_with_next [OF _ a(2,3), of s IterObj] a(1) by (simp add: next_iter_def)
  have nG: "x \<in> footprint_of s NodeObj" if "x \<in> set (us @ n # vs)" for x
    using table_rel_node [OF rel, of x port] that ns by simp
  have d: "dlist ?F (mem s) ?l (us @ n # vs)"
    using dlist_mono [OF table_rel_dlist [OF rel nn] G] ns by simp
  have val: "fld node_val (mem s) x \<in> ?F InfoObj" if "x \<in> set (us @ n # vs)" for x
    using table_rel_val [OF rel nG [OF that]] G by blast
  obtain m' where m': "btable_del_binding sk port s = Some (s\<lparr>mem := m',
        list_alloc := Some (if us @ vs = [] then udpdk_shfree la ?l else la),
        node_alloc := Some (udpdk_shfree na n), iter_alloc := Some (udpdk_shfree a' it),
        info_alloc := Some (udpdk_shfree fa (fld node_val (mem s) n)),
        sock_bind_table := (sock_bind_table s)(port := if us @ vs = [] then NULL else ?l)\<rparr>)"
      "dlist ?F m' ?l (us @ vs)" "frame ?F (insert (IterObj, it) (touched ?l (set us \<union> set vs))) (mem s) m'"
      "vals_kept ?F (mem s) m'"
    by (rule btable_del_run [OF sep a(1,3) itF d val hit la na fa])
  have df: "dlist (footprint_of s) m' ?l (us @ vs)"
    using dlist_shrink [OF m'(2)] table_rel_list [OF rel nn] nG by auto
  have vk: "vals_kept (footprint_of s) (mem s) m'"
    using m'(4) G [of NodeObj] by (auto simp: vals_kept_def)
  have fr: "frame (footprint_of s) (touched ?l (set us \<union> set vs)) (mem s) m'"
    using table_relD(2) [OF rel] G by (intro frame_mono [OF m'(3)]) auto
  show thesis
    using del_state [OF inv nn ns la na fa a(1) iter_cycle [OF inv a] df vk fr refl] m'(1) that by blast
qed

lemma btable_del_refine:
  assumes inv: "table_inv s" and rm: "iter_room s" and free: "has_free s IterObj"
    and ne: "bindings s port \<noteq> []"
  shows "\<exists>s'. btable_del_binding sk port s = Some s' \<and> table_inv s' \<and> same_pools s s' \<and>
    bindings s' = (bindings s)(port := remove_socket sk (bindings s port))"
proof -
  note rel = table_inv_rel [OF inv]
  let ?l = "sock_bind_table s port" and ?ns = "port_nodes (mem s) (sock_bind_table s) port"
  have bs: "bindings s port = map (binding_at (mem s)) ?ns" by (rule bindings_eq [OF rel])
  then have nn: "?l \<noteq> NULL" and nsne: "?ns \<noteq> []"
    using ne table_rel_nonempty [OF rel, of port] by auto
  obtain a where a: "iter_alloc s = Some a" "n_free a \<noteq> 0" using free by (auto simp: has_free_def)
  obtain it a' where it: "udpdk_shmalloc a = (it, a')" by (cases "udpdk_shmalloc a")
  have sep: "separated (next_iter s)" using rm by (simp add: iter_room_def)
  obtain m1 where m1: "list_iterator_new ?l LIST_HEAD s = Some (it, s\<lparr>mem := m1, iter_alloc := Some a'\<rparr>)"
      "iter_at (next_iter s) m1 it LIST_HEAD ?ns" "frame (next_iter s) {(IterObj, it)} (mem s) m1"
      "dlist (next_iter s) m1 ?l ?ns"
      "\<And>n. n \<in> set ?ns \<Longrightarrow> fld node_val m1 n \<in> next_iter s InfoObj"
      "\<And>n. n \<in> set ?ns \<Longrightarrow> binding_at m1 n = binding_at (mem s) n"
    by (rule open_iter [OF inv rm nn a it]) blast
  show ?thesis
  proof (cases "\<exists>n \<in> set ?ns. bi_sockfd (binding_at (mem s) n) = sk")
    case False
    then have miss: "bi_sockfd (binding_at (mem s) n) \<noteq> sk" if "n \<in> set ?ns" for n using that by blast
    obtain s' where s': "btable_del_binding sk port s = Some s'" "iter_step s s'"
      by (rule btable_del_miss [OF inv sep a it refl nsne m1(1-6) miss])
    have "remove_socket sk (bindings s port) = bindings s port"
      using miss by (intro remove_socket_miss) (auto simp: bs)
    then show ?thesis using s' by (auto simp: iter_step_def)
  next
    case True
    then obtain us n vs where sp: "?ns = us @ n # vs" "bi_sockfd (binding_at (mem s) n) = sk"
        "\<And>x. x \<in> set us \<Longrightarrow> bi_sockfd (binding_at (mem s) x) \<noteq> sk"
      by (rule split_first) auto
    obtain s' where s': "btable_del_binding sk port s = Some s'" "table_inv s'" "same_pools s s'"
        "bindings s' = (bindings s)(port := map (binding_at (mem s)) (us @ vs))"
      by (rule btable_del_hit [OF inv sep nn a it sp])
    have "map (binding_at (mem s)) (us @ vs) = remove_socket sk (bindings s port)"
      unfolding bs sp(1) map_append list.map
      by (rule remove_socket_hit [symmetric]) (use sp(2,3) in auto)
    with s' show ?thesis by auto
  qed
qed

end
