(* ===== verification/Bind_Init.thy ===== *)
theory Bind_Init
  imports Bind_Ops
begin

text \<open>
  Where the pools lie. \<open>geometry_ok\<close> says that the elements of a pool are as large as the
  objects kept in them and that the pools are apart; then every element the allocators can
  hand out is separated from the live ones (\<open>room\<close>), whatever is in use. The theory also
  builds the initial state of the table from the initialisers, and shows what the element
  size computed by \<open>udpdk_init_allocator\<close> makes of this.
\<close>

subsection \<open>Geometry of the pools\<close>

definition pool_end :: "allocator \<Rightarrow> nat" where
  "pool_end a = pool_start a + unat (al_size a) * unat (elem_size a)"

definition pools_apart :: "'a bshm_scheme \<Rightarrow> bool" where
  "pools_apart s \<longleftrightarrow> (\<forall>K K' a a'. K \<noteq> K' \<longrightarrow> alloc_of s K = Some a \<longrightarrow> alloc_of s K' = Some a' \<longrightarrow>
     pool_end a \<le> pool_start a' \<or> pool_end a' \<le> pool_start a)"

definition elems_fit :: "'a bshm_scheme \<Rightarrow> bool" where
  "elems_fit s \<longleftrightarrow> (\<forall>K a. alloc_of s K = Some a \<longrightarrow> sizeof K \<le> unat (elem_size a))"

definition geometry_ok :: "'a bshm_scheme \<Rightarrow> bool" where
  "geometry_ok s \<longleftrightarrow> pools_apart s \<and> elems_fit s"

lemma same_pool_ends: "same_pool a a' \<Longrightarrow> pool_start a' = pool_start a \<and> pool_end a' = pool_end a"
  by (simp add: same_pool_def pool_start_def pool_end_def)

lemma geometry_same_pools:
  assumes g: "geometry_ok s" and p: "same_pools s s'"
  shows "geometry_ok s'"
proof -
  have ex: "\<exists>b. alloc_of s K = Some b \<and> same_pool b a" if "alloc_of s' K = Some a" for K a
    using p that by (auto simp: same_pools_def option_rel_Some2 dest: spec [of _ K])
  have "pools_apart s'"
    unfolding pools_apart_def
  proof (intro allI impI)
    fix K K' a a'
    assume "K \<noteq> K'" "alloc_of s' K = Some a" "alloc_of s' K' = Some a'"
    moreover from ex [OF this(2)] ex [OF this(3)] obtain b b' where
      "alloc_of s K = Some b" "same_pool b a" "alloc_of s K' = Some b'" "same_pool b' a'" by blast
    ultimately show "pool_end a \<le> pool_start a' \<or> pool_end a' \<le> pool_start a"
      using g same_pool_ends by (metis geometry_ok_def pools_apart_def)
  qed
  moreover have "elems_fit s'"
    using g ex by (fastforce simp: geometry_ok_def elems_fit_def same_pool_def)
  ultimately show ?thesis by (simp add: geometry_ok_def)
qed

text \<open>Every element that is in use or comes next is an element of its pool.\<close>

lemma with_next_elem:
  assumes ok: "allocs_ok s" and p: "p \<in> with_next s K"
  obtains a k where "alloc_of s K = Some a" "alloc_inv a" "k < unat (al_size a)" "p = elem_at a (of_nat k)"
proof -
  obtain a where a: "alloc_of s K = Some a" "alloc_inv a"
    using ok by (auto simp: allocs_ok_def)
  have "p \<in> live a \<or> (n_free a \<noteq> 0 \<and> p = elem_at a (next_free a))"
    using p a(1) by (auto simp: with_next_def split: if_splits)
  then have "\<exists>k < unat (al_size a). p = elem_at a (of_nat k)"
  proof
    assume "p \<in> live a"
    then show ?thesis by (auto simp: live_def used_idx_def)
  next
    assume n: "n_free a \<noteq> 0 \<and> p = elem_at a (next_free a)"
    then have "unat (next_free a) < unat (al_size a)"
      using a(2) by (simp add: alloc_inv_def free_idx_def)
    then show ?thesis using n elem_at_unat [of a "next_free a"] by blast
  qed
  with a that show ?thesis by blast
qed

lemma elem_bounds:
  assumes "pool_ok a" "k < unat (al_size a)" "n \<le> unat (elem_size a)"
  shows "pool_start a \<le> unat (elem_at a (of_nat k))" "unat (elem_at a (of_nat k)) + n \<le> pool_end a"
proof -
  have e: "unat (elem_at a (of_nat k)) = pool_start a + k * unat (elem_size a)"
    using unat_elem_at [OF assms(1)] assms(2) by (simp add: pool_start_def)
  have "Suc k * unat (elem_size a) \<le> unat (al_size a) * unat (elem_size a)"
    using assms(2) by (intro mult_le_mono1) simp
  then show "pool_start a \<le> unat (elem_at a (of_nat k))" "unat (elem_at a (of_nat k)) + n \<le> pool_end a"
    using e assms(3) by (simp_all add: pool_end_def)
qed

lemma elem_apart:
  assumes "pool_ok a" "k < j" "j < unat (al_size a)" "n \<le> unat (elem_size a)"
  shows "unat (elem_at a (of_nat k)) + n \<le> unat (elem_at a (of_nat j))"
proof -
  have "Suc k * unat (elem_size a) \<le> j * unat (elem_size a)"
    using assms(2) by (intro mult_le_mono1) simp
  then show ?thesis
    using unat_elem_at [OF assms(1), of k] unat_elem_at [OF assms(1), of j] assms(2-4) by simp
qed

lemma elems_separated:
  assumes ok: "allocs_ok s" and g: "geometry_ok s"
    and F: "\<And>K p. p \<in> F K \<Longrightarrow> \<exists>a k. alloc_of s K = Some a \<and> k < unat (al_size a) \<and> p = elem_at a (of_nat k)"
  shows "separated F"
  unfolding separated_def
proof (intro conjI allI ballI impI)
  have elem: thesis
    if "p \<in> F K" "\<And>a k. alloc_of s K = Some a \<Longrightarrow> alloc_inv a \<Longrightarrow> k < unat (al_size a) \<Longrightarrow> p = elem_at a (of_nat k) \<Longrightarrow> thesis"
    for K p thesis
    using F [OF that(1)] ok that(2) by (fastforce simp: allocs_ok_def dest: spec [of _ K])
  show "p \<noteq> NULL" if "p \<in> F K" for K p
    by (rule elem [OF that]) (use elem_at_nonnull in \<open>auto simp: alloc_inv_def\<close>)
  fix K K' p q assume pq: "p \<in> F K" "q \<in> F K'" "(K, p) \<noteq> (K', q)"
  obtain a k where a: "alloc_of s K = Some a" "alloc_inv a" "k < unat (al_size a)" "p = elem_at a (of_nat k)"
    by (rule elem [OF pq(1)])
  obtain a' k' where a': "alloc_of s K' = Some a'" "alloc_inv a'" "k' < unat (al_size a')"
      "q = elem_at a' (of_nat k')"
    by (rule elem [OF pq(2)])
  have po: "pool_ok a" "pool_ok a'" using a(2) a'(2) by (simp_all add: alloc_inv_def)
  have fit: "sizeof K \<le> unat (elem_size a)" "sizeof K' \<le> unat (elem_size a')"
    using g a(1) a'(1) by (simp_all add: geometry_ok_def elems_fit_def)
  show "unat p + sizeof K \<le> unat q \<or> unat q + sizeof K' \<le> unat p"
  proof (cases "K = K'")
    case True
    then have "a = a'" "k \<noteq> k'" using a a' pq(3) by auto
    then show ?thesis
      using elem_apart [OF po(1), of k k'] elem_apart [OF po(1), of k' k] a(3,4) a'(3,4) fit
        True linorder_neqE_nat [of k k'] by auto
  next
    case False
    then have "pool_end a \<le> pool_start a' \<or> pool_end a' \<le> pool_start a"
      using g a(1) a'(1) by (auto simp: geometry_ok_def pools_apart_def)
    then show ?thesis
      using elem_bounds [OF po(1) a(3) fit(1)] elem_bounds [OF po(2) a'(3) fit(2)] a(4) a'(4) by auto
  qed
qed

lemma geometry_room:
  assumes ok: "allocs_ok s" and g: "geometry_ok s"
  shows "room s"
  unfolding room_def
proof (rule elems_separated [OF ok g])
  show "\<exists>a k. alloc_of s K = Some a \<and> k < unat (al_size a) \<and> p = elem_at a (of_nat k)" if "p \<in> with_next s K" for K p
    by (rule with_next_elem [OF ok that]) blast
qed

subsection \<open>How many bindings fit\<close>

text \<open>The number of bindings of all ports, and the sizes that the initialisers ask for.\<close>

definition n_bound :: "(u16 \<Rightarrow> bind_info list) \<Rightarrow> nat" where
  "n_bound f = (\<Sum>p\<in>UNIV. length (f p))"

fun pool_size :: "obj_kind \<Rightarrow> nat" where
  "pool_size ListObj = UDP_MAX_PORT"
| "pool_size NodeObj = NUM_SOCKETS_MAX"
| "pool_size IterObj = 10"
| "pool_size InfoObj = NUM_SOCKETS_MAX"

definition sizes_ok :: "'a bshm_scheme \<Rightarrow> bool" where
  "sizes_ok s \<longleftrightarrow> (\<forall>K a. alloc_of s K = Some a \<longrightarrow> unat (al_size a) = pool_size K)"

lemma sizes_same_pools:
  assumes "sizes_ok s" "same_pools s s'"
  shows "sizes_ok s'"
proof -
  have "\<exists>b. alloc_of s K = Some b \<and> same_pool b a" if "alloc_of s' K = Some a" for K a
    using assms(2) that by (auto simp: same_pools_def option_rel_Some2 dest: spec [of _ K])
  then show ?thesis using assms(1) by (fastforce simp: sizes_ok_def same_pool_def)
qed

lemma n_bound_nodes:
  assumes inv: "table_inv s"
  shows "card (footprint_of s NodeObj) = n_bound (bindings s)"
proof -
  note rel = table_inv_rel [OF inv]
  let ?ns = "port_nodes (mem s) (sock_bind_table s)"
  have d: "distinct (?ns p)" for p
    using table_rel_dlist [OF rel, of p] table_rel_nonempty [OF rel, of p]
    by (cases "sock_bind_table s p = NULL") (auto simp: dlist_def)
  have "card (footprint_of s NodeObj) = (\<Sum>p\<in>UNIV. card (set (?ns p)))"
    unfolding table_relD(7) [OF rel] using table_relD(6) [OF rel]
    by (intro card_UN_disjoint) auto
  also have "\<dots> = n_bound (bindings s)"
    unfolding n_bound_def by (simp add: bindings_eq [OF rel] distinct_card [OF d])
  finally show ?thesis .
qed

lemma card_live_of: "alloc_of s K = Some a \<Longrightarrow> footprint_of s K = live a"
  by (simp add: footprint_of_def)

lemma footprint_card:
  assumes inv: "table_inv s"
  shows "card (footprint_of s K) \<le> n_bound (bindings s)"
proof -
  note rel = table_inv_rel [OF inv]
  let ?N = "footprint_of s NodeObj"
  obtain a where a: "alloc_of s NodeObj = Some a" using table_inv_alloc [OF inv] by blast
  have fin: "finite ?N" using sh.objs_finite card_live_of [OF a] by simp
  have "card (footprint_of s InfoObj) \<le> card ?N"
    unfolding table_relD(9) [OF rel] by (rule card_image_le [OF fin])
  moreover have "card (footprint_of s ListObj) \<le> card ?N"
  proof -
    let ?ns = "port_nodes (mem s) (sock_bind_table s)" and ?P = "{p. sock_bind_table s p \<noteq> NULL}"
    have hd: "hd (?ns p) \<in> set (?ns p)" if "p \<in> ?P" for p
      using table_rel_nonempty [OF rel, of p] that by simp
    have "inj_on (\<lambda>p. hd (?ns p)) ?P"
    proof (rule inj_onI)
      fix p q assume pq: "p \<in> ?P" "q \<in> ?P" "hd (?ns p) = hd (?ns q)"
      then have "hd (?ns p) \<in> set (?ns p) \<inter> set (?ns q)" using hd [OF pq(1)] hd [OF pq(2)] by simp
      then show "p = q" using table_relD(6) [OF rel] by blast
    qed
    moreover have "(\<lambda>p. hd (?ns p)) ` ?P \<subseteq> ?N"
      using hd table_rel_node [OF rel] by blast
    ultimately have "card ?P \<le> card ?N" using card_inj_on_le [OF _ _ fin] by blast
    then show ?thesis unfolding table_relD(5) [OF rel] using card_image_le [of ?P "sock_bind_table s"]
      by simp
  qed
  ultimately show ?thesis
    unfolding n_bound_nodes [OF inv, symmetric] using table_relD(2) [OF rel] by (cases K) auto
qed

lemma has_free_below:
  assumes inv: "table_inv s" and sz: "sizes_ok s" and n: "K = IterObj \<or> n_bound (bindings s) < NUM_SOCKETS_MAX"
  shows "has_free s K"
proof -
  obtain a where a: "alloc_of s K = Some a" "alloc_inv a" using table_inv_alloc [OF inv] by blast
  have "card (live a) < pool_size K"
  proof (cases "K = IterObj")
    case True
    then have "live a = {}"
      using card_live_of [OF a(1)] table_relD(2) [OF table_inv_rel [OF inv]] by simp
    then show ?thesis using True by simp
  next
    case False
    then have "card (live a) < NUM_SOCKETS_MAX"
      using footprint_card [OF inv, of K] card_live_of [OF a(1)] n by simp
    also have "\<dots> \<le> pool_size K"
      using False by (cases K) (simp_all add: NUM_SOCKETS_MAX_def UDP_MAX_PORT_def)
    finally show ?thesis .
  qed
  then have "n_free a \<noteq> 0"
    using n_free_full [OF a(2)] sz a(1) by (simp add: sizes_ok_def)
  with a(1) show ?thesis by (auto simp: has_free_def)
qed

subsection \<open>Free ports\<close>

lemma free_port_loop_cases:
  "(free_port_loop n i tbl = -1 \<and> (\<forall>k. i \<le> k \<and> k < i + n \<longrightarrow> tbl (of_nat k) \<noteq> NULL)) \<or>
   (\<exists>k. free_port_loop n i tbl = int k \<and> k < i + n \<and> tbl (of_nat k) = NULL \<and>
      (\<forall>j. i \<le> j \<and> j < k \<longrightarrow> tbl (of_nat j) \<noteq> NULL))"
proof (induction n i tbl rule: free_port_loop.induct)
  case (2 n i tbl)
  show ?case
  proof (cases "tbl (of_nat i) = NULL")
    case True
    then show ?thesis by (intro disjI2 exI [of _ i]) auto
  next
    case False
    have step: "i \<le> j \<Longrightarrow> j = i \<or> Suc i \<le> j" for j by auto
    from 2 [OF False] show ?thesis
      using False step by (simp del: of_nat_Suc) (metis)
  qed
qed auto

lemma free_port_spec:
  "(free_port_loop UDP_MAX_PORT 0 tbl = -1 \<and> (\<forall>p. tbl p \<noteq> NULL)) \<or>
   (\<exists>p. free_port_loop UDP_MAX_PORT 0 tbl = int (unat p) \<and> tbl p = NULL \<and> (\<forall>q < p. tbl q \<noteq> NULL))"
  for tbl :: "u16 \<Rightarrow> ptr"
proof -
  have u: "unat q < UDP_MAX_PORT" for q :: u16
    using unat_bound [of q] by (simp add: UDP_MAX_PORT_def)
  consider "free_port_loop UDP_MAX_PORT 0 tbl = -1" "\<And>k. k < UDP_MAX_PORT \<Longrightarrow> tbl (of_nat k) \<noteq> NULL"
    | k where "free_port_loop UDP_MAX_PORT 0 tbl = int k" "k < UDP_MAX_PORT" "tbl (of_nat k) = NULL"
        "\<And>j. j < k \<Longrightarrow> tbl (of_nat j) \<noteq> NULL"
    using free_port_loop_cases [of UDP_MAX_PORT 0 tbl] by auto
  then show ?thesis
  proof cases
    case 1
    have "tbl p \<noteq> NULL" for p using 1(2) [OF u [of p]] by simp
    then show ?thesis using 1(1) by simp
  next
    case (2 k)
    have uk: "unat (of_nat k :: u16) = k"
      using 2(2) by (simp add: UDP_MAX_PORT_def unat_of_nat)
    have "tbl q \<noteq> NULL" if "q < of_nat k" for q
      using 2(4) [of "unat q"] that uk by (simp add: word_less_nat_alt)
    then show ?thesis using 2(1,3) uk by (intro disjI2 exI [of _ "of_nat k"]) simp
  qed
qed

lemma btable_get_free_port_refine:
  assumes inv: "table_inv s"
  shows "(btable_get_free_port s = -1 \<and> (\<forall>p. bindings s p \<noteq> [])) \<or>
    (\<exists>p. btable_get_free_port s = int (unat p) \<and> bindings s p = [] \<and> (\<forall>q < p. bindings s q \<noteq> []))"
proof -
  note rel = table_inv_rel [OF inv]
  have "bindings s p = [] \<longleftrightarrow> sock_bind_table s p = NULL" for p
    using table_rel_nonempty [OF rel, of p] by (simp add: bindings_eq [OF rel])
  then show ?thesis
    using free_port_spec [of "sock_bind_table s"] unfolding btable_get_free_port_def by metis
qed

subsection \<open>The table as a component\<close>

text \<open>What the callers of the table rely on, between their calls.\<close>

definition table_ok :: "'a bshm_scheme \<Rightarrow> bool" where
  "table_ok s \<longleftrightarrow> table_inv s \<and> geometry_ok s \<and> sizes_ok s"

lemma table_ok_same: "table_ok s \<Longrightarrow> table_inv s' \<Longrightarrow> same_pools s s' \<Longrightarrow> table_ok s'"
  by (simp add: table_ok_def geometry_same_pools [of s] sizes_same_pools [of s])

lemma table_ok_room: "table_ok s \<Longrightarrow> room s"
  by (simp add: table_ok_def table_inv_def geometry_room)

lemma table_ok_add:
  assumes ok: "table_ok s" and n: "n_bound (bindings s) < NUM_SOCKETS_MAX"
  shows "\<exists>r s'. btable_add_binding sk ip port opts s = Some (r, s') \<and> table_ok s' \<and>
    bshm.more s' = bshm.more s \<and>
    (if list_all (compatible ip opts) (bindings s port)
     then r = 0 \<and> bindings s' = (bindings s)(port := insert_binding (new_info sk ip opts) (bindings s port))
     else r = -1 \<and> bindings s' = bindings s)"
proof -
  have inv: "table_inv s" using ok by (simp add: table_ok_def)
  have free: "has_free s K" for K
    using has_free_below [OF inv] ok n by (simp add: table_ok_def)
  show ?thesis
    using btable_add_refine [OF inv table_ok_room [OF ok] free, of sk ip port opts]
      table_ok_same [OF ok] same_pools_more by blast
qed

lemma table_ok_del:
  assumes ok: "table_ok s" and ne: "bindings s port \<noteq> []"
  shows "\<exists>s'. btable_del_binding sk port s = Some s' \<and> table_ok s' \<and>
    bshm.more s' = bshm.more s \<and>
    bindings s' = (bindings s)(port := remove_socket sk (bindings s port))"
proof -
  have inv: "table_inv s" using ok by (simp add: table_ok_def)
  have free: "has_free s IterObj"
    using has_free_below [OF inv] ok by (simp add: table_ok_def)
  show ?thesis
    using btable_del_refine [OF inv room_iter [OF table_ok_room [OF ok]] free ne, of sk]
      table_ok_same [OF ok] same_pools_more by blast
qed

end
