(* ===== verification/Registry.thy ===== *)
theory Registry
  imports Bind_Init
begin

text \<open>
  The interface of the binding table towards the system calls. The locale names what the
  callers use of it; the lemmas in the locale relate the table to the callers' own record of
  who is bound where (\<open>owners_ok\<close>). The table in shared memory is an instance.
\<close>

subsection \<open>Owners of bindings\<close>

text \<open>
  \<open>owners_ok B v\<close>: \<open>B\<close> gives for each bound socket its port and address, and the table \<open>v\<close>
  holds exactly one binding for each of them, under its port.
\<close>

definition owners_ok :: "(u32 \<Rightarrow> (u16 \<times> u32) option) \<Rightarrow> (u16 \<Rightarrow> bind_info list) \<Rightarrow> bool" where
  "owners_ok B v \<longleftrightarrow>
     (\<forall>p. distinct (map bi_sockfd (v p))) \<and>
     (\<forall>p. \<forall>b \<in> set (v p). B (bi_sockfd b) = Some (p, bi_ip b)) \<and>
     (\<forall>sk p ip. B sk = Some (p, ip) \<longrightarrow> sk \<in> bi_sockfd ` set (v p))"

lemma owners_okD:
  assumes "owners_ok B v"
  shows "distinct (map bi_sockfd (v p))" "b \<in> set (v p) \<Longrightarrow> B (bi_sockfd b) = Some (p, bi_ip b)"
    and "B sk = Some (p, ip) \<Longrightarrow> sk \<in> bi_sockfd ` set (v p)"
  using assms by (simp_all add: owners_ok_def)

lemma owners_okI:
  assumes "\<And>p. distinct (map bi_sockfd (v p))"
    and "\<And>p b. b \<in> set (v p) \<Longrightarrow> B (bi_sockfd b) = Some (p, bi_ip b)"
    and "\<And>sk p ip. B sk = Some (p, ip) \<Longrightarrow> sk \<in> bi_sockfd ` set (v p)"
  shows "owners_ok B v"
  using assms by (simp add: owners_ok_def)

lemma new_info_simps [simp]:
  "bi_sockfd (new_info sk ip opts) = sk" "bi_ip (new_info sk ip opts) = ip"
  "bi_closed (new_info sk ip opts) = False"
  "bi_reuse_port (new_info sk ip opts) \<longleftrightarrow> opts AND SO_REUSEPORT \<noteq> 0"
  by (simp_all add: new_info_def)

lemma set_insert_binding [simp]: "set (insert_binding b bs) = insert b (set bs)"
  by (auto simp: insert_binding_def)

lemma distinct_insert_binding:
  "distinct (map bi_sockfd (insert_binding b bs)) \<longleftrightarrow>
    bi_sockfd b \<notin> bi_sockfd ` set bs \<and> distinct (map bi_sockfd bs)"
  by (auto simp: insert_binding_def)

lemma remove_inserted:
  assumes "sk \<notin> bi_sockfd ` set bs"
  shows "remove_socket sk (insert_binding (new_info sk ip opts) bs) = bs"
proof -
  have ne: "bi_sockfd b \<noteq> sk" if "b \<in> set bs" for b using assms that by auto
  have "remove_socket sk (bs @ [new_info sk ip opts]) = bs"
    using remove_socket_hit [of bs sk "new_info sk ip opts" "[]"] ne by simp
  then show ?thesis by (simp add: insert_binding_def)
qed

lemma remove_socket_filter:
  "distinct (map bi_sockfd bs) \<Longrightarrow> remove_socket sk bs = filter (\<lambda>b. bi_sockfd b \<noteq> sk) bs"
proof (induction bs)
  case (Cons b bs)
  have "filter (\<lambda>b. bi_sockfd b \<noteq> sk) bs = bs" if "bi_sockfd b = sk"
    using that Cons.prems by (intro filter_True) (auto simp: image_iff)
  with Cons show ?case by auto
qed simp

lemma owners_absent: "owners_ok B v \<Longrightarrow> B sk = None \<Longrightarrow> sk \<notin> bi_sockfd ` set (v p)"
  using owners_okD(2) [of B v _ p] by fastforce

lemma owners_add:
  assumes "owners_ok B v" "B sk = None"
  shows "owners_ok (B(sk \<mapsto> (p, ip))) (v(p := insert_binding (new_info sk ip opts) (v p)))"
proof (rule owners_okI)
  note D = owners_okD [OF assms(1)] and A = owners_absent [OF assms]
  show "distinct (map bi_sockfd ((v(p := insert_binding (new_info sk ip opts) (v p))) q))" for q
    using D(1) A by (simp add: distinct_insert_binding)
  show "(B(sk \<mapsto> (p, ip))) (bi_sockfd b) = Some (q, bi_ip b)"
    if "b \<in> set ((v(p := insert_binding (new_info sk ip opts) (v p))) q)" for q b
  proof (cases "b = new_info sk ip opts \<and> q = p")
    case False
    then have b: "b \<in> set (v q)" using that by (auto split: if_splits)
    then have "bi_sockfd b \<noteq> sk" using A [of q] by blast
    then show ?thesis using D(2) [OF b] by simp
  qed simp
  show "x \<in> bi_sockfd ` set ((v(p := insert_binding (new_info sk ip opts) (v p))) q)"
    if "(B(sk \<mapsto> (p, ip))) x = Some (q, ip')" for x q ip'
    using that D(3) [of x q ip'] by (auto split: if_splits)
qed

lemma owners_del:
  assumes "owners_ok B v" "B sk = Some (p, ip)"
  shows "owners_ok (B(sk := None)) (v(p := remove_socket sk (v p)))"
proof (rule owners_okI)
  note D = owners_okD [OF assms(1)]
  have r: "remove_socket sk (v p) = filter (\<lambda>b. bi_sockfd b \<noteq> sk) (v p)"
    by (rule remove_socket_filter [OF D(1)])
  show "distinct (map bi_sockfd ((v(p := remove_socket sk (v p))) q))" for q
    using D(1) by (simp add: r distinct_map_filter)
  show "(B(sk := None)) (bi_sockfd b) = Some (q, bi_ip b)"
    if "b \<in> set ((v(p := remove_socket sk (v p))) q)" for q b
  proof -
    have b: "b \<in> set (v q)" "q = p \<Longrightarrow> bi_sockfd b \<noteq> sk"
      using that by (auto simp: r split: if_splits)
    then have "bi_sockfd b \<noteq> sk" using D(2) [OF b(1)] assms(2) by auto
    then show ?thesis using D(2) [OF b(1)] by simp
  qed
  show "x \<in> bi_sockfd ` set ((v(p := remove_socket sk (v p))) q)"
    if "(B(sk := None)) x = Some (q, ip')" for x q ip'
    using that D(3) [of x q ip'] by (auto simp: r split: if_splits)
qed

text \<open>The table holds as many bindings as there are bound sockets.\<close>

lemma owners_count:
  assumes "owners_ok B v"
  shows "n_bound v = card (dom B)"
proof -
  note D = owners_okD [OF assms]
  let ?S = "\<lambda>p. bi_sockfd ` set (v p)"
  have "n_bound v = (\<Sum>p\<in>UNIV. card (?S p))"
    unfolding n_bound_def
  proof (rule sum.cong [OF refl])
    show "length (v p) = card (?S p)" for p
      using distinct_card [OF D(1) [of p]] by simp
  qed
  also have "\<dots> = card (\<Union>p. ?S p)"
  proof (rule card_UN_disjoint [symmetric])
    show "\<forall>p\<in>UNIV. \<forall>q\<in>UNIV. p \<noteq> q \<longrightarrow> ?S p \<inter> ?S q = {}"
    proof (intro ballI impI)
      fix p q :: u16 assume "p \<noteq> q"
      have "False" if "b \<in> set (v p)" "c \<in> set (v q)" "bi_sockfd b = bi_sockfd c" for b c
        using D(2) [OF that(1)] D(2) [OF that(2)] that(3) \<open>p \<noteq> q\<close> by simp
      then show "?S p \<inter> ?S q = {}" by blast
    qed
  qed auto
  also have "(\<Union>p. ?S p) = dom B"
    using D(2,3) by (fastforce simp: dom_def)
  finally show ?thesis .
qed

subsection \<open>The interface\<close>

text \<open>
  \<open>add\<close> and \<open>del\<close> are the two operations that change the table, \<open>view\<close> is what it holds,
  \<open>ok\<close> its invariant and \<open>rest\<close> the part of the state that is not the table's.
\<close>

locale bind_registry =
  fixes add :: "u32 \<Rightarrow> u32 \<Rightarrow> u16 \<Rightarrow> u32 \<Rightarrow> 's \<Rightarrow> (int \<times> 's) option"
    and del :: "u32 \<Rightarrow> u16 \<Rightarrow> 's \<Rightarrow> 's option"
    and view :: "'s \<Rightarrow> u16 \<Rightarrow> bind_info list"
    and ok :: "'s \<Rightarrow> bool"
    and rest :: "'s \<Rightarrow> 'r"
    and cap :: nat
  assumes add_law: "ok s \<Longrightarrow> n_bound (view s) < cap \<Longrightarrow>
      \<exists>r s'. add sk ip port opts s = Some (r, s') \<and> ok s' \<and> rest s' = rest s \<and>
        (if list_all (compatible ip opts) (view s port)
         then r = 0 \<and> view s' = (view s)(port := insert_binding (new_info sk ip opts) (view s port))
         else r = -1 \<and> view s' = view s)"
    and del_law: "ok s \<Longrightarrow> view s port \<noteq> [] \<Longrightarrow>
      \<exists>s'. del sk port s = Some s' \<and> ok s' \<and> rest s' = rest s \<and>
        view s' = (view s)(port := remove_socket sk (view s port))"
begin

lemma register:
  assumes "ok s" "owners_ok B (view s)" "B sk = None" "card (dom B) < cap"
    and "list_all (compatible ip opts) (view s port)"
  shows "\<exists>s'. add sk ip port opts s = Some (0, s') \<and> ok s' \<and> rest s' = rest s \<and>
    owners_ok (B(sk \<mapsto> (port, ip))) (view s') \<and>
    view s' = (view s)(port := insert_binding (new_info sk ip opts) (view s port))"
  using add_law [OF assms(1), of sk ip port opts] owners_count [OF assms(2)] assms(4,5)
    owners_add [OF assms(2,3)] by auto

lemma refuse:
  assumes "ok s" "owners_ok B (view s)" "card (dom B) < cap"
    and "\<not> list_all (compatible ip opts) (view s port)"
  shows "\<exists>s'. add sk ip port opts s = Some (-1, s') \<and> ok s' \<and> rest s' = rest s \<and> view s' = view s"
  using add_law [OF assms(1), of sk ip port opts] owners_count [OF assms(2)] assms(3,4) by auto

lemma unregister:
  assumes "ok s" "owners_ok B (view s)" "B sk = Some (port, ip)"
  shows "\<exists>s'. del sk port s = Some s' \<and> ok s' \<and> rest s' = rest s \<and>
    owners_ok (B(sk := None)) (view s') \<and>
    view s' = (view s)(port := remove_socket sk (view s port))"
proof -
  have "view s port \<noteq> []" using owners_okD(3) [OF assms(2,3)] by auto
  then show ?thesis using del_law [OF assms(1), of port sk] owners_del [OF assms(2,3)] by auto
qed

text \<open>Undoing a binding gives the table back.\<close>

lemma register_unregister:
  assumes "ok s" "owners_ok B (view s)" "B sk = None" "card (dom B) < cap"
    and "list_all (compatible ip opts) (view s port)"
  shows "\<exists>s1 s2. add sk ip port opts s = Some (0, s1) \<and> del sk port s1 = Some s2 \<and>
    ok s2 \<and> rest s2 = rest s \<and> view s2 = view s"
proof -
  obtain s1 where s1: "add sk ip port opts s = Some (0, s1)" "ok s1" "rest s1 = rest s"
      "owners_ok (B(sk \<mapsto> (port, ip))) (view s1)"
      "view s1 = (view s)(port := insert_binding (new_info sk ip opts) (view s port))"
    using register [OF assms] by blast
  obtain s2 where s2: "del sk port s1 = Some s2" "ok s2" "rest s2 = rest s1"
      "view s2 = (view s1)(port := remove_socket sk (view s1 port))"
    using unregister [OF s1(2,4), of sk port ip] by auto
  have "remove_socket sk (insert_binding (new_info sk ip opts) (view s port)) = view s port"
    by (rule remove_inserted [OF owners_absent [OF assms(2,3)]])
  then have "view s2 = view s" using s1(5) s2(4) by auto
  with s1 s2 show ?thesis by auto
qed

end

text \<open>The table in shared memory provides it.\<close>

interpretation bt: bind_registry btable_add_binding btable_del_binding bindings table_ok
    bshm.more NUM_SOCKETS_MAX
proof (unfold_locales, goal_cases)
  case (1 s sk ip port opts)
  then show ?case using table_ok_add [of s sk ip port opts] by blast
next
  case (2 s port sk)
  then show ?case using table_ok_del [of s port sk] by blast
qed

end
