(* ===== verification/Sockets.thy ===== *)
theory Sockets
  imports Registry
begin

text \<open>
  The socket calls of \<open>udpdk/udpdk_syscall.c\<close> that work on the exchange zone and the binding
  table: opening, options, binding and closing. A C \<open>int\<close> is a \<open>u32\<close>, read with \<open>sint\<close>
  where the code compares it as a signed number. \<open>None\<close> is an undefined outcome: a \<open>NULL\<close>
  dereference, or an access outside an array (the calls do not check their descriptor before
  they use it as an index).
\<close>

subsection \<open>State\<close>

text \<open>\<open>struct exch_slot_info\<close>.\<close>

record slot_info =
  used :: u32
  bound :: u32
  slot_sockfd :: u32
  udp_port :: u32
  ip_addr :: u32
  so_options :: u32

datatype error = EINTR | EBADF | ENOMEM | EFAULT | EINVAL | ENOTSOCK | ENOPROTOOPT
  | EPROTONOSUPPORT | EAFNOSUPPORT | EADDRINUSE | ENOBUFS

text \<open>
  \<open>struct exch_zone_info\<close> and the thread's \<open>errno\<close>, beside the binding table. \<open>slots\<close> is the
  array of \<open>NUM_SOCKETS_MAX\<close> slots; every access goes through \<open>slot_at\<close> or the loop of
  \<open>udpdk_socket\<close>, which stay inside it.
\<close>

record sstate = bshm +
  n_zones_active :: u64
  slots :: "nat \<Rightarrow> slot_info"
  errno :: "error option"

definition slot_at :: "u32 \<Rightarrow> 'a sstate_scheme \<Rightarrow> slot_info option" where
  "slot_at fd s = (if unat fd < NUM_SOCKETS_MAX then Some (slots s (unat fd)) else None)"

definition set_slot :: "u32 \<Rightarrow> slot_info \<Rightarrow> 'a sstate_scheme \<Rightarrow> 'a sstate_scheme" where
  "set_slot fd v s = s\<lparr>slots := (slots s)(unat fd := v)\<rparr>"

definition fail :: "error \<Rightarrow> 'a sstate_scheme \<Rightarrow> int \<times> 'a sstate_scheme" where
  "fail e s = (-1, s\<lparr>errno := Some e\<rparr>)"

text \<open>Constants of the system headers.\<close>

definition AF_INET :: u32 where "AF_INET = 2"
definition SOCK_DGRAM :: u32 where "SOCK_DGRAM = 2"
definition IPPROTO_UDP :: u32 where "IPPROTO_UDP = 17"
definition SOL_SOCKET :: u32 where "SOL_SOCKET = 1"

subsection \<open>Opening\<close>

definition socket_validate_args ::
  "u32 \<Rightarrow> u32 \<Rightarrow> u32 \<Rightarrow> 'a sstate_scheme \<Rightarrow> int \<times> 'a sstate_scheme" where
  "socket_validate_args family type protocol s =
     (if family \<noteq> AF_INET then fail EAFNOSUPPORT s
      else if type \<noteq> SOCK_DGRAM then fail EPROTONOSUPPORT s
      else if protocol \<noteq> 0 \<and> protocol \<noteq> IPPROTO_UDP then fail EINVAL s
      else (0, s))"

text \<open>The loop over the slots: it stops at the first unused one, or at \<open>NUM_SOCKETS_MAX\<close>.\<close>

fun free_slot_loop :: "nat \<Rightarrow> nat \<Rightarrow> (nat \<Rightarrow> slot_info) \<Rightarrow> nat" where
  "free_slot_loop 0 i sl = i"
| "free_slot_loop (Suc n) i sl = (if used (sl i) = 0 then i else free_slot_loop n (Suc i) sl)"

definition open_slot :: "nat \<Rightarrow> slot_info \<Rightarrow> slot_info" where
  "open_slot i v = v\<lparr>used := 1, bound := 0, slot_sockfd := of_nat i, so_options := 0\<rparr>"

definition udpdk_socket :: "u32 \<Rightarrow> u32 \<Rightarrow> u32 \<Rightarrow> 'a sstate_scheme \<Rightarrow> int \<times> 'a sstate_scheme" where
  "udpdk_socket family type protocol s =
     (let (r, s) = socket_validate_args family type protocol s
      in if r < 0 then (-1, s)
         else if of_nat NUM_SOCKETS_MAX < n_zones_active s then fail ENOBUFS s
         else let sock_id = free_slot_loop NUM_SOCKETS_MAX 0 (slots s)
              in if sock_id = NUM_SOCKETS_MAX then fail ENOBUFS s
                 else (int sock_id,
                       s\<lparr>slots := (slots s)(sock_id := open_slot sock_id (slots s sock_id)),
                         n_zones_active := n_zones_active s + 1\<rparr>))"

subsection \<open>Options\<close>

text \<open>\<open>optval\<close> and \<open>optlen\<close> are pointers: \<open>None\<close> is \<open>NULL\<close>.\<close>

definition getsetsockopt_validate_args ::
  "u32 \<Rightarrow> u32 \<Rightarrow> u32 \<Rightarrow> u32 option \<Rightarrow> u32 option \<Rightarrow> 'a sstate_scheme \<Rightarrow>
    (int \<times> 'a sstate_scheme) option" where
  "getsetsockopt_validate_args fd level optname optval optlen s = do {
     sl \<leftarrow> slot_at fd s;
     Some (if used sl = 0 then fail EBADF s
           else if level \<noteq> SOL_SOCKET then fail EINVAL s
           else if optname \<noteq> SO_REUSEADDR \<and> optname \<noteq> SO_REUSEPORT then fail ENOPROTOOPT s
           else if optval = None \<or> optlen = None then fail EFAULT s
           else (0, s)) }"

text \<open>The result: the returned value, what \<open>optval\<close> then points to, and the state.\<close>

definition udpdk_getsockopt ::
  "u32 \<Rightarrow> u32 \<Rightarrow> u32 \<Rightarrow> u32 option \<Rightarrow> u32 option \<Rightarrow> 'a sstate_scheme \<Rightarrow>
    (int \<times> u32 option \<times> 'a sstate_scheme) option" where
  "udpdk_getsockopt fd level optname optval optlen s = do {
     (r, s) \<leftarrow> getsetsockopt_validate_args fd level optname optval optlen s;
     if r < 0 then Some (-1, optval, s)
     else if level = SOL_SOCKET then
       (if optname = SO_REUSEADDR then do {
          sl \<leftarrow> slot_at fd s;
          Some (0, Some (of_bool (so_options sl AND SO_REUSEADDR \<noteq> 0)), s) }
        else if optname = SO_REUSEPORT then do {
          sl \<leftarrow> slot_at fd s;
          Some (0, Some (of_bool (so_options sl AND SO_REUSEPORT \<noteq> 0)), s) }
        else (let (r, s) = fail ENOPROTOOPT s in Some (r, optval, s)))
     else (let (r, s) = fail EINVAL s in Some (r, optval, s)) }"

text \<open>Setting or resetting the bits of an option in \<open>so_options\<close>.\<close>

definition change_opt :: "u32 \<Rightarrow> u32 \<Rightarrow> slot_info \<Rightarrow> slot_info" where
  "change_opt opt v sl =
     (let prev_set = so_options sl AND opt
      in if v \<noteq> 0 \<and> prev_set = 0 then sl\<lparr>so_options := so_options sl OR opt\<rparr>
         else if v = 0 \<and> prev_set \<noteq> 0 then sl\<lparr>so_options := so_options sl AND NOT opt\<rparr>
         else sl)"

definition udpdk_setsockopt ::
  "u32 \<Rightarrow> u32 \<Rightarrow> u32 \<Rightarrow> u32 option \<Rightarrow> u32 \<Rightarrow> 'a sstate_scheme \<Rightarrow> (int \<times> 'a sstate_scheme) option" where
  "udpdk_setsockopt fd level optname optval optlen s = do {
     (r, s) \<leftarrow> getsetsockopt_validate_args fd level optname optval (Some optlen) s;
     if r < 0 then Some (-1, s)
     else if level = SOL_SOCKET then
       (if optname = SO_REUSEADDR then do {
          sl \<leftarrow> slot_at fd s;
          v \<leftarrow> optval;
          Some (0, set_slot fd (change_opt SO_REUSEADDR v sl) s) }
        else if optname = SO_REUSEPORT then do {
          sl \<leftarrow> slot_at fd s;
          v \<leftarrow> optval;
          Some (0, set_slot fd (change_opt SO_REUSEPORT v sl) s) }
        else Some (fail ENOPROTOOPT s))
     else Some (fail EINVAL s) }"

subsection \<open>Binding and closing\<close>

text \<open>A \<open>struct sockaddr_in\<close>; port and address in network byte order.\<close>

record sockaddr_in =
  sin_family :: u16
  sin_port :: u16
  sin_addr :: u32

definition sizeof_sockaddr_in :: nat where
  "sizeof_sockaddr_in = 16"

definition bind_validate_args ::
  "u32 \<Rightarrow> sockaddr_in option \<Rightarrow> u32 \<Rightarrow> 'a sstate_scheme \<Rightarrow> (int \<times> 'a sstate_scheme) option" where
  "bind_validate_args fd addr addrlen s = do {
     sl \<leftarrow> slot_at fd s;
     if used sl = 0 then Some (fail EBADF s)
     else if bound sl \<noteq> 0 then Some (fail EINVAL s)
     else do {
       a \<leftarrow> addr;
       Some (if ucast (sin_family a) \<noteq> AF_INET then fail EINVAL s
             else if addrlen \<noteq> of_nat sizeof_sockaddr_in then fail EINVAL s
             else (0, s)) } }"

definition udpdk_bind ::
  "u32 \<Rightarrow> sockaddr_in option \<Rightarrow> u32 \<Rightarrow> 'a sstate_scheme \<Rightarrow> (int \<times> 'a sstate_scheme) option" where
  "udpdk_bind fd addr addrlen s = do {
     (r, s) \<leftarrow> bind_validate_args fd addr addrlen s;
     if r < 0 then Some (-1, s)
     else do {
       a \<leftarrow> addr;
       sl \<leftarrow> slot_at fd s;
       (r, s) \<leftarrow> btable_add_binding fd (sin_addr a) (sin_port a) (so_options sl) s;
       if r < 0 then Some (fail EADDRINUSE s)
       else do {
         sl \<leftarrow> slot_at fd s;
         Some (0, set_slot fd (sl\<lparr>bound := 1, udp_port := ucast (sin_port a),
                                 ip_addr := sin_addr a\<rparr>) s) } } }"

text \<open>The port kept in a slot is an \<open>int\<close> and an index of the table.\<close>

definition port_index :: "u32 \<Rightarrow> u16 option" where
  "port_index p = (if unat p < UDP_MAX_PORT then Some (ucast p) else None)"

definition close_validate_args :: "u32 \<Rightarrow> 'a sstate_scheme \<Rightarrow> (int \<times> 'a sstate_scheme) option" where
  "close_validate_args fd s = do {
     sl \<leftarrow> slot_at fd s;
     Some (if used sl = 0 then fail EBADF s else (0, s)) }"

definition udpdk_close :: "u32 \<Rightarrow> 'a sstate_scheme \<Rightarrow> (int \<times> 'a sstate_scheme) option" where
  "udpdk_close fd s = do {
     (r, s) \<leftarrow> close_validate_args fd s;
     if r \<noteq> 0 then Some (-1, s)
     else do {
       sl \<leftarrow> slot_at fd s;
       s \<leftarrow> (if bound sl \<noteq> 0 then do {
               port \<leftarrow> port_index (udp_port sl);
               btable_del_binding fd port s }
             else Some s);
       sl \<leftarrow> slot_at fd s;
       let s = set_slot fd (sl\<lparr>bound := 0, used := 0, so_options := 0\<rparr>) s;
       Some (0, s\<lparr>n_zones_active := n_zones_active s + 1\<rparr>) } }"

lemmas [code_defs] = fail_def set_slot_def slot_at_def

end
