(* ===== verification/Socket_Inv.thy ===== *)
theory Socket_Inv
  imports Sockets
begin

text \<open>
  The invariant that ties the slots to the binding table, and what each socket call does to
  the two. The table is used through the interface of \<open>Registry\<close> only.
\<close>

subsection \<open>The table inside the larger state\<close>

lemma table_cong:
  assumes "mem s' = mem s" "\<And>K. alloc_of s' K = alloc_of s K" "sock_bind_table s' = sock_bind_table s"
  shows "table_ok s' \<longleftrightarrow> table_ok s" and "bindings s' = bindings s"
proof -
  have "footprint_of s' = footprint_of s"
    using assms(2) by (simp add: fun_eq_iff footprint_of_def)
  then show "table_ok s' \<longleftrightarrow> table_ok s"
    unfolding table_ok_def table_inv_def allocs_ok_def geometry_ok_def pools_apart_def elems_fit_def
      sizes_ok_def assms by simp
  show "bindings s' = bindings s"
    by (rule ext) (simp add: bindings_def assms)
qed

lemma alloc_of_slots [simp]:
  "alloc_of (s\<lparr>slots := x\<rparr>) K = alloc_of s K" "alloc_of (s\<lparr>n_zones_active := n\<rparr>) K = alloc_of s K"
  "alloc_of (s\<lparr>errno := e\<rparr>) K = alloc_of s K"
  by (cases K; simp)+

lemma table_slots [simp]:
  "table_ok (s\<lparr>slots := x\<rparr>) = table_ok s" "table_ok (s\<lparr>n_zones_active := n\<rparr>) = table_ok s"
  "table_ok (s\<lparr>errno := e\<rparr>) = table_ok s"
  by (rule table_cong(1); simp)+

lemma bindings_slots [simp]:
  "bindings (s\<lparr>slots := x\<rparr>) = bindings s" "bindings (s\<lparr>n_zones_active := n\<rparr>) = bindings s"
  "bindings (s\<lparr>errno := e\<rparr>) = bindings s"
  by (rule table_cong(2); simp)+

lemma rest_fields:
  "bshm.more s' = bshm.more s \<Longrightarrow>
    slots s' = slots s \<and> n_zones_active s' = n_zones_active s \<and> errno s' = errno s \<and>
    sstate.more s' = sstate.more s"
  for s :: "'a sstate_scheme"
  by (cases s; cases s') simp

subsection \<open>The invariant\<close>

definition owner_of :: "(nat \<Rightarrow> slot_info) \<Rightarrow> u32 \<Rightarrow> (u16 \<times> u32) option" where
  "owner_of sl fd = (if unat fd < NUM_SOCKETS_MAX \<and> bound (sl (unat fd)) \<noteq> 0
     then Some (ucast (udp_port (sl (unat fd))), ip_addr (sl (unat fd))) else None)"

definition slot_ok :: "slot_info \<Rightarrow> bool" where
  "slot_ok v \<longleftrightarrow> (bound v \<noteq> 0 \<longrightarrow> used v \<noteq> 0 \<and> unat (udp_port v) < UDP_MAX_PORT)"

definition sock_inv :: "'a sstate_scheme \<Rightarrow> bool" where
  "sock_inv s \<longleftrightarrow> table_ok s \<and> owners_ok (owner_of (slots s)) (bindings s) \<and>
     (\<forall>i < NUM_SOCKETS_MAX. slot_ok (slots s i))"

lemma sock_invD:
  assumes "sock_inv s"
  shows "table_ok s" "owners_ok (owner_of (slots s)) (bindings s)"
    "i < NUM_SOCKETS_MAX \<Longrightarrow> slot_ok (slots s i)"
  using assms by (simp_all add: sock_inv_def)

lemma sock_invI:
  assumes "table_ok s" "owners_ok (owner_of (slots s)) (bindings s)"
    "\<And>i. i < NUM_SOCKETS_MAX \<Longrightarrow> slot_ok (slots s i)"
  shows "sock_inv s"
  using assms by (simp add: sock_inv_def)

lemma sock_inv_other [simp]:
  "sock_inv (s\<lparr>n_zones_active := n\<rparr>) = sock_inv s" "sock_inv (s\<lparr>errno := e\<rparr>) = sock_inv s"
  by (simp_all add: sock_inv_def)

lemma fail_simps [simp]:
  "fst (fail e s) = -1" "sock_inv (snd (fail e s)) = sock_inv s"
  "slots (snd (fail e s)) = slots s" "bindings (snd (fail e s)) = bindings s"
  "errno (snd (fail e s)) = Some e" "n_zones_active (snd (fail e s)) = n_zones_active s"
  "sstate.more (snd (fail e s)) = sstate.more s"
  by (simp_all add: fail_def)

lemma owner_upd:
  assumes "i < NUM_SOCKETS_MAX"
  shows "owner_of (sl(i := v)) = (owner_of sl)(of_nat i :=
    (if bound v \<noteq> 0 then Some (ucast (udp_port v), ip_addr v) else None))"
proof
  fix fd :: u32
  have "unat (of_nat i :: u32) = i"
    using assms by (simp add: NUM_SOCKETS_MAX_def unat_of_nat)
  then have "unat fd = i \<longleftrightarrow> fd = of_nat i" by auto
  then show "owner_of (sl(i := v)) fd = ((owner_of sl)(of_nat i :=
      (if bound v \<noteq> 0 then Some (ucast (udp_port v), ip_addr v) else None))) fd"
    using assms \<open>unat (of_nat i) = i\<close> by (auto simp: owner_of_def)
qed

text \<open>An unbound socket leaves room in the table for its binding.\<close>

lemma owner_room:
  assumes "unat fd < NUM_SOCKETS_MAX" "bound (sl (unat fd)) = 0"
  shows "owner_of sl fd = None" and "card (dom (owner_of sl)) < NUM_SOCKETS_MAX"
proof -
  show none: "owner_of sl fd = None" using assms by (simp add: owner_of_def)
  have "unat ` dom (owner_of sl) \<subseteq> {..<NUM_SOCKETS_MAX} - {unat fd}"
  proof
    fix k assume "k \<in> unat ` dom (owner_of sl)"
    then obtain x where "k = unat x" "owner_of sl x \<noteq> None" by auto
    then show "k \<in> {..<NUM_SOCKETS_MAX} - {unat fd}"
      using none by (auto simp: owner_of_def split: if_splits)
  qed
  then have "card (unat ` dom (owner_of sl)) \<le> card ({..<NUM_SOCKETS_MAX} - {unat fd})"
    by (intro card_mono) auto
  moreover have "card (unat ` dom (owner_of sl)) = card (dom (owner_of sl))"
    by (intro card_image inj_onI) (simp only: word_unat_eq_iff)
  moreover have "card ({..<NUM_SOCKETS_MAX} - {unat fd}) < NUM_SOCKETS_MAX"
    using assms(1) by (simp add: NUM_SOCKETS_MAX_def)
  ultimately show "card (dom (owner_of sl)) < NUM_SOCKETS_MAX" by simp
qed

subsection \<open>Opening\<close>

lemma free_slot_loop_spec:
  "i \<le> free_slot_loop n i sl \<and> free_slot_loop n i sl \<le> i + n \<and>
   (\<forall>j. i \<le> j \<and> j < free_slot_loop n i sl \<longrightarrow> used (sl j) \<noteq> 0) \<and>
   (free_slot_loop n i sl < i + n \<longrightarrow> used (sl (free_slot_loop n i sl)) = 0)"
proof (induction n i sl rule: free_slot_loop.induct)
  case (2 n i sl)
  show ?case
  proof (cases "used (sl i) = 0")
    case False
    have "used (sl j) \<noteq> 0" if "i \<le> j" "j < free_slot_loop n (Suc i) sl" for j
      using 2 [OF False] False that by (cases "j = i") auto
    then show ?thesis using 2 [OF False] False by simp
  qed auto
qed auto

text \<open>The descriptor that \<open>udpdk_socket\<close> gives out, when it gives one out.\<close>

lemma udpdk_socket_cases:
  assumes args: "family = AF_INET" "type = SOCK_DGRAM" "protocol = 0 \<or> protocol = IPPROTO_UDP"
    and n: "n_zones_active s \<le> of_nat NUM_SOCKETS_MAX"
  shows "if \<exists>i < NUM_SOCKETS_MAX. used (slots s i) = 0
    then \<exists>i. udpdk_socket family type protocol s = (int i, s\<lparr>slots := (slots s)(i := open_slot i (slots s i)),
           n_zones_active := n_zones_active s + 1\<rparr>) \<and>
         i < NUM_SOCKETS_MAX \<and> used (slots s i) = 0 \<and> (\<forall>j < i. used (slots s j) \<noteq> 0)
    else udpdk_socket family type protocol s = fail ENOBUFS s"
proof -
  let ?i = "free_slot_loop NUM_SOCKETS_MAX 0 (slots s)"
  have v: "socket_validate_args family type protocol s = (0, s)"
    using args by (auto simp: socket_validate_args_def)
  have f: "?i \<le> NUM_SOCKETS_MAX" "\<And>j. j < ?i \<Longrightarrow> used (slots s j) \<noteq> 0"
      "?i < NUM_SOCKETS_MAX \<Longrightarrow> used (slots s ?i) = 0"
    using free_slot_loop_spec [of 0 NUM_SOCKETS_MAX "slots s"] by auto
  show ?thesis
  proof (cases "?i = NUM_SOCKETS_MAX")
    case True
    then show ?thesis using f n by (auto simp: udpdk_socket_def v)
  next
    case False
    then have i: "?i < NUM_SOCKETS_MAX" using f(1) by simp
    have "udpdk_socket family type protocol s = (int ?i, s\<lparr>slots := (slots s)(?i := open_slot ?i (slots s ?i)),
        n_zones_active := n_zones_active s + 1\<rparr>)"
      using n False by (simp add: udpdk_socket_def v not_less [symmetric] Let_def)
    then show ?thesis using i f(2,3) by auto
  qed
qed

lemma sock_inv_open:
  assumes inv: "sock_inv s" and i: "i < NUM_SOCKETS_MAX" "used (slots s i) = 0"
  shows "sock_inv (s\<lparr>slots := (slots s)(i := open_slot i (slots s i))\<rparr>)"
proof (rule sock_invI)
  have "bound (slots s i) = 0" using sock_invD(3) [OF inv i(1)] i(2) by (simp add: slot_ok_def)
  moreover have "unat (of_nat i :: u32) = i"
    using i(1) by (simp add: NUM_SOCKETS_MAX_def unat_of_nat)
  ultimately have "owner_of ((slots s)(i := open_slot i (slots s i))) = owner_of (slots s)"
    unfolding owner_upd [OF i(1)] by (auto simp: open_slot_def owner_of_def)
  then show "owners_ok (owner_of (slots (s\<lparr>slots := (slots s)(i := open_slot i (slots s i))\<rparr>)))
      (bindings (s\<lparr>slots := (slots s)(i := open_slot i (slots s i))\<rparr>))"
    using sock_invD(2) [OF inv] by simp
qed (use sock_invD [OF inv] in \<open>auto simp: slot_ok_def open_slot_def\<close>)

subsection \<open>Binding\<close>

text \<open>A well-formed address argument.\<close>

definition good_addr :: "sockaddr_in \<Rightarrow> u32 \<Rightarrow> bool" where
  "good_addr a addrlen \<longleftrightarrow> ucast (sin_family a) = AF_INET \<and> addrlen = of_nat sizeof_sockaddr_in"

lemma slot_at_in: "unat fd < NUM_SOCKETS_MAX \<Longrightarrow> slot_at fd s = Some (slots s (unat fd))"
  by (simp add: slot_at_def)

lemma bind_valid:
  assumes "unat fd < NUM_SOCKETS_MAX" "used (slots s (unat fd)) \<noteq> 0" "bound (slots s (unat fd)) = 0"
    and "good_addr a addrlen"
  shows "bind_validate_args fd (Some a) addrlen s = Some (0, s)"
  using assms by (simp add: bind_validate_args_def slot_at_in good_addr_def)

text \<open>The slot of a bound socket.\<close>

definition bound_slot :: "sockaddr_in \<Rightarrow> slot_info \<Rightarrow> slot_info" where
  "bound_slot a v = v\<lparr>bound := 1, udp_port := ucast (sin_port a), ip_addr := sin_addr a\<rparr>"

lemma bound_slot_ok: "used v \<noteq> 0 \<Longrightarrow> slot_ok (bound_slot a v)"
  using unat_bound [of "sin_port a"] by (simp add: slot_ok_def bound_slot_def UDP_MAX_PORT_def)

lemma ucast_port [simp]: "(ucast (ucast p :: u32) :: u16) = p"
  by (simp add: ucast_down_ucast_id is_down)

lemma udpdk_bind_done:
  assumes inv: "sock_inv s" and fd: "unat fd < NUM_SOCKETS_MAX"
    and sl: "used (slots s (unat fd)) \<noteq> 0" "bound (slots s (unat fd)) = 0" and a: "good_addr a addrlen"
    and c: "list_all (compatible (sin_addr a) (so_options (slots s (unat fd)))) (bindings s (sin_port a))"
  shows "\<exists>s'. udpdk_bind fd (Some a) addrlen s = Some (0, s') \<and> sock_inv s' \<and>
    slots s' = (slots s)(unat fd := bound_slot a (slots s (unat fd))) \<and>
    n_zones_active s' = n_zones_active s \<and> errno s' = errno s \<and> sstate.more s' = sstate.more s \<and>
    bindings s' = (bindings s)(sin_port a := insert_binding
      (new_info fd (sin_addr a) (so_options (slots s (unat fd)))) (bindings s (sin_port a)))"
proof -
  let ?o = "so_options (slots s (unat fd))"
  note I = sock_invD [OF inv] and R = owner_room [where sl = "slots s", OF fd sl(2)]
  obtain s1 where s1: "btable_add_binding fd (sin_addr a) (sin_port a) ?o s = Some (0, s1)" "table_ok s1"
      "bshm.more s1 = bshm.more s"
      "owners_ok ((owner_of (slots s))(fd \<mapsto> (sin_port a, sin_addr a))) (bindings s1)"
      "bindings s1 = (bindings s)(sin_port a := insert_binding (new_info fd (sin_addr a) ?o) (bindings s (sin_port a)))"
    using bt.register [OF I(1,2) R c] by blast
  note f = rest_fields [OF s1(3)]
  let ?v = "bound_slot a (slots s (unat fd))"
  let ?s' = "s1\<lparr>slots := (slots s)(unat fd := ?v)\<rparr>"
  have run: "udpdk_bind fd (Some a) addrlen s = Some (0, ?s')"
    using s1(1) f slot_at_in [OF fd, of s] slot_at_in [OF fd, of s1] bind_valid [OF fd sl a]
    by (simp add: udpdk_bind_def set_slot_def bound_slot_def)
  have "sock_inv ?s'"
  proof (rule sock_invI)
    show "owners_ok (owner_of (slots ?s')) (bindings ?s')"
      using s1(4) by (simp add: owner_upd [OF fd] bound_slot_def)
    show "slot_ok (slots ?s' i)" if "i < NUM_SOCKETS_MAX" for i
      using I(3) [OF that] bound_slot_ok [OF sl(1)] by simp
  qed (use s1(2) in simp)
  then show ?thesis using run f s1(5) by (intro exI [of _ ?s']) simp
qed

lemma udpdk_bind_in_use:
  assumes inv: "sock_inv s" and fd: "unat fd < NUM_SOCKETS_MAX"
    and sl: "used (slots s (unat fd)) \<noteq> 0" "bound (slots s (unat fd)) = 0" and a: "good_addr a addrlen"
    and c: "\<not> list_all (compatible (sin_addr a) (so_options (slots s (unat fd)))) (bindings s (sin_port a))"
  shows "\<exists>s'. udpdk_bind fd (Some a) addrlen s = Some (-1, s') \<and> sock_inv s' \<and>
    slots s' = slots s \<and> n_zones_active s' = n_zones_active s \<and> errno s' = Some EADDRINUSE \<and>
    sstate.more s' = sstate.more s \<and> bindings s' = bindings s"
proof -
  let ?o = "so_options (slots s (unat fd))"
  note I = sock_invD [OF inv] and R = owner_room [where sl = "slots s", OF fd sl(2)]
  obtain s1 where s1: "btable_add_binding fd (sin_addr a) (sin_port a) ?o s = Some (-1, s1)" "table_ok s1"
      "bshm.more s1 = bshm.more s" "bindings s1 = bindings s"
    using bt.refuse [OF I(1,2) R(2) c] by blast
  note f = rest_fields [OF s1(3)]
  have "udpdk_bind fd (Some a) addrlen s = Some (-1, s1\<lparr>errno := Some EADDRINUSE\<rparr>)"
    using s1(1) slot_at_in [OF fd, of s] bind_valid [OF fd sl a] by (simp add: udpdk_bind_def fail_def)
  moreover have "sock_inv (s1\<lparr>errno := Some EADDRINUSE\<rparr>)"
    using inv s1(2,4) f by (simp add: sock_inv_def)
  ultimately show ?thesis using f s1(4) by auto
qed

text \<open>Which error a refused argument gives, and that nothing else changes.\<close>

definition bind_error :: "slot_info \<Rightarrow> sockaddr_in \<Rightarrow> u32 \<Rightarrow> error option" where
  "bind_error v a addrlen =
     (if used v = 0 then Some EBADF else if bound v \<noteq> 0 then Some EINVAL
      else if \<not> good_addr a addrlen then Some EINVAL else None)"

lemma udpdk_bind_invalid:
  assumes "unat fd < NUM_SOCKETS_MAX" "bind_error (slots s (unat fd)) a addrlen = Some e"
  shows "udpdk_bind fd (Some a) addrlen s = Some (-1, s\<lparr>errno := Some e\<rparr>)"
proof -
  have "bind_validate_args fd (Some a) addrlen s = Some (fail e s)"
    using assms(2) slot_at_in [OF assms(1), of s]
    by (simp add: bind_validate_args_def bind_error_def good_addr_def split: if_splits) blast
  then show ?thesis by (simp add: udpdk_bind_def fail_def)
qed

text \<open>What a binding that succeeded has done.\<close>

lemma bind_succeeded:
  assumes inv: "sock_inv s" and fd: "unat fd < NUM_SOCKETS_MAX" and run: "udpdk_bind fd (Some a) addrlen s = Some (0, s')"
  shows "used (slots s (unat fd)) \<noteq> 0 \<and> sock_inv s' \<and> sstate.more s' = sstate.more s \<and>
    slots s' = (slots s)(unat fd := bound_slot a (slots s (unat fd)))"
proof -
  have "bind_error (slots s (unat fd)) a addrlen = None"
    using udpdk_bind_invalid [of fd s a addrlen] fd run by (cases "bind_error (slots s (unat fd)) a addrlen") auto
  then have v: "used (slots s (unat fd)) \<noteq> 0" "bound (slots s (unat fd)) = 0" "good_addr a addrlen"
    by (auto simp: bind_error_def split: if_splits)
  have "list_all (compatible (sin_addr a) (so_options (slots s (unat fd)))) (bindings s (sin_port a))"
    using udpdk_bind_in_use [OF inv fd v] run by fastforce
  from udpdk_bind_done [OF inv fd v this] show ?thesis using run v(1) by auto
qed

subsection \<open>Closing\<close>

definition closed_slot :: "slot_info \<Rightarrow> slot_info" where
  "closed_slot v = v\<lparr>bound := 0, used := 0, so_options := 0\<rparr>"

lemma port_index_of: "unat p < UDP_MAX_PORT \<Longrightarrow> port_index p = Some (ucast p)"
  by (simp add: port_index_def)

lemma udpdk_close_done:
  assumes inv: "sock_inv s" and fd: "unat fd < NUM_SOCKETS_MAX" and u: "used (slots s (unat fd)) \<noteq> 0"
  shows "\<exists>s'. udpdk_close fd s = Some (0, s') \<and> sock_inv s' \<and>
    slots s' = (slots s)(unat fd := closed_slot (slots s (unat fd))) \<and>
    n_zones_active s' = n_zones_active s + 1 \<and> errno s' = errno s \<and> sstate.more s' = sstate.more s \<and>
    bindings s' = (case owner_of (slots s) fd of None \<Rightarrow> bindings s
      | Some (port, ip) \<Rightarrow> (bindings s)(port := remove_socket fd (bindings s port)))"
proof -
  let ?v = "slots s (unat fd)"
  note I = sock_invD [OF inv]
  have "\<exists>s1. (if bound ?v \<noteq> 0 then do {
            port \<leftarrow> port_index (udp_port ?v);
            btable_del_binding fd port s }
          else Some s) = Some s1 \<and> table_ok s1 \<and> bshm.more s1 = bshm.more s \<and>
      owners_ok ((owner_of (slots s))(fd := None)) (bindings s1) \<and>
      bindings s1 = (case owner_of (slots s) fd of None \<Rightarrow> bindings s
        | Some (port, ip) \<Rightarrow> (bindings s)(port := remove_socket fd (bindings s port)))"
  proof (cases "bound ?v = 0")
    case True
    then have "owner_of (slots s) fd = None" by (simp add: owner_of_def)
    then have "(owner_of (slots s))(fd := None) = owner_of (slots s)" by auto
    then show ?thesis using True I(1,2) \<open>owner_of (slots s) fd = None\<close> by simp
  next
    case False
    then have o: "owner_of (slots s) fd = Some (ucast (udp_port ?v), ip_addr ?v)"
      using fd by (simp add: owner_of_def)
    have p: "port_index (udp_port ?v) = Some (ucast (udp_port ?v))"
      using I(3) [OF fd] False by (intro port_index_of) (simp add: slot_ok_def)
    show ?thesis using bt.unregister [OF I(1,2) o] False p o by auto
  qed
  then obtain s1 where s1: "(if bound ?v \<noteq> 0 then do {
            port \<leftarrow> port_index (udp_port ?v);
            btable_del_binding fd port s }
          else Some s) = Some s1" "table_ok s1" "bshm.more s1 = bshm.more s"
      "owners_ok ((owner_of (slots s))(fd := None)) (bindings s1)"
      "bindings s1 = (case owner_of (slots s) fd of None \<Rightarrow> bindings s
        | Some (port, ip) \<Rightarrow> (bindings s)(port := remove_socket fd (bindings s port)))"
    by blast
  note f = rest_fields [OF s1(3)]
  let ?s' = "s1\<lparr>slots := (slots s)(unat fd := closed_slot ?v), n_zones_active := n_zones_active s + 1\<rparr>"
  have valid: "close_validate_args fd s = Some (0, s)"
    using u slot_at_in [OF fd, of s] by (simp add: close_validate_args_def)
  have run: "udpdk_close fd s = Some (0, ?s')"
    unfolding udpdk_close_def valid using slot_at_in [OF fd, of s] slot_at_in [OF fd, of s1] f
    by (simp add: s1(1) set_slot_def closed_slot_def)
  have "sock_inv ?s'"
  proof (rule sock_invI)
    show "owners_ok (owner_of (slots ?s')) (bindings ?s')"
      using s1(4) by (simp add: owner_upd [OF fd] closed_slot_def)
    show "slot_ok (slots ?s' i)" if "i < NUM_SOCKETS_MAX" for i
      using I(3) [OF that] by (simp add: slot_ok_def closed_slot_def)
  qed (use s1(2) in simp)
  then show ?thesis using run f s1(5) by (intro exI [of _ ?s']) simp
qed

end
