(* ===== verification/Examples.thy ===== *)
theory Examples
  imports Socket_Inv
begin

text \<open>
  Concrete states, at which the properties are instantiated: an empty table whose pools have
  elements of a cache line, and zeroed memory.
\<close>

definition demo_alloc :: "nat \<Rightarrow> nat \<Rightarrow> allocator" where
  "demo_alloc addr n =
     \<lparr>mz_addr = of_nat addr, al_size = of_nat n, elem_size = 64, n_free = of_nat n, next_free = 0,
      pool_offset = 64, free_bitfield = (\<lambda>_. 0)\<rparr>"

lemma demo_alloc_simps [simp]:
  "mz_addr (demo_alloc addr n) = of_nat addr" "al_size (demo_alloc addr n) = of_nat n"
  "elem_size (demo_alloc addr n) = 64" "n_free (demo_alloc addr n) = of_nat n"
  "next_free (demo_alloc addr n) = 0" "pool_offset (demo_alloc addr n) = 64"
  "free_bitfield (demo_alloc addr n) = (\<lambda>_. 0)"
  by (simp_all add: demo_alloc_def)

lemma demo_used [simp]: "used_idx (demo_alloc addr n) = {}"
  by (simp add: used_idx_def used_bit_def)

lemma demo_live [simp]: "live (demo_alloc addr n) = {}"
  by (simp add: live_def)

lemma demo_free: "n \<le> 65536 \<Longrightarrow> free_idx (demo_alloc addr n) = {..<n}"
  by (auto simp: free_idx_def used_bit_def unat_of_nat)

lemma demo_alloc_inv:
  assumes "0 < addr" "addr < 2 ^ 32" "0 < n" "n \<le> 65536"
  shows "alloc_inv (demo_alloc addr n)"
proof -
  have u: "unat (of_nat n :: u32) = n" "unat (of_nat addr :: u64) = addr"
    using assms by (simp_all add: unat_of_nat)
  have nz: "(of_nat addr :: u64) \<noteq> 0"
    using u(2) assms(1) by (metis unat_0 less_irrefl)
  have "n * 64 < 2 ^ 32" "addr + 64 + n * 64 < 2 ^ 64" using assms by simp_all
  then show ?thesis
    using assms(3) by (simp add: alloc_inv_def pool_ok_def u nz demo_free [OF assms(4)])
qed

fun demo_pool :: "obj_kind \<Rightarrow> allocator" where
  "demo_pool ListObj = demo_alloc 65536 65536"
| "demo_pool NodeObj = demo_alloc 16777216 1024"
| "demo_pool IterObj = demo_alloc 33554432 10"
| "demo_pool InfoObj = demo_alloc 67108864 1024"

text \<open>A state with these pools and no binding, whatever else it holds.\<close>

definition demo_state :: "'a bshm_scheme \<Rightarrow> bool" where
  "demo_state s \<longleftrightarrow> (\<forall>K. alloc_of s K = Some (demo_pool K)) \<and> sock_bind_table s = (\<lambda>_. NULL)"

lemma demo_stateI:
  assumes "list_alloc s = Some (demo_pool ListObj)" "node_alloc s = Some (demo_pool NodeObj)"
    "iter_alloc s = Some (demo_pool IterObj)" "info_alloc s = Some (demo_pool InfoObj)"
    "sock_bind_table s = (\<lambda>_. NULL)"
  shows "demo_state s"
proof -
  have "alloc_of s K = Some (demo_pool K)" for K
    using assms by (cases K) (simp_all del: demo_pool.simps)
  with assms(5) show ?thesis by (simp add: demo_state_def del: demo_pool.simps)
qed

lemma demo_alloc_of: "demo_state s \<Longrightarrow> alloc_of s K = Some (demo_pool K)"
  by (simp add: demo_state_def)

lemma demo_pool_inv: "alloc_inv (demo_pool K)"
  by (cases K) (simp_all add: demo_alloc_inv)

lemma demo_pool_size: "unat (al_size (demo_pool K)) = pool_size K"
  by (cases K) (simp_all add: unat_of_nat UDP_MAX_PORT_def NUM_SOCKETS_MAX_def)

lemma demo_ends:
  "pool_start (demo_pool ListObj) = 65600" "pool_end (demo_pool ListObj) = 4259904"
  "pool_start (demo_pool NodeObj) = 16777280" "pool_end (demo_pool NodeObj) = 16842816"
  "pool_start (demo_pool IterObj) = 33554496" "pool_end (demo_pool IterObj) = 33555136"
  "pool_start (demo_pool InfoObj) = 67108928" "pool_end (demo_pool InfoObj) = 67174464"
  by (simp_all add: pool_end_def pool_start_def)

lemma demo_geometry: "geometry_ok s" if "demo_state s"
  unfolding geometry_ok_def
proof
  have "K \<noteq> K' \<Longrightarrow> pool_end (demo_pool K) \<le> pool_start (demo_pool K') \<or>
      pool_end (demo_pool K') \<le> pool_start (demo_pool K)" for K K'
    by (cases K; cases K') (simp_all only: demo_ends, simp_all)
  then show "pools_apart s"
    unfolding pools_apart_def demo_alloc_of [OF that] by blast
  have "sizeof K \<le> unat (elem_size (demo_pool K))" for K
    by (cases K) simp_all
  then show "elems_fit s"
    unfolding elems_fit_def demo_alloc_of [OF that] by auto
qed

text \<open>A table without bindings.\<close>

lemma empty_table_rel:
  "table_rel F m (\<lambda>_. NULL) (\<lambda>_. [])" if "\<And>K. F K = {}"
  by (rule table_relI) (simp_all add: separated_def that)

lemma empty_table_inv:
  assumes "allocs_ok s" "sock_bind_table s = (\<lambda>_. NULL)" "\<And>K. footprint_of s K = {}"
  shows "table_inv s" and "bindings s = (\<lambda>_. [])"
proof -
  have rel: "table_rel (footprint_of s) (mem s) (sock_bind_table s) (\<lambda>_. [])"
    unfolding assms(2) by (rule empty_table_rel [OF assms(3)])
  show "table_inv s" by (rule table_invI [OF assms(1) rel])
  show "bindings s = (\<lambda>_. [])"
    by (rule ext) (simp add: bindings_eq [OF rel])
qed

lemma demo_footprint: "demo_state s \<Longrightarrow> footprint_of s K = {}"
  unfolding footprint_of_def demo_alloc_of by (cases K) simp_all

lemma demo_ok:
  assumes "demo_state s"
  shows "table_ok s" and "bindings s = (\<lambda>_. [])"
proof -
  have ok: "allocs_ok s"
    unfolding allocs_ok_def demo_alloc_of [OF assms] using demo_pool_inv by blast
  have tbl: "sock_bind_table s = (\<lambda>_. NULL)" using assms by (simp add: demo_state_def)
  note e = empty_table_inv [OF ok tbl demo_footprint [OF assms]]
  show "table_ok s"
    using e(1) demo_geometry [OF assms] demo_pool_size by (simp add: table_ok_def sizes_ok_def demo_alloc_of [OF assms])
  show "bindings s = (\<lambda>_. [])" by (rule e(2))
qed

text \<open>Slots: all closed but slot 0, which is open and has no options.\<close>

definition closed :: slot_info where
  "closed = \<lparr>used = 0, bound = 0, slot_sockfd = 0, udp_port = 0, ip_addr = 0, so_options = 0\<rparr>"

definition demo_sock :: sstate where
  "demo_sock =
     \<lparr>mem = (\<lambda>_. 0), list_alloc = Some (demo_pool ListObj), node_alloc = Some (demo_pool NodeObj),
      iter_alloc = Some (demo_pool IterObj), info_alloc = Some (demo_pool InfoObj),
      sock_bind_table = (\<lambda>_. NULL), n_zones_active = 1,
      slots = (\<lambda>_. closed)(0 := closed\<lparr>used := 1\<rparr>), errno = None\<rparr>"

lemma demo_sock_state: "demo_state demo_sock"
  by (rule demo_stateI) (simp_all add: demo_sock_def)

lemma demo_sock_simps [simp]:
  "slots demo_sock = (\<lambda>_. closed)(0 := closed\<lparr>used := 1\<rparr>)" "n_zones_active demo_sock = 1"
  "errno demo_sock = None" "bindings demo_sock = (\<lambda>_. [])" "table_ok demo_sock"
  using demo_ok [OF demo_sock_state] by (simp_all add: demo_sock_def)

lemma demo_sock_inv: "sock_inv demo_sock"
proof (rule sock_invI)
  have "owner_of (slots demo_sock) = Map.empty"
    by (rule ext) (simp add: owner_of_def closed_def)
  then show "owners_ok (owner_of (slots demo_sock)) (bindings demo_sock)"
    by (simp add: owners_ok_def)
qed (simp_all add: slot_ok_def closed_def)

end
