(* ===== verification/Boot.thy ===== *)
theory Boot
  imports Examples
begin

text \<open>
  The table as the initialisers leave it, with the element size that
  \<open>udpdk_init_allocator\<close> really computes: one byte for every structure of at most 64 bytes.
  The first binding works; the objects of the second one overlap those of the first.
\<close>

subsection \<open>Initialisation\<close>

text \<open>\<open>udpdk_init\<close> sets up the list allocators and then the table.\<close>

definition shared_init ::
  "(string \<Rightarrow> u32 \<Rightarrow> (ptr \<times> (nat \<Rightarrow> u32)) option) \<Rightarrow> 'a bshm_scheme \<Rightarrow> 'a bshm_scheme option" where
  "shared_init reserve s = do { s \<leftarrow> udpdk_list_init reserve s; btable_init reserve s }"

fun pool_name :: "obj_kind \<Rightarrow> string" where
  "pool_name ListObj = ''udpdk_list_t_alloc''"
| "pool_name NodeObj = ''udpdk_list_node_t_alloc''"
| "pool_name IterObj = ''udpdk_list_iterator_t_alloc''"
| "pool_name InfoObj = ''bind_info_alloc''"

lemma pool_name_inj: "pool_name K = pool_name K' \<longleftrightarrow> K = K'"
  by (cases K; cases K') simp_all

text \<open>
  What DPDK documents of memory zones: they are cache-line aligned, and named zones are
  different blocks of (47-bit) user memory. Here there is also enough memory for the four.
\<close>

definition zones_ok :: "(string \<Rightarrow> u32 \<Rightarrow> (ptr \<times> (nat \<Rightarrow> u32)) option) \<Rightarrow> bool" where
  "zones_ok reserve \<longleftrightarrow>
     (\<forall>K l. \<exists>a w. reserve (pool_name K) l = Some (a, w)) \<and>
     (\<forall>n l a w. reserve n l = Some (a, w) \<longrightarrow> a \<noteq> NULL \<and> 64 dvd unat a \<and> unat a + unat l < 2 ^ 47) \<and>
     (\<forall>K l a w K' l' a' w'. K \<noteq> K' \<longrightarrow> reserve (pool_name K) l = Some (a, w) \<longrightarrow>
        reserve (pool_name K') l' = Some (a', w') \<longrightarrow>
        unat a + unat l \<le> unat a' \<or> unat a' + unat l' \<le> unat a)"

lemma zones_okD:
  assumes "zones_ok reserve"
  shows "\<exists>a w. reserve (pool_name K) l = Some (a, w)"
    and "reserve n l = Some (a, w) \<Longrightarrow> a \<noteq> NULL \<and> 64 dvd unat a \<and> unat a + unat l < 2 ^ 47"
    and "K \<noteq> K' \<Longrightarrow> reserve (pool_name K) l = Some (a, w) \<Longrightarrow> reserve (pool_name K') l' = Some (a', w') \<Longrightarrow>
      unat a + unat l \<le> unat a' \<or> unat a' + unat l' \<le> unat a"
  using assms unfolding zones_ok_def by blast+

lemma zones_reserve_ok:
  assumes "zones_ok reserve"
  shows "reserve_ok reserve"
  unfolding reserve_ok_def
proof (intro allI impI)
  fix n l a w assume "reserve n l = Some (a, w)"
  from zones_okD(2) [OF assms this] show "a \<noteq> NULL \<and> unat a + unat l < 2 ^ 64" by simp
qed

text \<open>Where the pool starts inside its zone, and how long the zone is.\<close>

fun pool_off :: "obj_kind \<Rightarrow> nat" where
  "pool_off ListObj = 8213"
| "pool_off NodeObj = 149"
| "pool_off IterObj = 22"
| "pool_off InfoObj = 149"

lemma init_pool:
  assumes "zones_ok reserve"
  shows "\<exists>a. udpdk_init_allocator reserve (pool_name K) (of_nat (pool_size K)) (of_nat (sizeof K)) = Some (Some a) \<and>
    alloc_inv a \<and> al_size a = of_nat (pool_size K) \<and> elem_size a = 1 \<and> n_free a = of_nat (pool_size K) \<and>
    next_free a = 0 \<and> pool_offset a = of_nat (pool_off K) \<and> live a = {} \<and>
    (\<exists>w. reserve (pool_name K) (of_nat (pool_off K + pool_size K)) = Some (mz_addr a, w))"
proof -
  have es: "(of_nat (sizeof K) + 64 - 1 :: u32) div 64 = 1"
    by (cases K) simp_all
  have po: "(21 + of_nat (pool_size K) div 8 :: u32) = of_nat (pool_off K)"
    by (cases K) (simp_all add: UDP_MAX_PORT_def NUM_SOCKETS_MAX_def)
  obtain addr w where r: "reserve (pool_name K) (of_nat (pool_off K + pool_size K)) = Some (addr, w)"
    using zones_okD(1) [OF assms] by blast
  have "\<exists>a. udpdk_init_allocator reserve (pool_name K) (of_nat (pool_size K)) (of_nat (sizeof K)) = Some (Some a)"
    using r unfolding udpdk_init_allocator_def Let_def es by (simp add: po)
  then obtain a where a: "udpdk_init_allocator reserve (pool_name K) (of_nat (pool_size K)) (of_nat (sizeof K)) = Some (Some a)"
    by blast
  note f = init_fields [OF a]
  have "0 < (of_nat (pool_size K) :: u32)" "unat (of_nat (pool_size K) :: u32) \<le> 2 ^ 16"
      "unat (of_nat (sizeof K) :: u32) \<le> 2 ^ 15"
    by (cases K; simp add: UDP_MAX_PORT_def NUM_SOCKETS_MAX_def)+
  then have "alloc_inv a" by (rule init_alloc_inv [OF zones_reserve_ok [OF assms] a])
  with a f show ?thesis
    unfolding es by (simp add: po)
qed

text \<open>The state that results.\<close>

definition booted :: "(string \<Rightarrow> u32 \<Rightarrow> (ptr \<times> (nat \<Rightarrow> u32)) option) \<Rightarrow> 'a bshm_scheme \<Rightarrow> bool" where
  "booted reserve s \<longleftrightarrow> sock_bind_table s = (\<lambda>_. NULL) \<and>
     (\<forall>K. \<exists>a. alloc_of s K = Some a \<and>
        alloc_inv a \<and> al_size a = of_nat (pool_size K) \<and> elem_size a = 1 \<and> n_free a = of_nat (pool_size K) \<and>
        next_free a = 0 \<and> pool_offset a = of_nat (pool_off K) \<and> live a = {} \<and>
        (\<exists>w. reserve (pool_name K) (of_nat (pool_off K + pool_size K)) = Some (mz_addr a, w)))"

lemma shared_init_booted:
  assumes "zones_ok reserve"
  shows "\<exists>s'. shared_init reserve s = Some s' \<and> booted reserve s'"
proof -
  note P = init_pool [OF assms]
  obtain la where la: "udpdk_init_allocator reserve ''udpdk_list_t_alloc'' (of_nat UDP_MAX_PORT)
      (of_nat (sizeof ListObj)) = Some (Some la)" using P [of ListObj] by auto
  obtain na where na: "udpdk_init_allocator reserve ''udpdk_list_node_t_alloc'' (of_nat NUM_SOCKETS_MAX)
      (of_nat (sizeof NodeObj)) = Some (Some na)" using P [of NodeObj] by auto
  obtain ia where ia: "udpdk_init_allocator reserve ''udpdk_list_iterator_t_alloc'' 10
      (of_nat (sizeof IterObj)) = Some (Some ia)" using P [of IterObj] by auto
  obtain fa where fa: "udpdk_init_allocator reserve ''bind_info_alloc'' (of_nat NUM_SOCKETS_MAX)
      (of_nat (sizeof InfoObj)) = Some (Some fa)" using P [of InfoObj] by auto
  let ?s = "s\<lparr>list_alloc := Some la, node_alloc := Some na, iter_alloc := Some ia,
      info_alloc := Some fa, sock_bind_table := (\<lambda>_. NULL)\<rparr>"
  have "shared_init reserve s = Some ?s"
    unfolding shared_init_def udpdk_list_init_def btable_init_def la na ia fa by (simp add: Let_def)
  moreover have "booted reserve ?s"
    unfolding booted_def
  proof (intro conjI allI)
    fix K
    show "\<exists>a. alloc_of ?s K = Some a \<and>
        alloc_inv a \<and> al_size a = of_nat (pool_size K) \<and> elem_size a = 1 \<and> n_free a = of_nat (pool_size K) \<and>
        next_free a = 0 \<and> pool_offset a = of_nat (pool_off K) \<and> live a = {} \<and>
        (\<exists>w. reserve (pool_name K) (of_nat (pool_off K + pool_size K)) = Some (mz_addr a, w))"
      using P [of K] la na ia fa by (cases K) auto
  qed simp
  ultimately show ?thesis by blast
qed

lemma bootedD:
  assumes "booted reserve s"
  obtains a w where "alloc_of s K = Some a" "alloc_inv a" "al_size a = of_nat (pool_size K)" "elem_size a = 1"
    "n_free a = of_nat (pool_size K)" "next_free a = 0" "pool_offset a = of_nat (pool_off K)" "live a = {}"
    "reserve (pool_name K) (of_nat (pool_off K + pool_size K)) = Some (mz_addr a, w)"
  using assms unfolding booted_def by blast

text \<open>The address of element \<open>k\<close> of a fresh pool.\<close>

lemma u32_pool: "unat (of_nat (pool_off K + pool_size K) :: u32) = pool_off K + pool_size K"
    "unat (of_nat (pool_off K) :: u32) = pool_off K" "unat (of_nat (pool_size K) :: u32) = pool_size K"
  by (cases K; simp add: unat_of_nat UDP_MAX_PORT_def NUM_SOCKETS_MAX_def)+

lemma booted_elem:
  assumes "booted reserve s" "alloc_of s K = Some a" "k < pool_size K"
  shows "unat (elem_at a (of_nat k)) = unat (mz_addr a) + pool_off K + k"
proof -
  obtain a' w where a: "alloc_of s K = Some a'" "alloc_inv a'" "al_size a' = of_nat (pool_size K)"
      "elem_size a' = 1" "pool_offset a' = of_nat (pool_off K)"
    by (rule bootedD [OF assms(1), of K]) blast
  then show ?thesis
    using unat_elem_at [of a' k] assms(2,3) by (simp add: alloc_inv_def u32_pool)
qed

text \<open>The blocks of two kinds stay apart, up to the cache line in which each block ends.\<close>

lemma align_gap: "64 dvd a \<Longrightarrow> 64 dvd b \<Longrightarrow> a + n \<le> b \<Longrightarrow> 0 < n \<Longrightarrow> n \<le> 64 \<Longrightarrow> a + 64 \<le> b" for a b n :: nat
  by presburger

lemma zones_kinds_apart:
  assumes "zones_ok reserve" "K \<noteq> K'"
    and "reserve (pool_name K) (of_nat (pool_off K + pool_size K)) = Some (a, w)"
    and "reserve (pool_name K') (of_nat (pool_off K' + pool_size K')) = Some (a', w')"
  shows "unat a + (pool_off K + sizeof K + 1) \<le> unat a' \<or> unat a' + (pool_off K' + sizeof K' + 1) \<le> unat a"
proof -
  have al: "64 dvd unat a" "64 dvd unat a'"
    using zones_okD(2) [OF assms(1,3)] zones_okD(2) [OF assms(1,4)] by simp_all
  have grow: "x + (pool_off J + sizeof J + 1) \<le> y"
    if "64 dvd x" "64 dvd y" "x + (pool_off J + pool_size J) \<le> y" for J x y
  proof (cases "J = IterObj")
    case True
    then show ?thesis using align_gap [OF that(1,2), of 32] that(3) by simp
  next
    case False
    then have "sizeof J + 1 \<le> pool_size J" by (cases J) (simp_all add: UDP_MAX_PORT_def NUM_SOCKETS_MAX_def)
    then show ?thesis using that(3) by simp
  qed
  from zones_okD(3) [OF assms(1,2) assms(3,4)] show ?thesis
    unfolding u32_pool using grow [OF al(1,2), of K] grow [OF al(2,1), of K'] by auto
qed

lemma booted_table:
  assumes b: "booted reserve s"
  shows "table_inv s" "bindings s = (\<lambda>_. [])"
proof -
  have ok: "allocs_ok s" unfolding allocs_ok_def using bootedD [OF b] by metis
  have tbl: "sock_bind_table s = (\<lambda>_. NULL)" using b by (simp add: booted_def)
  have fp: "footprint_of s K = {}" for K
    by (rule bootedD [OF b, of K]) (simp add: footprint_of_def)
  show "table_inv s" "bindings s = (\<lambda>_. [])" using empty_table_inv [OF ok tbl fp] .
qed

lemma booted_free: "booted reserve s \<Longrightarrow> has_free s K"
proof -
  assume "booted reserve s"
  then obtain a w where "alloc_of s K = Some a" "n_free a = of_nat (pool_size K)"
    by (rule bootedD [of _ _ K]) blast
  moreover have "unat (of_nat (pool_size K) :: u32) \<noteq> 0"
    unfolding u32_pool by (cases K) (simp_all add: UDP_MAX_PORT_def NUM_SOCKETS_MAX_def)
  ultimately show "has_free s K" by (auto simp: has_free_def)
qed

text \<open>The first elements of the four pools are apart.\<close>

lemma booted_room:
  assumes z: "zones_ok reserve" and b: "booted reserve s"
  shows "room s"
  unfolding room_def separated_def
proof -
  have el: "\<exists>a w. p = elem_at a 0 \<and> unat p = unat (mz_addr a) + pool_off K \<and>
      reserve (pool_name K) (of_nat (pool_off K + pool_size K)) = Some (mz_addr a, w)"
    if p: "p \<in> with_next s K" for p K
  proof (rule bootedD [OF b, of K])
    fix a w assume a: "alloc_of s K = Some a" "live a = {}" "next_free a = 0"
      "reserve (pool_name K) (of_nat (pool_off K + pool_size K)) = Some (mz_addr a, w)"
    have "p = elem_at a 0" using p a by (simp add: with_next_def split: if_splits)
    moreover have "0 < pool_size K" by (cases K) (simp_all add: UDP_MAX_PORT_def NUM_SOCKETS_MAX_def)
    ultimately show ?thesis using booted_elem [OF b a(1), of 0] a(4) by auto
  qed
  show "(\<forall>K. \<forall>p\<in>with_next s K. p \<noteq> NULL) \<and>
    (\<forall>K K'. \<forall>p\<in>with_next s K. \<forall>q\<in>with_next s K'. (K, p) \<noteq> (K', q) \<longrightarrow>
       unat p + sizeof K \<le> unat q \<or> unat q + sizeof K' \<le> unat p)"
  proof (intro conjI allI ballI impI)
    fix K p assume "p \<in> with_next s K"
    from el [OF this] obtain a :: allocator where "unat p = unat (mz_addr a) + pool_off K" by blast
    moreover have "0 < pool_off K" by (cases K) simp_all
    ultimately show "p \<noteq> NULL" by auto
  next
    fix K K' p q assume pq: "p \<in> with_next s K" "q \<in> with_next s K'" "(K, p) \<noteq> (K', q)"
    obtain a :: allocator and w where a: "unat p = unat (mz_addr a) + pool_off K"
      "reserve (pool_name K) (of_nat (pool_off K + pool_size K)) = Some (mz_addr a, w)" using el [OF pq(1)] by blast
    obtain a' :: allocator and w' where a': "unat q = unat (mz_addr a') + pool_off K'"
      "reserve (pool_name K') (of_nat (pool_off K' + pool_size K')) = Some (mz_addr a', w')" using el [OF pq(2)] by blast
    have "K \<noteq> K'"
    proof
      assume "K = K'"
      then have "unat p = unat q" using a a' by simp
      with pq(3) \<open>K = K'\<close> show False by (simp add: word_unat_eq_iff)
    qed
    from zones_kinds_apart [OF z this a(2) a'(2)]
    show "unat p + sizeof K \<le> unat q \<or> unat q + sizeof K' \<le> unat p"
      unfolding a(1) a'(1) by linarith
  qed
qed

subsection \<open>The first binding, and the second\<close>

text \<open>
  \<open>add_rest\<close> on a port without bindings, when the three new objects are apart from each
  other; nothing is said of older objects.
\<close>

lemma add_rest_fresh:
  assumes nl: "sock_bind_table s port = NULL"
    and al: "list_alloc s = Some la" "udpdk_shmalloc la = (l, la')"
      "node_alloc s = Some na" "udpdk_shmalloc na = (n, na')"
      "info_alloc s = Some fa" "udpdk_shmalloc fa = (b, fa')"
    and sep: "separated F" and inF: "l \<in> F ListObj" "n \<in> F NodeObj" "b \<in> F InfoObj"
  shows "\<exists>m'. add_rest sk ip port opts s = Some (0, s\<lparr>mem := m',
      list_alloc := Some la', node_alloc := Some na', info_alloc := Some fa',
      sock_bind_table := (sock_bind_table s)(port := l)\<rparr>) \<and> dlist F m' l [n]"
proof -
  let ?tbl = "(sock_bind_table s)(port := l)"
  obtain m2 where m2: "list_new s = Some (l, s\<lparr>mem := m2, list_alloc := Some la'\<rparr>)" "dlist F m2 l []"
    using list_new_refine [OF al(1,2) sep inF(1)] by blast
  let ?s = "s\<lparr>mem := m2, list_alloc := Some la', sock_bind_table := ?tbl\<rparr>"
  have s: "dlist F (mem ?s) (sock_bind_table ?s port) []" "node_alloc ?s = Some na" "info_alloc ?s = Some fa"
    using m2(2) al(3,5) by simp_all
  have t: "sock_bind_table ?s port = l" by simp
  have one: "n \<notin> set []" "length ([] :: ptr list) + 1 < 2 ^ 32"
      "[n] = (if ip = INADDR_ANY then n # [] else [] @ [n])"
    by simp_all
  obtain m3 where m3: "add_new sk ip port opts ?s =
        Some (0, ?s\<lparr>mem := m3, node_alloc := Some na', info_alloc := Some fa'\<rparr>)" "dlist F m3 l [n]"
    using add_new_refine [where sk = sk and ip = ip and opts = opts,
        OF sep inF(2,3) s(1) one(1,2) s(2) al(4) s(3) al(6) one(3)] unfolding t by blast
  have "add_rest sk ip port opts s = Some (0, s\<lparr>mem := m3, list_alloc := Some la', node_alloc := Some na',
      info_alloc := Some fa', sock_bind_table := ?tbl\<rparr>)"
    using nl m2(1) m3(1) by (simp add: add_rest_def)
  with m3(2) show ?thesis by blast
qed

lemma can_bind_free: "sock_bind_table s port = NULL \<Longrightarrow> btable_can_bind ip port opts s = Some (True, s)"
  by (simp add: btable_can_bind_def)

text \<open>The second element of a fresh pool lies one byte behind the first.\<close>

lemma booted_shmalloc:
  assumes z: "zones_ok reserve" and b: "booted reserve s" and K: "K \<noteq> IterObj"
  obtains a p a' a'' where "alloc_of s K = Some a" "udpdk_shmalloc a = (p, a')" "udpdk_shmalloc a' = (p + 1, a'')"
    "unat p + 1 < 2 ^ 47" "unat (p + 1) = unat p + 1"
    "\<exists>addr w. unat p = unat addr + pool_off K \<and>
       reserve (pool_name K) (of_nat (pool_off K + pool_size K)) = Some (addr, w)"
proof -
  obtain a w where a: "alloc_of s K = Some a" "alloc_inv a" "al_size a = of_nat (pool_size K)" "elem_size a = 1"
      "n_free a = of_nat (pool_size K)" "next_free a = 0" "live a = {}"
      "reserve (pool_name K) (of_nat (pool_off K + pool_size K)) = Some (mz_addr a, w)"
    by (rule bootedD [OF b, of K])
  let ?p = "elem_at a 0" and ?a' = "snd (udpdk_shmalloc a)"
  have big: "2 \<le> pool_size K" using K by (cases K) (simp_all add: UDP_MAX_PORT_def NUM_SOCKETS_MAX_def)
  have nf: "n_free a \<noteq> 0" "n_free a - 1 \<noteq> 0"
    unfolding a(5) using K by (cases K; simp add: UDP_MAX_PORT_def NUM_SOCKETS_MAX_def)+
  have sz: "\<not> al_size a \<le> 1" "Suc (unat (al_size a) - 1) = unat (al_size a)"
    using big u32_pool(3) [of K] by (simp_all add: a(3) word_le_nat_alt)
  have bit: "\<not> used_bit (free_bitfield a) 1"
    using a(7) big u32_pool(3) [of K] by (auto simp: live_def used_idx_def a(3))
  have nx: "next_free ?a' = 1"
  proof (rule shmalloc_next [OF nf])
    have "find_free (Suc (unat (al_size a) - 1)) (SetBit (free_bitfield a) 0) (al_size a) 1 = Some 1"
      using sz(1) bit by (simp add: TestBit_used used_SetBit)
    then show "find_free (unat (al_size a)) (SetBit (free_bitfield a) (next_free a)) (al_size a)
        (next_free a + 1) = Some 1"
      unfolding sz(2) a(6) by simp
  qed
  have p1: "udpdk_shmalloc a = (?p, ?a')"
    using shmalloc_ret [OF nf(1)] a(6) by (simp add: prod_eq_iff)
  have "fst (udpdk_shmalloc ?a') = elem_at ?a' 1"
    using shmalloc_ret [of ?a'] shmalloc_n_free [OF nf(1)] nf(2) nx by simp
  then have p2: "udpdk_shmalloc ?a' = (elem_at a 1, snd (udpdk_shmalloc ?a'))"
    using same_pool_elem_at [OF shmalloc_same_pool, of a] by (simp add: prod_eq_iff)
  have e: "unat ?p = unat (mz_addr a) + pool_off K" "unat (elem_at a 1) = unat (mz_addr a) + pool_off K + 1"
    using booted_elem [OF b a(1), of 0] booted_elem [OF b a(1), of 1] big by simp_all
  have lim: "unat ?p + 1 < 2 ^ 47"
    using zones_okD(2) [OF z a(8)] big e(1) unfolding u32_pool by linarith
  then have "unat (?p + 1) = unat ?p + 1" by (intro unat_plus_one) simp
  moreover from this have "elem_at a 1 = ?p + 1" using e by (simp add: word_unat_eq_iff)
  ultimately show ?thesis using that [OF a(1) p1] p2 lim e(1) a(8) by auto
qed

text \<open>Reading a pointer one byte before another one.\<close>

lemma shifted_pointer:
  fixes q :: ptr
  assumes "fld 0 m (p + 1) = q" "unat (p + 1) = unat p + 1" "unat q < 2 ^ 56"
  shows "256 * unat q \<le> unat (fld 0 m p :: ptr)"
proof -
  have bound: "load_nat m x k < 256 ^ k" for x k
  proof (induction k arbitrary: x)
    case (Suc k)
    have "unat (m x) + 256 * load_nat m (Suc x) k < 256 * 256 ^ k"
      using unat_bound [of "m x"] Suc [of "Suc x"] by simp
    then show ?case by simp
  qed simp
  have split: "load_nat m x (Suc k) = load_nat m x k + 256 ^ k * unat (m (x + k))" for x k
    by (induction k arbitrary: x) (simp_all add: algebra_simps)
  have q: "unat q = load_nat m (unat p + 1) 8"
    using assms(2) bound [of "unat p + 1" 8] unfolding assms(1) [symmetric]
    by (simp add: fld_def ld_def unat_of_nat del: load_nat.simps)
  have "unat q = load_nat m (unat p + 1) 7 + 256 ^ 7 * unat (m (unat p + 1 + 7))"
    using q split [of "unat p + 1" 7] by (simp del: load_nat.simps)
  then have q7: "load_nat m (unat p + 1) 7 = unat q"
    using assms(3) by (cases "unat (m (unat p + 1 + 7))") simp_all
  have "unat (fld 0 m p :: ptr) = load_nat m (unat p) 8"
    using bound [of "unat p" 8] by (simp add: fld_def ld_def unat_of_nat del: load_nat.simps)
  also have "\<dots> = unat (m (unat p)) + 256 * load_nat m (unat p + 1) 7"
    using load_nat.simps(2) [of m "unat p" 7] by (simp del: load_nat.simps)
  finally show ?thesis using q7 by simp
qed

definition three :: "ptr \<Rightarrow> ptr \<Rightarrow> ptr \<Rightarrow> footprint" where
  "three l n b = add_objs (\<lambda>_. {}) l n b"

lemma three_simps [simp]:
  "three l n b ListObj = {l}" "three l n b NodeObj = {n}" "three l n b InfoObj = {b}"
  "three l n b IterObj = {}"
  by (simp_all add: three_def)

definition apart :: "obj_kind \<Rightarrow> ptr \<Rightarrow> obj_kind \<Rightarrow> ptr \<Rightarrow> bool" where
  "apart K p K' q \<longleftrightarrow> unat p + sizeof K \<le> unat q \<or> unat q + sizeof K' \<le> unat p"

lemma separated_three:
  assumes "l \<noteq> NULL" "n \<noteq> NULL" "b \<noteq> NULL"
    and "apart ListObj l NodeObj n" "apart ListObj l InfoObj b" "apart NodeObj n InfoObj b"
  shows "separated (three l n b)"
proof -
  have "p \<noteq> NULL" if "p \<in> three l n b K" for p K
    using that assms(1-3) by (cases K) auto
  moreover have "apart K p K' q" if "p \<in> three l n b K" "q \<in> three l n b K'" "(K, p) \<noteq> (K', q)" for K K' p q
    using that assms(4-6) unfolding apart_def by (cases K; cases K') auto
  ultimately show ?thesis unfolding separated_def apart_def by blast
qed

text \<open>The first two elements of the three pools: within each triple, objects lie apart.\<close>

lemma booted_triples:
  assumes z: "zones_ok reserve" and b: "booted reserve s"
  obtains la l la' la'' na n na' na'' fa f fa' fa''
  where "list_alloc s = Some la" "udpdk_shmalloc la = (l, la')" "udpdk_shmalloc la' = (l + 1, la'')"
    "node_alloc s = Some na" "udpdk_shmalloc na = (n, na')" "udpdk_shmalloc na' = (n + 1, na'')"
    "info_alloc s = Some fa" "udpdk_shmalloc fa = (f, fa')" "udpdk_shmalloc fa' = (f + 1, fa'')"
    "separated (three l n f)" "separated (three (l + 1) (n + 1) (f + 1))"
    "unat (l + 1) = unat l + 1" "unat n + 1 < 2 ^ 47" "unat (n + 1) = unat n + 1"
proof -
  obtain la l la' la'' where l: "alloc_of s ListObj = Some la" "udpdk_shmalloc la = (l, la')"
      "udpdk_shmalloc la' = (l + 1, la'')" "unat l + 1 < 2 ^ 47" "unat (l + 1) = unat l + 1"
      "\<exists>addr w. unat l = unat addr + pool_off ListObj \<and>
       reserve (pool_name ListObj) (of_nat (pool_off ListObj + pool_size ListObj)) = Some (addr, w)"
    by (rule booted_shmalloc [OF z b, of ListObj]) simp_all
  obtain na n na' na'' where n: "alloc_of s NodeObj = Some na" "udpdk_shmalloc na = (n, na')"
      "udpdk_shmalloc na' = (n + 1, na'')" "unat n + 1 < 2 ^ 47" "unat (n + 1) = unat n + 1"
      "\<exists>addr w. unat n = unat addr + pool_off NodeObj \<and>
       reserve (pool_name NodeObj) (of_nat (pool_off NodeObj + pool_size NodeObj)) = Some (addr, w)"
    by (rule booted_shmalloc [OF z b, of NodeObj]) simp_all
  obtain fa f fa' fa'' where f: "alloc_of s InfoObj = Some fa" "udpdk_shmalloc fa = (f, fa')"
      "udpdk_shmalloc fa' = (f + 1, fa'')" "unat f + 1 < 2 ^ 47" "unat (f + 1) = unat f + 1"
      "\<exists>addr w. unat f = unat addr + pool_off InfoObj \<and>
       reserve (pool_name InfoObj) (of_nat (pool_off InfoObj + pool_size InfoObj)) = Some (addr, w)"
    by (rule booted_shmalloc [OF z b, of InfoObj]) simp_all
  have gap: "unat x + 1 + sizeof K \<le> unat y \<or> unat y + 1 + sizeof K' \<le> unat x"
    if "K \<noteq> K'"
      "\<exists>addr w. unat x = unat addr + pool_off K \<and>
        reserve (pool_name K) (of_nat (pool_off K + pool_size K)) = Some (addr, w)"
      "\<exists>addr w. unat y = unat addr + pool_off K' \<and>
        reserve (pool_name K') (of_nat (pool_off K' + pool_size K')) = Some (addr, w)"
    for K K' and x y :: ptr
    using zones_kinds_apart [OF z that(1)] that(2,3) by fastforce
  note G = gap [of ListObj NodeObj, OF _ l(6) n(6)] gap [of ListObj InfoObj, OF _ l(6) f(6)]
    gap [of NodeObj InfoObj, OF _ n(6) f(6)]
  have nn: "l \<noteq> NULL" "n \<noteq> NULL" "f \<noteq> NULL" "l + 1 \<noteq> NULL" "n + 1 \<noteq> NULL" "f + 1 \<noteq> NULL"
    using l(5,6) n(5,6) f(5,6) by auto
  have S1: "separated (three l n f)" and S2: "separated (three (l + 1) (n + 1) (f + 1))"
    using G l(5) n(5) f(5) nn by (auto intro!: separated_three simp: apart_def)
  show thesis by (rule that [OF l(1) [simplified] l(2,3) n(1) [simplified] n(2,3) f(1) [simplified] f(2,3) S1 S2 l(5) n(4,5)])
qed

text \<open>After a second object was written one byte further, the first list no longer reads as \<open>[n]\<close>.\<close>

lemma nodes_overwritten:
  assumes d: "dlist F m (l + 1) [n + 1]"
    and "unat (l + 1) = unat l + 1" "unat n + 1 < 2 ^ 47" "unat (n + 1) = unat n + 1"
  shows "nodes_at m l \<noteq> [n]"
proof
  assume "nodes_at m l = [n]"
  then have "fld 0 m l = n"
    by (cases "unat (fld list_len m l :: u32)") (auto simp: nodes_at_def)
  moreover have "fld 0 m (l + 1) = n + 1" using d by (simp add: dlist_def)
  ultimately show False using shifted_pointer [of m l "n + 1"] assms(2-4) by simp
qed

lemma boot_second_bind:
  assumes z: "zones_ok reserve" and b: "booted reserve s" and pq: "p \<noteq> q"
  shows "\<exists>s1 s2. btable_add_binding sk ip p opts s = Some (0, s1) \<and>
    btable_add_binding sk' ip' q opts' s1 = Some (0, s2) \<and>
    port_nodes (mem s1) (sock_bind_table s1) p \<noteq> [] \<and>
    port_nodes (mem s2) (sock_bind_table s2) p \<noteq> port_nodes (mem s1) (sock_bind_table s1) p"
proof -
  obtain la l la' la'' na n na' na'' fa f fa' fa'' where l: "list_alloc s = Some la"
      "udpdk_shmalloc la = (l, la')" "udpdk_shmalloc la' = (l + 1, la'')"
    and n: "node_alloc s = Some na" "udpdk_shmalloc na = (n, na')" "udpdk_shmalloc na' = (n + 1, na'')"
    and f: "info_alloc s = Some fa" "udpdk_shmalloc fa = (f, fa')" "udpdk_shmalloc fa' = (f + 1, fa'')"
    and S1: "separated (three l n f)" and S2: "separated (three (l + 1) (n + 1) (f + 1))"
    and u: "unat (l + 1) = unat l + 1" "unat n + 1 < 2 ^ 47" "unat (n + 1) = unat n + 1"
    by (rule booted_triples [OF z b])
  have nn: "l \<noteq> NULL"
    using separated_nonnull [OF S1, of l ListObj] by (simp add: three_def)
  have t0: "sock_bind_table s p = NULL" "sock_bind_table s q = NULL" using b by (simp_all add: booted_def)
  obtain m1 where m1: "add_rest sk ip p opts s = Some (0, s\<lparr>mem := m1, list_alloc := Some la',
        node_alloc := Some na', info_alloc := Some fa', sock_bind_table := (sock_bind_table s)(p := l)\<rparr>)"
      "dlist (three l n f) m1 l [n]"
    using add_rest_fresh [where F = "three l n f" and ip = ip and sk = sk and opts = opts,
        OF t0(1) l(1,2) n(1,2) f(1,2) S1] by auto
  let ?s1 = "s\<lparr>mem := m1, list_alloc := Some la', node_alloc := Some na', info_alloc := Some fa',
      sock_bind_table := (sock_bind_table s)(p := l)\<rparr>"
  have t1: "sock_bind_table ?s1 q = NULL" using t0(2) pq by simp
  obtain m2 where m2: "add_rest sk' ip' q opts' ?s1 = Some (0, ?s1\<lparr>mem := m2, list_alloc := Some la'',
        node_alloc := Some na'', info_alloc := Some fa'',
        sock_bind_table := (sock_bind_table ?s1)(q := l + 1)\<rparr>)"
      "dlist (three (l + 1) (n + 1) (f + 1)) m2 (l + 1) [n + 1]"
    using add_rest_fresh [where F = "three (l + 1) (n + 1) (f + 1)" and ip = ip' and sk = sk' and opts = opts',
        OF t1 _ l(3) _ n(3) _ f(3) S2] by auto
  have run: "btable_add_binding sk ip p opts s = Some (0, ?s1)"
    using m1(1) can_bind_free [OF t0(1)] by (simp add: btable_add_binding_eq)
  moreover have "btable_add_binding sk' ip' q opts' ?s1 = Some (0, ?s1\<lparr>mem := m2, list_alloc := Some la'',
        node_alloc := Some na'', info_alloc := Some fa'',
        sock_bind_table := (sock_bind_table ?s1)(q := l + 1)\<rparr>)"
    using m2(1) can_bind_free [OF t1] by (simp add: btable_add_binding_eq)
  moreover have "port_nodes m1 (sock_bind_table ?s1) p = [n]"
    using nodes_at_dlist [OF m1(2)] nn by (simp add: port_nodes_def)
  moreover have "nodes_at m2 l \<noteq> [n]" by (rule nodes_overwritten [OF m2(2) u])
  then have "port_nodes m2 ((sock_bind_table ?s1)(q := l + 1)) p \<noteq> [n]"
    using pq nn by (simp add: port_nodes_def)
  ultimately show ?thesis by (intro exI conjI) (assumption | simp)+
qed

end
