(* ===== verification/Datagram.thy ===== *)
theory Datagram
  imports Boot
begin

text \<open>
  Sending and receiving (\<open>udpdk_sendto\<close> and \<open>udpdk_recvfrom\<close> of \<open>udpdk/udpdk_syscall.c\<close>).
  A packet is a chain of message buffers with the bytes that lie behind \<open>rte_pktmbuf_mtod\<close>;
  the headers are written and read byte by byte, on a little-endian machine. What DPDK does
  (buffers, rings, the IPv4 checksum) is a parameter.
\<close>

subsection \<open>Packets and DPDK\<close>

record mbuf =
  data :: "u8 list"
  data_len :: u16
  pkt_len :: u32
  nb_segs :: u16
  packet_type :: u32
  l2_len :: u16
  l3_len :: u16
  l4_len :: u16
  ol_flags :: u64

type_synonym packet = "mbuf list"

text \<open>
  \<open>rte_pktmbuf_alloc\<close> (\<open>None\<close> when the pool is empty), \<open>rte_pktmbuf_free\<close>,
  \<open>rte_ring_enqueue\<close> (\<open>None\<close> when the ring is full), \<open>rte_ipv4_cksum\<close> on the 20 bytes of a
  header, and the size of the data room of a buffer.
\<close>

record ('r, 'm) dpdk =
  pktmbuf_alloc :: "'m \<Rightarrow> 'm option"
  pktmbuf_free :: "packet \<Rightarrow> 'm \<Rightarrow> 'm"
  ring_enqueue :: "packet \<Rightarrow> 'r \<Rightarrow> 'r option"
  ipv4_cksum :: "u8 list \<Rightarrow> u16"
  data_room :: nat

text \<open>The global \<open>config\<close>, as far as packets depend on it.\<close>

record configuration =
  src_mac_addr :: "u8 list"
  dst_mac_addr :: "u8 list"
  src_ip_addr :: u32

text \<open>The transmit rings of \<open>exch_slots\<close> and the pool of buffers, beside the sockets.\<close>

record ('r, 'm) dstate = sstate +
  tx_q :: "nat \<Rightarrow> 'r"
  mbuf_pool :: 'm

subsection \<open>Bytes\<close>

definition bytes16 :: "u16 \<Rightarrow> u8 list" where
  "bytes16 w = [ucast w, ucast (drop_bit 8 w)]"

definition bytes32 :: "u32 \<Rightarrow> u8 list" where
  "bytes32 w = [ucast w, ucast (drop_bit 8 w), ucast (drop_bit 16 w), ucast (drop_bit 24 w)]"

definition word16 :: "u8 list \<Rightarrow> u16" where
  "word16 xs = ucast (xs ! 0) OR push_bit 8 (ucast (xs ! 1))"

definition word32 :: "u8 list \<Rightarrow> u32" where
  "word32 xs = ucast (xs ! 0) OR push_bit 8 (ucast (xs ! 1)) OR push_bit 16 (ucast (xs ! 2)) OR
     push_bit 24 (ucast (xs ! 3))"

definition load16 :: "u8 list \<Rightarrow> nat \<Rightarrow> u16 option" where
  "load16 xs off = (if off + 2 \<le> length xs then Some (word16 (drop off xs)) else None)"

definition load32 :: "u8 list \<Rightarrow> nat \<Rightarrow> u32 option" where
  "load32 xs off = (if off + 4 \<le> length xs then Some (word32 (drop off xs)) else None)"

text \<open>\<open>rte_cpu_to_be_16\<close> and \<open>rte_be_to_cpu_16\<close> on a little-endian machine.\<close>

definition bswap16 :: "u16 \<Rightarrow> u16" where
  "bswap16 w = push_bit 8 w OR drop_bit 8 w"

subsection \<open>Headers\<close>

definition ETHER_HDR_LEN :: nat where "ETHER_HDR_LEN = 14"
definition IPV4_HDR_LEN :: nat where "IPV4_HDR_LEN = 20"
definition UDP_HDR_LEN :: nat where "UDP_HDR_LEN = 8"
definition RTE_ETHER_TYPE_IPV4 :: u16 where "RTE_ETHER_TYPE_IPV4 = 0x0800"
definition IP_VHL_DEF :: u8 where "IP_VHL_DEF = 0x40 OR 0x05"
definition IP_DEFTTL :: u8 where "IP_DEFTTL = 64"

definition ether_hdr :: "configuration \<Rightarrow> u8 list" where
  "ether_hdr cfg = dst_mac_addr cfg @ src_mac_addr cfg @ bytes16 (bswap16 RTE_ETHER_TYPE_IPV4)"

text \<open>Version, service, total length, id, fragment offset, TTL, protocol, checksum, addresses.\<close>

definition ipv4_hdr :: "u16 \<Rightarrow> u16 \<Rightarrow> u32 \<Rightarrow> u32 \<Rightarrow> u8 list" where
  "ipv4_hdr tot_len cksum src dst =
     [IP_VHL_DEF, 0] @ bytes16 (bswap16 tot_len) @ bytes16 0 @ bytes16 0 @
     [IP_DEFTTL, ucast IPPROTO_UDP] @ bytes16 cksum @ bytes32 src @ bytes32 dst"

definition udp_hdr :: "u16 \<Rightarrow> u16 \<Rightarrow> u16 \<Rightarrow> u8 list" where
  "udp_hdr src_port dst_port dlen =
     bytes16 src_port @ bytes16 dst_port @ bytes16 (bswap16 dlen) @ bytes16 0"

subsection \<open>\<open>udpdk_sendto\<close>\<close>

definition sendto_validate_args ::
  "u32 \<Rightarrow> u32 \<Rightarrow> sockaddr_in option \<Rightarrow> u32 \<Rightarrow> 'a sstate_scheme \<Rightarrow> (int \<times> 'a sstate_scheme) option" where
  "sendto_validate_args fd flags dest_addr addrlen s =
     (if int NUM_SOCKETS_MAX \<le> sint fd then Some (fail ENOTSOCK s)
      else do {
        sl \<leftarrow> slot_at fd s;
        Some (if used sl = 0 then fail EBADF s
              else if flags \<noteq> 0 then fail EINVAL s
              else if dest_addr = None \<or> addrlen = 0 then fail EINVAL s
              else (0, s)) })"

text \<open>The implicit bind of a socket that sends before it was bound.\<close>

definition ensure_bound :: "u32 \<Rightarrow> 'a sstate_scheme \<Rightarrow> (int \<times> 'a sstate_scheme) option" where
  "ensure_bound fd s = do {
     sl \<leftarrow> slot_at fd s;
     if bound sl = 0
     then udpdk_bind fd
            (Some \<lparr>sin_family = ucast AF_INET, sin_port = of_int (btable_get_free_port s),
                   sin_addr = INADDR_ANY\<rparr>)
            (of_nat sizeof_sockaddr_in) s
     else Some (0, s) }"

text \<open>The packet for a payload of \<open>len\<close> bytes, sent from the socket of a slot.\<close>

definition build_packet ::
  "('r, 'm, 'z) dpdk_scheme \<Rightarrow> configuration \<Rightarrow> slot_info \<Rightarrow> sockaddr_in \<Rightarrow> u64 \<Rightarrow> u8 list \<Rightarrow> mbuf" where
  "build_packet ops cfg sl dest len payload =
     (let src = (if bound sl \<noteq> 0 \<and> ip_addr sl \<noteq> INADDR_ANY then ip_addr sl else src_ip_addr cfg);
          tot_len = ucast (len + of_nat IPV4_HDR_LEN + of_nat UDP_HDR_LEN);
          cksum = ipv4_cksum ops (ipv4_hdr tot_len 0 src (sin_addr dest));
          plen = ucast (len + of_nat ETHER_HDR_LEN + of_nat IPV4_HDR_LEN + of_nat UDP_HDR_LEN)
      in \<lparr>data = ether_hdr cfg @ ipv4_hdr tot_len cksum src (sin_addr dest) @
            udp_hdr (ucast (udp_port sl)) (sin_port dest) (ucast (len + of_nat UDP_HDR_LEN)) @ payload,
          data_len = ucast plen, pkt_len = plen, nb_segs = 1,
          packet_type = 0x1 OR 0x10 OR 0x200,
          l2_len = of_nat ETHER_HDR_LEN, l3_len = of_nat IPV4_HDR_LEN, l4_len = of_nat UDP_HDR_LEN,
          ol_flags = 0\<rparr>)"

text \<open>
  \<open>buf\<close> holds the bytes readable at the pointer. Copying more than there is, or more than the
  buffer has room for, is undefined: the code checks neither.
\<close>

definition udpdk_sendto ::
  "('r, 'm, 'z) dpdk_scheme \<Rightarrow> configuration \<Rightarrow> u32 \<Rightarrow> u8 list \<Rightarrow> u64 \<Rightarrow> u32 \<Rightarrow> sockaddr_in option \<Rightarrow> u32 \<Rightarrow>
    ('r, 'm, 'a) dstate_scheme \<Rightarrow> (int \<times> ('r, 'm, 'a) dstate_scheme) option" where
  "udpdk_sendto ops cfg fd buf len flags dest_addr addrlen s = do {
     (r, s) \<leftarrow> sendto_validate_args fd flags dest_addr addrlen s;
     if r < 0 then Some (-1, s)
     else do {
       (r, s) \<leftarrow> ensure_bound fd s;
       if r < 0 then Some (-1, s)
       else case pktmbuf_alloc ops (mbuf_pool s) of
         None \<Rightarrow> Some (fail ENOMEM s)
       | Some pool \<Rightarrow> do {
           let s = s\<lparr>mbuf_pool := pool\<rparr>;
           dest \<leftarrow> dest_addr;
           sl \<leftarrow> slot_at fd s;
           if length buf < unat len \<or>
              data_room ops < ETHER_HDR_LEN + IPV4_HDR_LEN + UDP_HDR_LEN + unat len then None
           else let pkt = [build_packet ops cfg sl dest len (take (unat len) buf)]
                in case ring_enqueue ops pkt (tx_q s (unat fd)) of
                     None \<Rightarrow> Some (-1, s\<lparr>errno := Some ENOBUFS, mbuf_pool := pktmbuf_free ops pkt (mbuf_pool s)\<rparr>)
                   | Some q \<Rightarrow> Some (sint len, s\<lparr>tx_q := (tx_q s)(unat fd := q)\<rparr>) } } }"

subsection \<open>\<open>udpdk_recvfrom\<close>\<close>

definition recvfrom_validate_args ::
  "u32 \<Rightarrow> u8 list option \<Rightarrow> u32 \<Rightarrow> u32 option \<Rightarrow> 'a sstate_scheme \<Rightarrow> (int \<times> 'a sstate_scheme) option" where
  "recvfrom_validate_args fd buf flags addrlen s =
     (if int NUM_SOCKETS_MAX \<le> sint fd then Some (fail ENOTSOCK s)
      else do {
        sl \<leftarrow> slot_at fd s;
        Some (if used sl = 0 then fail EBADF s
              else if flags \<noteq> 0 then fail EINVAL s
              else if buf = None \<and> addrlen \<noteq> None then fail EINVAL s
              else (0, s)) })"

text \<open>
  The busy wait. \<open>intr i\<close> is what the \<open>i\<close>-th read of the volatile \<open>interrupted\<close> yields, and
  \<open>deq i\<close> the outcome of the dequeue that follows it (\<open>None\<close>: the ring was empty). The result
  is the packet, if one was dequeued, and the number of the next read. The loop may run for
  ever.
\<close>

partial_function (option) recv_wait ::
  "(nat \<Rightarrow> bool) \<Rightarrow> (nat \<Rightarrow> packet option) \<Rightarrow> nat \<Rightarrow> (packet option \<times> nat) option" where
  "recv_wait intr deq i =
     (if intr i then Some (None, Suc i)
      else case deq i of
             Some pkt \<Rightarrow> Some (Some pkt, Suc i)
           | None \<Rightarrow> recv_wait intr deq (Suc i))"

text \<open>The source address as a \<open>struct sockaddr_in\<close> in memory.\<close>

definition sockaddr_bytes :: "u16 \<Rightarrow> u32 \<Rightarrow> u8 list" where
  "sockaddr_bytes port addr = bytes16 (ucast AF_INET) @ bytes16 port @ bytes32 addr @ replicate 8 0"

text \<open>Overwriting the first bytes of a buffer; running over its end is undefined.\<close>

definition write_buf :: "u8 list \<Rightarrow> u8 list \<Rightarrow> u8 list option" where
  "write_buf out b = (if length out \<le> length b then Some (out @ drop (length out) b) else None)"

definition write_src ::
  "mbuf \<Rightarrow> u8 list option \<Rightarrow> u32 option \<Rightarrow> (u8 list option \<times> u32 option) option" where
  "write_src sg src_addr addrlen = (case src_addr of
       None \<Rightarrow> Some (src_addr, addrlen)
     | Some b \<Rightarrow> do {
         port \<leftarrow> load16 (data sg) (ETHER_HDR_LEN + IPV4_HDR_LEN);
         addr \<leftarrow> load32 (data sg) (ETHER_HDR_LEN + 12);
         alen \<leftarrow> addrlen;
         let eff = (if of_nat sizeof_sockaddr_in \<le> alen then of_nat sizeof_sockaddr_in else alen);
         b' \<leftarrow> write_buf (take (unat eff) (sockaddr_bytes port addr)) b;
         Some (Some b', Some eff) })"

text \<open>
  The loop over the segments; the first argument counts the segments left, and \<open>first\<close> is
  \<open>s == 0\<close>.
\<close>

fun copy_segs :: "nat \<Rightarrow> bool \<Rightarrow> u16 \<Rightarrow> packet \<Rightarrow> u32 \<Rightarrow> u8 list \<Rightarrow> (u8 list \<times> u32) option" where
  "copy_segs 0 first dgram segs left out = Some (out, left)"
| "copy_segs (Suc n) first dgram [] left out = None"
| "copy_segs (Suc n) first dgram (sg # segs) left out =
     (let off = (if first then of_nat (ETHER_HDR_LEN + IPV4_HDR_LEN + UDP_HDR_LEN) else 0);
          seg_len = ucast (data_len sg) - off;
          seg_len = (if first \<and> ucast dgram < seg_len then ucast dgram else seg_len);
          eff = (if seg_len < left then seg_len else left)
      in if length (data sg) < unat off + unat eff then None
         else let out = out @ take (unat eff) (drop (unat off) (data sg));
                  left = left - eff
              in if left = 0 then Some (out, left) else copy_segs n False dgram segs left out)"

text \<open>The result: the value returned, the three buffers, and the state.\<close>

definition udpdk_recvfrom ::
  "('r, 'm, 'z) dpdk_scheme \<Rightarrow> (nat \<Rightarrow> bool) \<Rightarrow> (nat \<Rightarrow> packet option) \<Rightarrow>
    u32 \<Rightarrow> u8 list option \<Rightarrow> u64 \<Rightarrow> u32 \<Rightarrow> u8 list option \<Rightarrow> u32 option \<Rightarrow> ('r, 'm, 'a) dstate_scheme \<Rightarrow>
    (int \<times> u8 list option \<times> u8 list option \<times> u32 option \<times> ('r, 'm, 'a) dstate_scheme) option" where
  "udpdk_recvfrom ops intr deq fd buf len flags src_addr addrlen s = do {
     (r, s) \<leftarrow> recvfrom_validate_args fd buf flags addrlen s;
     if r < 0 then Some (-1, buf, src_addr, addrlen, s)
     else do {
       (pkt, i) \<leftarrow> recv_wait intr deq 0;
       if intr i then Some (-1, buf, src_addr, addrlen, s\<lparr>errno := Some EINTR\<rparr>)
       else case pkt of
         None \<Rightarrow> None
       | Some [] \<Rightarrow> None
       | Some (sg # segs) \<Rightarrow> do {
           dlen \<leftarrow> load16 (data sg) (ETHER_HDR_LEN + IPV4_HDR_LEN + 4);
           let dgram = bswap16 dlen - of_nat UDP_HDR_LEN;
           (src_addr, addrlen) \<leftarrow> write_src sg src_addr addrlen;
           (out, left) \<leftarrow> copy_segs (unat (nb_segs sg)) True dgram (sg # segs) (ucast len) [];
           buf \<leftarrow> (case buf of
                      None \<Rightarrow> if out = [] then Some None else None
                    | Some b \<Rightarrow> do { b \<leftarrow> write_buf out b; Some (Some b) });
           Some (sint (len - ucast left), buf, src_addr, addrlen,
                 s\<lparr>mbuf_pool := pktmbuf_free ops (sg # segs) (mbuf_pool s)\<rparr>) } } }"

end
