(* ===== verification/Datagram_Props.thy ===== *)
theory Datagram_Props
  imports Datagram
begin

text \<open>
  Bytes of packets, the loop over the segments of a received packet, and the round trip: what
  one socket sends, another receives.
\<close>

subsection \<open>Bytes\<close>

lemma word16_bytes16 [simp]: "word16 (bytes16 w @ xs) = w"
  by (rule bit_word_eqI)
    (auto simp: word16_def bytes16_def bit_or_iff bit_push_bit_iff bit_ucast_iff bit_drop_bit_eq)

lemma word32_bytes32 [simp]: "word32 (bytes32 w @ xs) = w"
proof (rule bit_word_eqI)
  have far: "\<not> n - 8 < 8 \<Longrightarrow> \<not> n - 16 < 8 \<Longrightarrow> 24 + (n - 24) = n" for n :: nat by linarith
  show "bit (word32 (bytes32 w @ xs)) n = bit w n" if "n < LENGTH(32)" for n
    using that by (auto simp: word32_def bytes32_def bit_or_iff bit_push_bit_iff bit_ucast_iff
        bit_drop_bit_eq) (metis far)
qed

lemma length_bytes [simp]: "length (bytes16 w) = 2" "length (bytes32 v) = 4"
  by (simp_all add: bytes16_def bytes32_def)

lemma bswap16_twice [simp]: "bswap16 (bswap16 w) = w"
  by (rule bit_word_eqI)
    (auto simp: bswap16_def bit_or_iff bit_push_bit_iff bit_drop_bit_eq)

lemma load16_at: "length pre = off \<Longrightarrow> load16 (pre @ bytes16 w @ xs) off = Some w"
  by (simp add: load16_def)

lemma load32_at: "length pre = off \<Longrightarrow> load32 (pre @ bytes32 w @ xs) off = Some w"
  by (simp add: load32_def)

lemmas hdr_lens = ETHER_HDR_LEN_def IPV4_HDR_LEN_def UDP_HDR_LEN_def

subsection \<open>The segments of a packet\<close>

text \<open>The payload of a segment: the whole of it, or what follows the headers in the first one.\<close>

definition seg_bytes :: "bool \<Rightarrow> u16 \<Rightarrow> mbuf \<Rightarrow> u8 list" where
  "seg_bytes first dgram sg =
     (if first then take (min (unat (data_len sg) - 42) (unat dgram)) (drop 42 (data sg))
      else take (unat (data_len sg)) (data sg))"

fun payload_of :: "bool \<Rightarrow> u16 \<Rightarrow> packet \<Rightarrow> u8 list" where
  "payload_of first dgram [] = []"
| "payload_of first dgram (sg # segs) = seg_bytes first dgram sg @ payload_of False dgram segs"

definition seg_ok :: "bool \<Rightarrow> mbuf \<Rightarrow> bool" where
  "seg_ok first sg \<longleftrightarrow> unat (data_len sg) \<le> length (data sg) \<and> (first \<longrightarrow> 42 \<le> unat (data_len sg))"

fun segs_ok :: "bool \<Rightarrow> packet \<Rightarrow> bool" where
  "segs_ok first [] = True"
| "segs_ok first (sg # segs) = (seg_ok first sg \<and> segs_ok False segs)"

lemma unat_ucast_u16 [simp]: "unat (ucast w :: u32) = unat w" for w :: u16
  by (rule unat_ucast_up) simp

text \<open>The length that the loop computes for a segment.\<close>

definition code_seg_len :: "bool \<Rightarrow> u16 \<Rightarrow> mbuf \<Rightarrow> u32" where
  "code_seg_len first dgram sg =
     (let off = (if first then of_nat (ETHER_HDR_LEN + IPV4_HDR_LEN + UDP_HDR_LEN) else 0);
          seg_len = ucast (data_len sg) - off
      in if first \<and> ucast dgram < seg_len then ucast dgram else seg_len)"

lemma seg_len_eq:
  assumes "seg_ok first sg"
  shows "unat (code_seg_len first dgram sg) = length (seg_bytes first dgram sg)"
proof (cases first)
  case True
  then have "42 \<le> (ucast (data_len sg) :: u32)"
    using assms by (simp add: seg_ok_def word_le_nat_alt)
  then have "unat (ucast (data_len sg) - 42 :: u32) = unat (data_len sg) - 42"
    by (simp add: unat_sub)
  then show ?thesis
    using assms True by (auto simp: code_seg_len_def seg_ok_def seg_bytes_def hdr_lens word_less_nat_alt)
next
  case False
  then show ?thesis
    using assms by (simp add: code_seg_len_def seg_ok_def seg_bytes_def)
qed

lemma seg_take:
  assumes "seg_ok first sg" "n \<le> length (seg_bytes first dgram sg)"
  shows "take n (drop (if first then 42 else 0) (data sg)) = take n (seg_bytes first dgram sg)"
    and "(if first then 42 else 0) + n \<le> length (data sg)"
  using assms by (auto simp: seg_bytes_def seg_ok_def split: if_splits)

lemma copy_segs_unfold:
  "copy_segs (Suc n) first dgram (sg # segs) left out =
    (let off = (if first then of_nat (ETHER_HDR_LEN + IPV4_HDR_LEN + UDP_HDR_LEN) else 0) :: u32;
         eff = (if code_seg_len first dgram sg < left then code_seg_len first dgram sg else left)
     in if length (data sg) < unat off + unat eff then None
        else if left - eff = 0 then Some (out @ take (unat eff) (drop (unat off) (data sg)), left - eff)
        else copy_segs n False dgram segs (left - eff) (out @ take (unat eff) (drop (unat off) (data sg))))"
  unfolding copy_segs.simps code_seg_len_def Let_def by (rule refl)

lemma copy_segs_step:
  assumes eff: "eff = (if code_seg_len first dgram sg < left then code_seg_len first dgram sg else left)"
    and off: "off = (if first then 42 else 0)"
    and fit: "off + unat eff \<le> length (data sg)" "take (unat eff) (drop off (data sg)) = bs"
  shows "copy_segs (length (sg # segs)) first dgram (sg # segs) left out =
    (if left - eff = 0 then Some (out @ bs, left - eff)
     else copy_segs (length segs) False dgram segs (left - eff) (out @ bs))"
proof -
  have o: "unat (if first then of_nat (ETHER_HDR_LEN + IPV4_HDR_LEN + UDP_HDR_LEN) else 0 :: u32) = off"
    by (simp add: off hdr_lens)
  have l: "length (sg # segs) = Suc (length segs)" by simp
  have nf: "\<not> length (data sg) < off + unat eff" using fit(1) by simp
  show ?thesis
    unfolding l copy_segs_unfold Let_def eff [symmetric] o fit(2) using nf by (rule if_not_P)
qed

lemma copy_segs_refine:
  assumes "segs_ok first segs"
  shows "copy_segs (length segs) first dgram segs left out =
    Some (out @ take (unat left) (payload_of first dgram segs),
      left - of_nat (min (unat left) (length (payload_of first dgram segs))))"
  using assms
proof (induction segs arbitrary: first left out)
  case (Cons sg segs)
  let ?B = "seg_bytes first dgram sg" and ?len = "code_seg_len first dgram sg"
  define eff where "eff = (if ?len < left then ?len else left)"
  have ok: "seg_ok first sg" using Cons.prems by simp
  have eff: "unat eff = min (unat left) (length ?B)"
    using seg_len_eq [OF ok, of dgram] by (simp add: eff_def word_less_nat_alt min_def)
  note t = seg_take [OF ok, of "unat eff" dgram]
  have tk: "take (unat eff) (drop (if first then 42 else 0) (data sg)) = take (unat left) ?B"
    using t(1) eff by (simp add: min_def)
  have left: "unat (left - eff) = unat left - length ?B"
    using eff by (subst unat_sub) (auto simp: word_le_nat_alt)
  have fit: "(if first then 42 else 0) + unat eff \<le> length (data sg)"
    using t(2) eff by simp
  note step = copy_segs_step [OF eff_def refl fit tk, of segs out]
  show ?case
  proof (cases "left - eff = 0")
    case True
    then have le: "unat left \<le> length ?B" and "eff = left" using left by simp_all
    then show ?thesis using step by (simp add: min_def)
  next
    case False
    then have gt: "length ?B < unat left" using left unat_nonzero [OF False] by simp
    then have u: "unat eff = length ?B" using eff by simp
    have e: "eff = of_nat (length ?B)" unfolding u [symmetric] by simp
    let ?P = "payload_of False dgram segs"
    have m: "min (unat left) (length ?B + length ?P) = length ?B + min (unat (left - eff)) (length ?P)"
      using left gt by simp
    have l: "left - eff - of_nat k = left - of_nat (length ?B + k)" for k
      unfolding e by simp
    have "copy_segs (length segs) False dgram segs (left - eff) (out @ take (unat left) ?B) =
        Some (out @ take (unat left) (?B @ ?P), left - of_nat (min (unat left) (length ?B + length ?P)))"
      using Cons.IH [of False "left - eff" "out @ take (unat left) ?B"] Cons.prems
      unfolding m l left by simp
    then show ?thesis using step False by simp
  qed
qed simp

subsection \<open>The packets that are built\<close>

definition macs_ok :: "configuration \<Rightarrow> bool" where
  "macs_ok cfg \<longleftrightarrow> length (src_mac_addr cfg) = 6 \<and> length (dst_mac_addr cfg) = 6"

lemma length_hdrs [simp]:
  "macs_ok cfg \<Longrightarrow> length (ether_hdr cfg) = 14"
  "length (ipv4_hdr tot ck src dst) = 20" "length (udp_hdr sp dp dl) = 8"
  by (simp_all add: ether_hdr_def ipv4_hdr_def udp_hdr_def macs_ok_def)

text \<open>The source address that a packet carries.\<close>

definition packet_src :: "configuration \<Rightarrow> slot_info \<Rightarrow> u32" where
  "packet_src cfg sl = (if bound sl \<noteq> 0 \<and> ip_addr sl \<noteq> INADDR_ANY then ip_addr sl else src_ip_addr cfg)"

lemma build_layout:
  assumes "macs_ok cfg"
  shows "load16 (data (build_packet ops cfg sl dest len payload)) 34 = Some (ucast (udp_port sl))"
    and "load16 (data (build_packet ops cfg sl dest len payload)) 36 = Some (sin_port dest)"
    and "load16 (data (build_packet ops cfg sl dest len payload)) 38 = Some (bswap16 (ucast (len + 8)))"
    and "load32 (data (build_packet ops cfg sl dest len payload)) 26 = Some (packet_src cfg sl)"
    and "load32 (data (build_packet ops cfg sl dest len payload)) 30 = Some (sin_addr dest)"
    and "drop 42 (data (build_packet ops cfg sl dest len payload)) = payload"
    and "length (data (build_packet ops cfg sl dest len payload)) = 42 + length payload"
    and "nb_segs (build_packet ops cfg sl dest len payload) = 1"
    and "data_len (build_packet ops cfg sl dest len payload) = ucast (ucast (len + 42) :: u32)"
proof -
  let ?p = "build_packet ops cfg sl dest len payload"
  let ?tl = "ucast (len + 28) :: u16" and ?src = "packet_src cfg sl"
  let ?ck = "ipv4_cksum ops (ipv4_hdr ?tl 0 ?src (sin_addr dest))"
  let ?ip1 = "[IP_VHL_DEF, 0] @ bytes16 (bswap16 ?tl) @ bytes16 0 @ bytes16 0 @
     [IP_DEFTTL, ucast IPPROTO_UDP] @ bytes16 ?ck"
  have len: "len + of_nat IPV4_HDR_LEN + of_nat UDP_HDR_LEN = len + 28"
      "len + of_nat ETHER_HDR_LEN + of_nat IPV4_HDR_LEN + of_nat UDP_HDR_LEN = len + 42"
      "len + of_nat UDP_HDR_LEN = len + 8"
    by (simp_all add: hdr_lens add.assoc)
  have d: "data ?p = ether_hdr cfg @ ipv4_hdr ?tl ?ck ?src (sin_addr dest) @
      udp_hdr (ucast (udp_port sl)) (sin_port dest) (ucast (len + 8)) @ payload"
    unfolding build_packet_def Let_def len packet_src_def by simp
  have a: "data ?p = (ether_hdr cfg @ ipv4_hdr ?tl ?ck ?src (sin_addr dest)) @
      bytes16 (ucast (udp_port sl)) @ (bytes16 (sin_port dest) @ bytes16 (bswap16 (ucast (len + 8))) @ bytes16 0 @ payload)"
    unfolding d udp_hdr_def by simp
  show "load16 (data ?p) 34 = Some (ucast (udp_port sl))"
    unfolding a by (rule load16_at) (simp add: assms)
  have b: "data ?p = (ether_hdr cfg @ ipv4_hdr ?tl ?ck ?src (sin_addr dest) @ bytes16 (ucast (udp_port sl))) @
      bytes16 (sin_port dest) @ (bytes16 (bswap16 (ucast (len + 8))) @ bytes16 0 @ payload)"
    unfolding a by simp
  show "load16 (data ?p) 36 = Some (sin_port dest)"
    unfolding b by (rule load16_at) (simp add: assms)
  have c: "data ?p = (ether_hdr cfg @ ipv4_hdr ?tl ?ck ?src (sin_addr dest) @ bytes16 (ucast (udp_port sl)) @
      bytes16 (sin_port dest)) @ bytes16 (bswap16 (ucast (len + 8))) @ (bytes16 0 @ payload)"
    unfolding a by simp
  show "load16 (data ?p) 38 = Some (bswap16 (ucast (len + 8)))"
    unfolding c by (rule load16_at) (simp add: assms)
  have e: "data ?p = (ether_hdr cfg @ ?ip1) @ bytes32 ?src @ (bytes32 (sin_addr dest) @
      udp_hdr (ucast (udp_port sl)) (sin_port dest) (ucast (len + 8)) @ payload)"
    unfolding d ipv4_hdr_def by simp
  show "load32 (data ?p) 26 = Some ?src"
    unfolding e by (rule load32_at) (simp add: assms)
  have f: "data ?p = (ether_hdr cfg @ ?ip1 @ bytes32 ?src) @ bytes32 (sin_addr dest) @
      (udp_hdr (ucast (udp_port sl)) (sin_port dest) (ucast (len + 8)) @ payload)"
    unfolding e by simp
  show "load32 (data ?p) 30 = Some (sin_addr dest)"
    unfolding f by (rule load32_at) (simp add: assms)
  show "drop 42 (data ?p) = payload" "length (data ?p) = 42 + length payload"
    unfolding d by (simp_all add: assms)
  show "nb_segs ?p = 1" "data_len ?p = ucast (ucast (len + 42) :: u32)"
    unfolding build_packet_def Let_def len by simp_all
qed

subsection \<open>The busy wait\<close>

lemma recv_wait_intr: "intr i \<Longrightarrow> recv_wait intr deq i = Some (None, Suc i)"
  by (subst recv_wait.simps) simp

lemma recv_wait_got: "\<not> intr i \<Longrightarrow> deq i = Some pkt \<Longrightarrow> recv_wait intr deq i = Some (Some pkt, Suc i)"
  by (subst recv_wait.simps) simp

lemma recv_wait_again: "\<not> intr i \<Longrightarrow> deq i = None \<Longrightarrow> recv_wait intr deq i = recv_wait intr deq (Suc i)"
  by (subst recv_wait.simps) simp

text \<open>The wait ends at the first read at which the flag is up or the ring has a packet.\<close>

lemma recv_wait_until:
  assumes "\<And>j. i \<le> j \<Longrightarrow> j < i + n \<Longrightarrow> \<not> intr j \<and> deq j = None"
  shows "recv_wait intr deq i = recv_wait intr deq (i + n)"
  using assms
proof (induction n arbitrary: i)
  case (Suc n)
  have "recv_wait intr deq i = recv_wait intr deq (Suc i)"
    using Suc.prems [of i] recv_wait_again by simp
  also have "\<dots> = recv_wait intr deq (Suc i + n)"
    by (rule Suc.IH) (use Suc.prems in simp)
  finally show ?case by simp
qed simp

text \<open>It returns exactly when that happens.\<close>

lemma recv_wait_ends:
  "recv_wait intr deq i \<noteq> None \<longleftrightarrow> (\<exists>j \<ge> i. intr j \<or> deq j \<noteq> None)"
proof
  assume "recv_wait intr deq i \<noteq> None"
  then obtain y where "recv_wait intr deq i = Some y" by blast
  then show "\<exists>j \<ge> i. intr j \<or> deq j \<noteq> None"
  proof (rule recv_wait.raw_induct [rotated])
    fix f :: "(nat \<Rightarrow> bool) \<Rightarrow> (nat \<Rightarrow> packet option) \<Rightarrow> nat \<Rightarrow> (packet option \<times> nat) option"
    fix intr deq i y
    assume IH: "\<And>intr deq i y. f intr deq i = Some y \<Longrightarrow> \<exists>j \<ge> i. intr j \<or> deq j \<noteq> None"
      and step: "(if intr i then Some (None, Suc i)
        else case deq i of Some pkt \<Rightarrow> Some (Some pkt, Suc i) | None \<Rightarrow> f intr deq (Suc i)) = Some y"
    show "\<exists>j \<ge> i. intr j \<or> deq j \<noteq> None"
    proof (cases "intr i \<or> deq i \<noteq> None")
      case False
      then have "f intr deq (Suc i) = Some y" using step by auto
      from IH [OF this] show ?thesis using Suc_leD by blast
    qed blast
  qed
next
  assume "\<exists>j \<ge> i. intr j \<or> deq j \<noteq> None"
  then have ex: "\<exists>n. intr (i + n) \<or> deq (i + n) \<noteq> None" using le_Suc_ex by blast
  define n where "n = (LEAST n. intr (i + n) \<or> deq (i + n) \<noteq> None)"
  have n: "intr (i + n) \<or> deq (i + n) \<noteq> None" unfolding n_def by (rule LeastI_ex [OF ex])
  have "\<not> intr (i + m) \<and> deq (i + m) = None" if "m < n" for m
    using not_less_Least [OF that [unfolded n_def]] by blast
  then have "\<not> intr j \<and> deq j = None" if "i \<le> j" "j < i + n" for j
    using that le_Suc_ex [OF that(1)] by auto
  then have "recv_wait intr deq i = recv_wait intr deq (i + n)" by (rule recv_wait_until)
  also have "\<dots> \<noteq> None"
    using n recv_wait_intr [of intr "i + n" deq] recv_wait_got [of intr "i + n" deq]
    by (cases "intr (i + n)") auto
  finally show "recv_wait intr deq i \<noteq> None" .
qed

subsection \<open>Sending\<close>

lemma sint_fd:
  fixes fd :: u32
  assumes "unat fd < NUM_SOCKETS_MAX"
  shows "\<not> int NUM_SOCKETS_MAX \<le> sint fd"
proof -
  have "unat fd < 2 ^ 31" using assms by (simp add: NUM_SOCKETS_MAX_def)
  from sint_small [OF this] assms show ?thesis by linarith
qed

lemma sendto_valid:
  assumes "unat fd < NUM_SOCKETS_MAX" "used (slots s (unat fd)) \<noteq> 0" "addrlen \<noteq> 0"
  shows "sendto_validate_args fd 0 (Some dest) addrlen s = Some (0, s)"
  using assms(2,3) sint_fd [OF assms(1)] slot_at_in [OF assms(1), of s]
  by (simp add: sendto_validate_args_def)

text \<open>What the call does once the socket is bound.\<close>

lemma udpdk_sendto_bound:
  assumes fd: "unat fd < NUM_SOCKETS_MAX" and sl: "used (slots s (unat fd)) \<noteq> 0" "bound (slots s (unat fd)) \<noteq> 0"
    and al: "addrlen \<noteq> 0" and len: "unat len \<le> length buf" "42 + unat len \<le> data_room ops"
    and pkt: "pkt = [build_packet ops cfg (slots s (unat fd)) dest len (take (unat len) buf)]"
  shows "udpdk_sendto ops cfg fd buf len 0 (Some dest) addrlen s =
    (case pktmbuf_alloc ops (mbuf_pool s) of
       None \<Rightarrow> Some (-1, s\<lparr>errno := Some ENOMEM\<rparr>)
     | Some pool \<Rightarrow> (case ring_enqueue ops pkt (tx_q s (unat fd)) of
         None \<Rightarrow> Some (-1, s\<lparr>errno := Some ENOBUFS, mbuf_pool := pktmbuf_free ops pkt pool\<rparr>)
       | Some q \<Rightarrow> Some (sint len, s\<lparr>mbuf_pool := pool, tx_q := (tx_q s)(unat fd := q)\<rparr>)))"
proof -
  have eb: "ensure_bound fd s = Some (0, s)"
    using sl slot_at_in [OF fd, of s] by (simp add: ensure_bound_def)
  show ?thesis
    unfolding udpdk_sendto_def sendto_valid [OF fd sl(1) al] pkt
    using eb len slot_at_in [OF fd, of "s\<lparr>mbuf_pool := x\<rparr>" for x]
    by (auto simp: fail_def hdr_lens slot_at_def fd Let_def split: option.split)
qed

subsection \<open>Receiving\<close>

lemma recvfrom_valid:
  assumes "unat fd < NUM_SOCKETS_MAX" "used (slots s (unat fd)) \<noteq> 0"
  shows "recvfrom_validate_args fd (Some b) 0 addrlen s = Some (0, s)"
  using assms(2) sint_fd [OF assms(1)] slot_at_in [OF assms(1), of s]
  by (simp add: recvfrom_validate_args_def)

lemma length_sockaddr [simp]: "length (sockaddr_bytes port addr) = 16"
  by (simp add: sockaddr_bytes_def)

text \<open>A packet of several segments: the bytes of its payload, as many as were asked for.\<close>

lemma udpdk_recvfrom_segs:
  assumes fd: "unat fd < NUM_SOCKETS_MAX" "used (slots s (unat fd)) \<noteq> 0"
    and wait: "\<And>j. j < k \<Longrightarrow> \<not> intr j \<and> deq j = None" "\<not> intr k" "deq k = Some (sg # segs)" "\<not> intr (Suc k)"
    and ok: "segs_ok True (sg # segs)" "nb_segs sg = of_nat (length (sg # segs))" "length (sg # segs) < 2 ^ 16"
    and dl: "load16 (data sg) 38 = Some dlen"
    and src: "write_src sg src_addr addrlen = Some (src', alen')"
    and len: "unat len < 2 ^ 32" "unat len \<le> length b"
    and P: "P = take (unat len) (payload_of True (bswap16 dlen - 8) (sg # segs))"
  shows "udpdk_recvfrom ops intr deq fd (Some b) len 0 src_addr addrlen s =
    Some (int (length P), Some (P @ drop (length P) b), src', alen',
      s\<lparr>mbuf_pool := pktmbuf_free ops (sg # segs) (mbuf_pool s)\<rparr>)"
proof -
  have w: "recv_wait intr deq 0 = Some (Some (sg # segs), Suc k)"
    using recv_wait_until [of 0 k intr deq] recv_wait_got [of intr k deq, OF wait(2,3)] wait(1) by simp
  have ul: "unat (ucast len :: u32) = unat len"
    using len(1) by (simp add: unsigned_ucast_eq take_bit_nat_eq_self)
  have nb: "unat (nb_segs sg) = length (sg # segs)"
    unfolding ok(2) unat_of_nat using ok(3) by simp
  let ?left = "ucast len - of_nat (min (unat len) (length (payload_of True (bswap16 dlen - 8) (sg # segs)))) :: u32"
  have c: "copy_segs (unat (nb_segs sg)) True (bswap16 dlen - 8) (sg # segs) (ucast len) [] = Some (P, ?left)"
    unfolding nb using copy_segs_refine [OF ok(1), of "bswap16 dlen - 8" "ucast len" "[]"] by (simp only: ul P append_Nil)
  have lP: "length P = min (unat len) (length (payload_of True (bswap16 dlen - 8) (sg # segs)))"
    by (simp add: P min.commute)
  then have le: "length P \<le> unat len" by simp
  have uP: "unat (of_nat (length P) :: u32) = length P"
    using le len(1) by (simp add: unat_of_nat)
  have "unat ?left = unat len - length P"
    unfolding lP [symmetric] using le ul uP by (subst unat_sub) (simp_all add: word_le_nat_alt)
  then have "unat (len - ucast ?left) = length P"
    using le by (subst unat_sub) (simp_all add: word_le_nat_alt)
  then have e: "len - ucast ?left = of_nat (length P)" by (rule unat_eq_of_nat)
  have "sint (of_nat (length P) :: u64) = int (length P)"
    using le len(1) by (simp add: signed_of_nat signed_take_bit_int_eq_self)
  with e have ret: "sint (len - ucast ?left) = int (length P)" by simp
  have wb: "write_buf P b = Some (P @ drop (length P) b)"
    using le len(2) by (simp add: write_buf_def)
  show ?thesis
    unfolding udpdk_recvfrom_def recvfrom_valid [OF fd]
    using w wait(4) dl src c wb ret by (simp add: hdr_lens Let_def)
qed

subsection \<open>What is sent is received\<close>

lemma built_payload:
  assumes "macs_ok cfg" "length payload = unat len" "42 + unat len < 2 ^ 16"
  shows "segs_ok True [build_packet ops cfg sl dest len payload]"
    and "payload_of True (bswap16 (bswap16 (ucast (len + 8))) - 8) [build_packet ops cfg sl dest len payload] = payload"
proof -
  let ?p = "build_packet ops cfg sl dest len payload"
  note B = build_layout [OF assms(1), of ops sl dest len payload]
  have u42: "unat (len + 42) = unat len + 42"
    using assms(3) by (simp add: unat_word_ariths)
  have u32: "unat (ucast (len + 42) :: u32) = unat len + 42"
    using unat_ucast_small [where w = "len + 42" and 'b = 32] assms(3) u42 by simp
  have dl: "unat (data_len ?p) = unat len + 42"
    unfolding B(9) using unat_ucast_small [where w = "ucast (len + 42) :: u32" and 'b = 16] assms(3) u32
    by (simp only: len_of_numeral_defs, simp)
  have u8: "unat (len + 8) = unat len + 8"
    using assms(3) by (simp add: unat_word_ariths)
  have "unat (ucast (len + 8) :: u16) = unat len + 8"
    using assms(3) u8 by (simp add: unsigned_ucast_eq take_bit_nat_eq_self)
  then have dg: "unat (ucast (len + 8) - 8 :: u16) = unat len"
    by (subst unat_sub) (simp_all add: word_le_nat_alt)
  show "segs_ok True [?p]"
    using dl B(7) assms(2) by (simp add: seg_ok_def)
  show "payload_of True (bswap16 (bswap16 (ucast (len + 8))) - 8) [?p] = payload"
    using dl dg B(6) assms(2) by (simp add: seg_bytes_def)
qed

lemma recv_built:
  assumes mac: "macs_ok cfg" and len: "length payload = unat len" "42 + unat len < 2 ^ 16"
    and fd: "unat fd < NUM_SOCKETS_MAX" "used (slots s (unat fd)) \<noteq> 0"
    and wait: "\<And>j. j < k \<Longrightarrow> \<not> intr j \<and> deq j = None" "\<not> intr k"
      "deq k = Some [build_packet ops cfg sl dest len payload]" "\<not> intr (Suc k)"
    and buf: "unat n < 2 ^ 32" "unat n \<le> length b" and src: "16 \<le> length sb" "16 \<le> al"
  shows "udpdk_recvfrom ops intr deq fd (Some b) n 0 (Some sb) (Some al) s =
    Some (int (min (unat n) (unat len)), Some (take (unat n) payload @ drop (min (unat n) (unat len)) b),
      Some (sockaddr_bytes (ucast (udp_port sl)) (packet_src cfg sl) @ drop 16 sb), Some 16,
      s\<lparr>mbuf_pool := pktmbuf_free ops [build_packet ops cfg sl dest len payload] (mbuf_pool s)\<rparr>)"
proof -
  let ?p = "build_packet ops cfg sl dest len payload"
  note B = build_layout [OF mac, of ops sl dest len payload] and P = built_payload [OF mac len, of ops sl dest]
  have w: "write_src ?p (Some sb) (Some al) =
      Some (Some (sockaddr_bytes (ucast (udp_port sl)) (packet_src cfg sl) @ drop 16 sb), Some 16)"
    using B(1,4) src by (simp add: write_src_def hdr_lens write_buf_def sizeof_sockaddr_in_def)
  have nb: "nb_segs ?p = of_nat (length [?p])" using B(8) by simp
  have l: "length (take (unat n) payload) = min (unat n) (unat len)" using len(1) by (simp add: min.commute)
  show ?thesis
    using udpdk_recvfrom_segs [where ops = ops and intr = intr and deq = deq,
        OF fd wait P(1) nb _ B(3) w buf refl] unfolding P(2) l by simp
qed

end
