(* ===== verification/Socket_Runs.thy ===== *)
theory Socket_Runs
  imports Datagram_Props
begin

text \<open>
  Sequences of socket calls: a step relation with one rule per call, the invariant of every
  state that can be reached, and what opening and closing sockets does to the counter of
  active zones. The theory also holds the laws of the socket options.
\<close>

subsection \<open>Options\<close>

lemma change_opt_keeps [simp]:
  "used (change_opt opt v sl) = used sl" "bound (change_opt opt v sl) = bound sl"
  "udp_port (change_opt opt v sl) = udp_port sl" "ip_addr (change_opt opt v sl) = ip_addr sl"
  by (simp_all add: change_opt_def Let_def)

lemma owner_same:
  assumes "i < NUM_SOCKETS_MAX" "bound v = bound (sl i)" "udp_port v = udp_port (sl i)" "ip_addr v = ip_addr (sl i)"
  shows "owner_of (sl(i := v)) = owner_of sl"
  using assms by (intro ext) (auto simp: owner_of_def)

lemma sock_inv_opt:
  assumes inv: "sock_inv s" and fd: "unat fd < NUM_SOCKETS_MAX"
  shows "sock_inv (set_slot fd (change_opt opt v (slots s (unat fd))) s)"
proof (rule sock_invI)
  let ?s = "set_slot fd (change_opt opt v (slots s (unat fd))) s"
  show "owners_ok (owner_of (slots ?s)) (bindings ?s)"
    using sock_invD(2) [OF inv] owner_same [OF fd] by (simp add: set_slot_def)
  show "slot_ok (slots ?s i)" if "i < NUM_SOCKETS_MAX" for i
    using sock_invD(3) [OF inv that] by (auto simp: set_slot_def slot_ok_def)
qed (use sock_invD(1) [OF inv] in \<open>simp add: set_slot_def\<close>)

text \<open>Which error a refused option call gives.\<close>

definition opt_error :: "slot_info \<Rightarrow> u32 \<Rightarrow> u32 \<Rightarrow> bool \<Rightarrow> error option" where
  "opt_error v level optname null =
     (if used v = 0 then Some EBADF else if level \<noteq> SOL_SOCKET then Some EINVAL
      else if optname \<noteq> SO_REUSEADDR \<and> optname \<noteq> SO_REUSEPORT then Some ENOPROTOOPT
      else if null then Some EFAULT else None)"

lemma opt_validate:
  assumes "unat fd < NUM_SOCKETS_MAX"
  shows "getsetsockopt_validate_args fd level optname optval optlen s =
    Some (case opt_error (slots s (unat fd)) level optname (optval = None \<or> optlen = None) of
      Some e \<Rightarrow> fail e s | None \<Rightarrow> (0, s))"
  using slot_at_in [OF assms, of s] by (simp add: getsetsockopt_validate_args_def opt_error_def)

lemma setsockopt_eq:
  assumes "unat fd < NUM_SOCKETS_MAX"
  shows "udpdk_setsockopt fd level optname optval optlen s =
    Some (case opt_error (slots s (unat fd)) level optname (optval = None) of
      Some e \<Rightarrow> fail e s
    | None \<Rightarrow> (0, set_slot fd (change_opt optname (the optval) (slots s (unat fd))) s))"
proof (cases "opt_error (slots s (unat fd)) level optname (optval = None)")
  case (Some e)
  then show ?thesis
    unfolding udpdk_setsockopt_def opt_validate [OF assms] by (simp add: fail_def)
next
  case None
  then obtain v where "optval = Some v" "level = SOL_SOCKET" "optname = SO_REUSEADDR \<or> optname = SO_REUSEPORT"
    by (auto simp: opt_error_def split: if_splits)
  then show ?thesis
    unfolding udpdk_setsockopt_def opt_validate [OF assms]
    using None slot_at_in [OF assms, of s] by (auto simp: SO_REUSEADDR_def SO_REUSEPORT_def)
qed

lemma getsockopt_eq:
  assumes "unat fd < NUM_SOCKETS_MAX"
  shows "udpdk_getsockopt fd level optname optval optlen s =
    Some (case opt_error (slots s (unat fd)) level optname (optval = None \<or> optlen = None) of
      Some e \<Rightarrow> (-1, optval, snd (fail e s))
    | None \<Rightarrow> (0, Some (of_bool (so_options (slots s (unat fd)) AND optname \<noteq> 0)), s))"
proof (cases "opt_error (slots s (unat fd)) level optname (optval = None \<or> optlen = None)")
  case (Some e)
  then show ?thesis
    unfolding udpdk_getsockopt_def opt_validate [OF assms] by (simp add: fail_def)
next
  case None
  then have "level = SOL_SOCKET" "optname = SO_REUSEADDR \<or> optname = SO_REUSEPORT"
    by (auto simp: opt_error_def split: if_splits)
  then show ?thesis
    unfolding udpdk_getsockopt_def opt_validate [OF assms]
    using None slot_at_in [OF assms, of s] by (auto simp: SO_REUSEADDR_def SO_REUSEPORT_def)
qed

subsection \<open>Steps\<close>

text \<open>
  One call, with a descriptor inside the array and a non-\<open>NULL\<close> address. The other cases are
  undefined in the code and have no step.
\<close>

inductive sock_step :: "'a sstate_scheme \<Rightarrow> 'a sstate_scheme \<Rightarrow> bool" where
  sock_open: "udpdk_socket family type protocol s = (r, s') \<Longrightarrow> sock_step s s'"
| sock_getopt: "unat fd < NUM_SOCKETS_MAX \<Longrightarrow>
    udpdk_getsockopt fd level optname optval optlen s = Some (r, v, s') \<Longrightarrow> sock_step s s'"
| sock_setopt: "unat fd < NUM_SOCKETS_MAX \<Longrightarrow>
    udpdk_setsockopt fd level optname optval len s = Some (r, s') \<Longrightarrow> sock_step s s'"
| sock_bind: "unat fd < NUM_SOCKETS_MAX \<Longrightarrow>
    udpdk_bind fd (Some a) addrlen s = Some (r, s') \<Longrightarrow> sock_step s s'"
| sock_close: "unat fd < NUM_SOCKETS_MAX \<Longrightarrow> udpdk_close fd s = Some (r, s') \<Longrightarrow> sock_step s s'"

lemma socket_keeps:
  assumes inv: "sock_inv s" and run: "udpdk_socket family type protocol s = (r, s')"
  shows "sock_inv s' \<and> sstate.more s' = sstate.more s"
proof -
  have bad: "sock_inv (snd (fail e s)) \<and> sstate.more (snd (fail e s)) = sstate.more s" for e using inv by simp
  have "snd (udpdk_socket family type protocol s) = s' \<Longrightarrow> ?thesis" if
    "family \<noteq> AF_INET \<or> type \<noteq> SOCK_DGRAM \<or> (protocol \<noteq> 0 \<and> protocol \<noteq> IPPROTO_UDP) \<or>
      of_nat NUM_SOCKETS_MAX < n_zones_active s"
    using that bad
    by (auto simp: udpdk_socket_def socket_validate_args_def fail_def split: if_splits)
  moreover have ?thesis if ok: "family = AF_INET" "type = SOCK_DGRAM" "protocol = 0 \<or> protocol = IPPROTO_UDP"
    "n_zones_active s \<le> of_nat NUM_SOCKETS_MAX"
  proof (cases "\<exists>i < NUM_SOCKETS_MAX. used (slots s i) = 0")
    case True
    with udpdk_socket_cases [OF ok] run obtain i where
      "s' = s\<lparr>slots := (slots s)(i := open_slot i (slots s i)), n_zones_active := n_zones_active s + 1\<rparr>"
      "i < NUM_SOCKETS_MAX" "used (slots s i) = 0" by auto
    then show ?thesis using sock_inv_open [OF inv] by simp
  next
    case False
    then have "udpdk_socket family type protocol s = fail ENOBUFS s"
      using udpdk_socket_cases [OF ok] by simp
    then have "s' = snd (fail ENOBUFS s)" using run by (metis snd_conv)
    then show ?thesis using bad [of ENOBUFS] by simp
  qed
  ultimately show ?thesis using run by fastforce
qed

lemma bind_keeps:
  assumes inv: "sock_inv s" and fd: "unat fd < NUM_SOCKETS_MAX"
  shows "\<exists>r s'. udpdk_bind fd (Some a) addrlen s = Some (r, s') \<and> sock_inv s' \<and> sstate.more s' = sstate.more s"
proof (cases "bind_error (slots s (unat fd)) a addrlen")
  case (Some e)
  then show ?thesis using udpdk_bind_invalid [OF fd Some] inv by auto
next
  case None
  then have ok: "used (slots s (unat fd)) \<noteq> 0" "bound (slots s (unat fd)) = 0" "good_addr a addrlen"
    by (simp_all add: bind_error_def split: if_splits)
  show ?thesis
    using udpdk_bind_done [OF inv fd ok] udpdk_bind_in_use [OF inv fd ok] by blast
qed

lemma close_keeps:
  assumes inv: "sock_inv s" and fd: "unat fd < NUM_SOCKETS_MAX"
  shows "\<exists>r s'. udpdk_close fd s = Some (r, s') \<and> sock_inv s' \<and> sstate.more s' = sstate.more s"
proof (cases "used (slots s (unat fd)) = 0")
  case True
  then have "udpdk_close fd s = Some (-1, snd (fail EBADF s))"
    using slot_at_in [OF fd, of s] by (simp add: udpdk_close_def close_validate_args_def fail_def)
  then show ?thesis using inv by auto
next
  case False
  then show ?thesis using udpdk_close_done [OF inv fd False] by blast
qed

text \<open>A call keeps the invariant, and changes nothing but the sockets and their table.\<close>

lemma sock_step_keeps: "sock_step s s' \<Longrightarrow> sock_inv s \<Longrightarrow> sock_inv s' \<and> sstate.more s' = sstate.more s"
proof (induction rule: sock_step.induct)
  case (sock_open family type protocol s r s')
  then show ?case using socket_keeps by blast
next
  case (sock_getopt fd level optname optval optlen s r v s')
  then show ?case by (auto simp: getsockopt_eq split: option.splits)
next
  case (sock_setopt fd level optname optval len s r s')
  then have "sock_inv (set_slot fd (change_opt optname (the optval) (slots s (unat fd))) s)"
    by (intro sock_inv_opt)
  with sock_setopt show ?case by (auto simp: setsockopt_eq fail_def set_slot_def split: option.splits)
next
  case (sock_bind fd a addrlen s r s')
  then show ?case using bind_keeps [of s fd a addrlen] by auto
next
  case (sock_close fd s r s')
  then show ?case using close_keeps [of s fd] by auto
qed

inductive sock_reach :: "'a sstate_scheme \<Rightarrow> 'a sstate_scheme \<Rightarrow> bool" where
  reach_start: "sock_reach s s"
| reach_step: "sock_reach s t \<Longrightarrow> sock_step t u \<Longrightarrow> sock_reach s u"

lemma sock_reach_inv: "sock_reach s t \<Longrightarrow> sock_inv s \<Longrightarrow> sock_inv t"
  by (induction rule: sock_reach.induct) (auto dest: sock_step_keeps)

subsection \<open>Opening and closing\<close>

fun open_close :: "nat \<Rightarrow> 'a sstate_scheme \<Rightarrow> 'a sstate_scheme option" where
  "open_close 0 s = Some s"
| "open_close (Suc n) s =
     (let (fd, s) = udpdk_socket AF_INET SOCK_DGRAM 0 s
      in if fd < 0 then None
         else do { (r, s) \<leftarrow> udpdk_close (of_int fd) s; open_close n s })"

definition all_closed :: "'a sstate_scheme \<Rightarrow> bool" where
  "all_closed s \<longleftrightarrow> (\<forall>i < NUM_SOCKETS_MAX. used (slots s i) = 0)"

lemma open_close_once:
  assumes inv: "sock_inv s" and cl: "all_closed s" and n: "n_zones_active s \<le> of_nat NUM_SOCKETS_MAX"
  shows "\<exists>s1 s2. udpdk_socket AF_INET SOCK_DGRAM 0 s = (0, s1) \<and> udpdk_close 0 s1 = Some (0, s2) \<and>
    sock_inv s2 \<and> all_closed s2 \<and> n_zones_active s2 = n_zones_active s + 2 \<and> bindings s2 = bindings s"
proof -
  let ?s1 = "s\<lparr>slots := (slots s)(0 := open_slot 0 (slots s 0)), n_zones_active := n_zones_active s + 1\<rparr>"
  have z: "0 < NUM_SOCKETS_MAX" by (simp add: NUM_SOCKETS_MAX_def)
  then have ex: "\<exists>i < NUM_SOCKETS_MAX. used (slots s i) = 0" using cl by (auto simp: all_closed_def)
  obtain i where i: "udpdk_socket AF_INET SOCK_DGRAM 0 s = (int i, s\<lparr>slots := (slots s)(i := open_slot i (slots s i)),
      n_zones_active := n_zones_active s + 1\<rparr>)" "\<forall>j < i. used (slots s j) \<noteq> 0"
    using udpdk_socket_cases [where protocol = 0, OF refl refl _ n] ex by auto
  have "i = 0"
  proof (rule ccontr)
    assume "i \<noteq> 0"
    then have "used (slots s 0) \<noteq> 0" using i(2) by simp
    then show False using cl z by (simp add: all_closed_def)
  qed
  with i(1) have run: "udpdk_socket AF_INET SOCK_DGRAM 0 s = (0, ?s1)" by simp
  have inv1: "sock_inv ?s1" using sock_inv_open [OF inv z] cl z by (simp add: all_closed_def)
  have fd: "unat (0 :: u32) < NUM_SOCKETS_MAX" using z by simp
  have u: "used (slots ?s1 (unat (0 :: u32))) \<noteq> 0" by (simp add: open_slot_def)
  obtain s2 where s2: "udpdk_close 0 ?s1 = Some (0, s2)" "sock_inv s2"
      "slots s2 = (slots ?s1)(0 := closed_slot (slots ?s1 0))" "n_zones_active s2 = n_zones_active ?s1 + 1"
      "bindings s2 = (case owner_of (slots ?s1) 0 of None \<Rightarrow> bindings ?s1
        | Some (port, ip) \<Rightarrow> (bindings ?s1)(port := remove_socket 0 (bindings ?s1 port)))"
    using udpdk_close_done [OF inv1 fd u] by auto
  have "owner_of (slots ?s1) 0 = None" by (simp add: owner_of_def open_slot_def)
  moreover have "all_closed s2" using cl s2(3) by (simp add: all_closed_def closed_slot_def)
  ultimately show ?thesis using run s2(1,2,4,5) by auto
qed

lemma open_close_run:
  assumes "sock_inv s" "all_closed s" "unat (n_zones_active s) + 2 * n \<le> NUM_SOCKETS_MAX + 2"
  shows "\<exists>s'. open_close n s = Some s' \<and> sock_inv s' \<and> all_closed s' \<and> bindings s' = bindings s \<and>
    unat (n_zones_active s') = unat (n_zones_active s) + 2 * n"
  using assms
proof (induction n arbitrary: s)
  case (Suc n)
  have le: "unat (n_zones_active s) \<le> 1024" using Suc.prems(3) by (simp add: NUM_SOCKETS_MAX_def)
  then have n: "n_zones_active s \<le> of_nat NUM_SOCKETS_MAX"
    by (simp add: word_le_nat_alt NUM_SOCKETS_MAX_def)
  obtain s1 s2 where s: "udpdk_socket AF_INET SOCK_DGRAM 0 s = (0, s1)" "udpdk_close 0 s1 = Some (0, s2)"
      "sock_inv s2" "all_closed s2" "n_zones_active s2 = n_zones_active s + 2" "bindings s2 = bindings s"
    using open_close_once [OF Suc.prems(1,2) n] by blast
  have c: "unat (n_zones_active s2) = unat (n_zones_active s) + 2"
    unfolding s(5) using le by (simp add: unat_word_ariths)
  have "open_close (Suc n) s = open_close n s2" using s(1,2) by simp
  with Suc.IH [OF s(3,4)] Suc.prems(3) c s(6) show ?case by auto
qed simp

end
