(* ===== verification/Properties_Memory.thy ===== *)
theory Properties_Memory
  imports Socket_Runs
begin

text \<open>
  Properties of the allocator of shared memory and of the linked lists, each with an instance.
\<close>

subsection \<open>Instances\<close>

text \<open>A footprint of one list, two nodes and an iterator; a list without and one with a node.\<close>

fun demo_fp :: footprint where
  "demo_fp ListObj = {64}"
| "demo_fp NodeObj = {128, 192}"
| "demo_fp IterObj = {256}"
| "demo_fp InfoObj = {}"

lemma demo_fp_separated: "separated demo_fp"
proof -
  have "p \<noteq> NULL" if "p \<in> demo_fp K" for K p
    using that by (cases K) auto
  moreover have "unat p + sizeof K \<le> unat q \<or> unat q + sizeof K' \<le> unat p"
    if "p \<in> demo_fp K" "q \<in> demo_fp K'" "(K, p) \<noteq> (K', q)" for K K' p q
    using that by (cases K; cases K') auto
  ultimately show ?thesis unfolding separated_def by blast
qed

definition demo_mem :: memory where
  "demo_mem = upd list_len (upd list_tail (upd list_head (\<lambda>_. 0) 64 (128 :: ptr)) 64 (128 :: ptr)) 64 (1 :: u32)"

definition demo_lists :: "memory \<Rightarrow> lshm" where
  "demo_lists m = \<lparr>mem = m, list_alloc = Some (demo_alloc 65536 4), node_alloc = Some (demo_alloc 131072 4),
     iter_alloc = Some (demo_alloc 192 1)\<rparr>"

lemma demo_lists_simps [simp]:
  "mem (demo_lists m) = m" "list_alloc (demo_lists m) = Some (demo_alloc 65536 4)"
  "node_alloc (demo_lists m) = Some (demo_alloc 131072 4)" "iter_alloc (demo_lists m) = Some (demo_alloc 192 1)"
  by (simp_all add: demo_lists_def)

lemma ld_zero: "ld (\<lambda>_. 0) a = 0"
proof -
  have "load_nat (\<lambda>_. 0) b n = 0" for b n by (induction n arbitrary: b) simp_all
  then show ?thesis by (simp add: ld_def)
qed

lemma demo_empty: "dlist demo_fp (\<lambda>_. 0) 64 []"
  by (simp add: dlist_def fld_def ld_zero)

lemma demo_one: "dlist demo_fp demo_mem 64 [128]"
proof -
  note s = demo_fp_separated
  have f: "64 \<in> demo_fp ListObj" "128 \<in> demo_fp NodeObj" by simp_all
  show ?thesis
    using s f unfolding dlist_def demo_mem_def
    by (simp add: mem_simps) (simp add: fld_def ld_zero)
qed

lemma demo_iter: "udpdk_shmalloc (demo_alloc 192 1) = (256, snd (udpdk_shmalloc (demo_alloc 192 1)))"
proof -
  have "fst (udpdk_shmalloc (demo_alloc 192 1)) = 256"
    by (subst shmalloc_ret) (simp_all add: elem_at_def)
  then show ?thesis by (metis prod.collapse)
qed

subsection \<open>The allocator\<close>

text \<open>
  C13: \<open>udpdk_shmalloc\<close> returns an element that is not in use and not \<open>NULL\<close>, and marks exactly
  that one as used, as long as fewer than \<open>size\<close> elements are in use; otherwise it returns
  \<open>NULL\<close> and changes nothing. Either way the allocator's invariant holds afterwards.
\<close>

theorem shmalloc_correct:
  assumes "alloc_inv a" "udpdk_shmalloc a = (p, a')"
  shows "alloc_inv a' \<and>
    (if card (live a) < unat (al_size a) then p \<notin> live a \<and> p \<noteq> NULL \<and> live a' = insert p (live a)
     else p = NULL \<and> a' = a)"
  using sh.get_fresh [OF assms(1)] sh.get_full [OF assms(1)] sh.get_inv [OF assms(1)] assms(2) by auto

lemma shmalloc_correct_witness:
  "\<exists>p a'. udpdk_shmalloc (demo_alloc 65536 4) = (p, a') \<and> alloc_inv a' \<and> p \<noteq> NULL \<and> live a' = {p}"
proof -
  obtain p a' where r: "udpdk_shmalloc (demo_alloc 65536 4) = (p, a')" by fastforce
  have inv: "alloc_inv (demo_alloc 65536 4)" by (rule demo_alloc_inv) simp_all
  show ?thesis using shmalloc_correct [OF inv r] r by (simp add: unat_of_nat)
qed

text \<open>
  C14: \<open>udpdk_shfree\<close> makes an element in use free again and no other one. Freeing an element
  that is not in use, or an address outside the pool, changes nothing: a double free is
  harmless. The invariant is kept.
\<close>

theorem shfree_correct:
  assumes "alloc_inv a"
  shows "alloc_inv (udpdk_shfree a p) \<and>
    (p \<in> live a \<longrightarrow> live (udpdk_shfree a p) = live a - {p}) \<and>
    (p \<notin> live a \<longrightarrow> \<not> in_pool a p \<or> (\<exists>k < unat (al_size a). p = elem_at a (of_nat k)) \<longrightarrow> udpdk_shfree a p = a)"
  using sh.free_inv [OF assms] sh.free_objs [OF assms] shfree_not_live [OF assms] shfree_outside [of a p] assms
  by (auto simp: alloc_inv_def)

lemma shfree_correct_witness:
  "alloc_inv (udpdk_shfree (demo_alloc 65536 4) 0) \<and> udpdk_shfree (demo_alloc 65536 4) 0 = demo_alloc 65536 4"
proof -
  have inv: "alloc_inv (demo_alloc 65536 4)" by (rule demo_alloc_inv) simp_all
  have "\<not> in_pool (demo_alloc 65536 4) 0" by (simp add: in_pool_def pool_start_def)
  then show ?thesis using shfree_correct [OF inv, of 0] inv by simp
qed

text \<open>
  Taking \<open>n\<close> elements from an allocator that has them gives \<open>n\<close> different addresses, none
  of them in use before; giving them back in any order restores the set of elements in use.
\<close>

theorem shmalloc_take_put:
  assumes "alloc_inv a" "card (live a) + n \<le> unat (al_size a)" "take_objs udpdk_shmalloc n a = (ps, a')"
    and "mset qs = mset ps"
  shows "distinct ps \<and> length ps = n \<and> NULL \<notin> set ps \<and> set ps \<inter> live a = {} \<and>
    live (put_objs udpdk_shfree qs a') = live a"
  using sh.take_objs_fresh [OF assms(1-3)] sh.take_put_objs [OF assms] by simp

lemma shmalloc_take_put_witness:
  "\<exists>ps a'. take_objs udpdk_shmalloc 4 (demo_alloc 65536 4) = (ps, a') \<and> length ps = 4 \<and>
    live (put_objs udpdk_shfree (rev ps) a') = {}"
proof -
  obtain ps a' where r: "take_objs udpdk_shmalloc 4 (demo_alloc 65536 4) = (ps, a')" by fastforce
  have inv: "alloc_inv (demo_alloc 65536 4)" by (rule demo_alloc_inv) simp_all
  show ?thesis
    using shmalloc_take_put [OF inv _ r, of "rev ps"] r by (simp add: unat_of_nat)
qed

subsection \<open>Lists\<close>

text \<open>
  \<open>list_rpush\<close> of a node that is not in the list appends it, returns it, and leaves every
  object alone but the list and its nodes, whose values stay.
\<close>

theorem list_rpush_correct:
  assumes "separated F" "dlist F (mem s) self ns" "node \<in> F NodeObj" "node \<notin> set ns" "length ns + 1 < 2 ^ 32"
  shows "\<exists>m'. list_rpush self node s = Some (node, s\<lparr>mem := m'\<rparr>) \<and> dlist F m' self (ns @ [node]) \<and>
    frame F (touched self (insert node (set ns))) (mem s) m' \<and> vals_kept F (mem s) m'"
  by (rule list_rpush_refine [OF assms])

lemma list_rpush_correct_witness:
  "\<exists>m'. list_rpush 64 192 (demo_lists demo_mem) = Some (192, (demo_lists demo_mem)\<lparr>mem := m'\<rparr>) \<and>
    dlist demo_fp m' 64 [128, 192]"
  using list_rpush_correct [of demo_fp "demo_lists demo_mem" 64 "[128]" 192] demo_fp_separated demo_one by auto

text \<open>
  \<open>list_lpush\<close> puts the node in front, with the same frame.
\<close>

theorem list_lpush_correct:
  assumes "separated F" "dlist F (mem s) self ns" "node \<in> F NodeObj" "node \<notin> set ns" "length ns + 1 < 2 ^ 32"
  shows "\<exists>m'. list_lpush self node s = Some (node, s\<lparr>mem := m'\<rparr>) \<and> dlist F m' self (node # ns) \<and>
    frame F (touched self (insert node (set ns))) (mem s) m' \<and> vals_kept F (mem s) m'"
  by (rule list_lpush_refine [OF assms])

lemma list_lpush_correct_witness:
  "\<exists>m'. list_lpush 64 192 (demo_lists demo_mem) = Some (192, (demo_lists demo_mem)\<lparr>mem := m'\<rparr>) \<and>
    dlist demo_fp m' 64 [192, 128]"
  using list_lpush_correct [of demo_fp "demo_lists demo_mem" 64 "[128]" 192] demo_fp_separated demo_one by auto

text \<open>
  \<open>list_rpop\<close> and \<open>list_lpop\<close> take the last and the first node off the list and return it,
  or return \<open>NULL\<close> for an empty list.
\<close>

theorem list_pop_correct:
  assumes "separated F" "dlist F (mem s) self ns"
  shows "(\<exists>m'. list_rpop self s = Some (last_or NULL ns, s\<lparr>mem := m'\<rparr>) \<and> dlist F m' self (butlast ns)) \<and>
    (\<exists>m'. list_lpop self s = Some (head_or NULL ns, s\<lparr>mem := m'\<rparr>) \<and> dlist F m' self (tl ns))"
  using list_rpop_refine [OF assms] list_lpop_refine [OF assms] by blast

lemma list_pop_correct_witness:
  "\<exists>m'. list_rpop 64 (demo_lists demo_mem) = Some (128, (demo_lists demo_mem)\<lparr>mem := m'\<rparr>) \<and> dlist demo_fp m' 64 []"
  using list_pop_correct [of demo_fp "demo_lists demo_mem" 64 "[128]"] demo_fp_separated demo_one by auto

text \<open>
  \<open>list_remove\<close> unlinks a node wherever it is in the list and gives exactly that node back
  to the allocator; the other nodes keep their order and their values.
\<close>

theorem list_remove_correct:
  assumes "separated F" "dlist F (mem s) self (xs @ node # ys)" "node_alloc s = Some a"
  shows "\<exists>m'. list_remove self node s = Some (s\<lparr>mem := m', node_alloc := Some (udpdk_shfree a node)\<rparr>) \<and>
    dlist F m' self (xs @ ys) \<and> frame F (touched self (set xs \<union> set ys)) (mem s) m' \<and> vals_kept F (mem s) m'"
  by (rule list_remove_refine [OF assms])

lemma list_remove_correct_witness:
  "\<exists>m'. list_remove 64 128 (demo_lists demo_mem) =
      Some ((demo_lists demo_mem)\<lparr>mem := m', node_alloc := Some (udpdk_shfree (demo_alloc 131072 4) 128)\<rparr>) \<and>
    dlist demo_fp m' 64 []"
  using list_remove_correct [of demo_fp "demo_lists demo_mem" 64 "[]" 128 "[]"] demo_fp_separated demo_one by auto

text \<open>
  \<open>list_find\<close> ends and returns the first node with the wanted value, or \<open>NULL\<close>; it changes
  nothing but the iterator it takes and gives back.
\<close>

theorem list_find_correct:
  assumes "separated F" "dlist F (mem s) self ns"
    and "iter_alloc s = Some a" "udpdk_shmalloc a = (it, a')" "it \<in> F IterObj"
  shows "\<exists>m'. list_find self val s = Some (head_or NULL (filter (\<lambda>n. fld node_val (mem s) n = val) ns),
      s\<lparr>mem := m', iter_alloc := Some (udpdk_shfree a' it)\<rparr>) \<and> frame F {(IterObj, it)} (mem s) m'"
  by (rule list_find_refine [OF assms])

lemma list_find_correct_witness:
  "\<exists>r s'. list_find 64 7 (demo_lists demo_mem) = Some (r, s')"
  using list_find_correct [of demo_fp "demo_lists demo_mem" 64 "[128]" "demo_alloc 192 1" 256, OF _ _ _ demo_iter, of 7]
    demo_fp_separated demo_one by auto

text \<open>
  \<open>list_at\<close> returns the node at an index, counted from the front for 0, 1, ... and from the
  back for -1, -2, ..., and \<open>NULL\<close> beyond either end.
\<close>

theorem list_at_correct:
  assumes "separated F" "dlist F (mem s) self ns"
    and "iter_alloc s = Some a" "udpdk_shmalloc a = (it, a')" "it \<in> F IterObj"
  shows "\<exists>s'. list_at self index s = Some (nth_node ns (sint index), s')"
  using list_at_refine [OF assms, of index] by blast

lemma list_at_correct_witness: "\<exists>s'. list_at 64 (-1) (demo_lists demo_mem) = Some (128, s')"
  using list_at_correct [of demo_fp "demo_lists demo_mem" 64 "[128]" "demo_alloc 192 1" 256, OF _ _ _ demo_iter, of "-1"]
    demo_fp_separated demo_one by (auto simp: nth_node_def)

text \<open>
  \<open>list_spush\<close> (insertion behind the first node) breaks a list of one node: the new node
  becomes the last one, but \<open>tail\<close> still names the first, so no sequence of nodes describes the
  result any more.
\<close>

theorem list_spush_breaks_tail:
  assumes "separated F" "dlist F (mem s) self [h]" "node \<in> F NodeObj" "node \<noteq> h"
  shows "\<exists>m'. list_spush self node s = Some (node, s\<lparr>mem := m'\<rparr>) \<and> nodes_at m' self = [h, node] \<and>
    fld list_tail m' self = h \<and> (\<forall>ns. \<not> dlist F m' self ns)"
  by (rule list_spush_one [OF assms])

lemma list_spush_breaks_tail_witness:
  "\<exists>m'. list_spush 64 192 (demo_lists demo_mem) = Some (192, (demo_lists demo_mem)\<lparr>mem := m'\<rparr>) \<and>
    nodes_at m' 64 = [128, 192] \<and> (\<forall>ns. \<not> dlist demo_fp m' 64 ns)"
  using list_spush_breaks_tail [of demo_fp "demo_lists demo_mem" 64 128 192] demo_fp_separated demo_one by auto

end
