(* ===== verification/Properties_Table.thy ===== *)
theory Properties_Table
  imports Properties_Memory
begin

text \<open>
  Properties of the binding table, each with an instance.
\<close>

text \<open>
  C5: \<open>btable_add_binding\<close> implements the abstract table: it accepts the binding exactly when it
  is compatible with every binding of the port, then puts it in front (wildcard address) or at
  the end of that port's sequence, and otherwise returns -1 and changes no binding. The other
  ports are untouched and the invariant of the table (no leak, no sharing, pools consistent) is
  kept, whenever fewer than \<open>NUM_SOCKETS_MAX\<close> bindings exist and the elements of the pools are as
  large as the objects kept in them.
\<close>

theorem btable_add_refines:
  assumes "table_ok s" "n_bound (bindings s) < NUM_SOCKETS_MAX"
  shows "\<exists>r s'. btable_add_binding sk ip port opts s = Some (r, s') \<and> table_ok s' \<and>
    bshm.more s' = bshm.more s \<and>
    (if list_all (compatible ip opts) (bindings s port)
     then r = 0 \<and> bindings s' = (bindings s)(port := insert_binding (new_info sk ip opts) (bindings s port))
     else r = -1 \<and> bindings s' = bindings s)"
  by (rule table_ok_add [OF assms])

lemma btable_add_refines_witness:
  "\<exists>s'. btable_add_binding 3 167772161 20480 0 demo_sock = Some (0, s') \<and> table_ok s' \<and>
    bindings s' 20480 = [new_info 3 167772161 0]"
proof -
  have "n_bound (bindings demo_sock) < NUM_SOCKETS_MAX"
    by (simp add: n_bound_def NUM_SOCKETS_MAX_def)
  from btable_add_refines [of demo_sock, OF _ this, of 3 167772161 20480 0] show ?thesis
    by (auto simp: insert_binding_def INADDR_ANY_def)
qed

text \<open>
  C6: \<open>btable_del_binding\<close> on a port with bindings ends, takes the first binding of the socket
  off the port's sequence and no other, frees the list when it becomes empty, and keeps the
  invariant, so that everything the binding used is free again.
\<close>

theorem btable_del_refines:
  assumes "table_ok s" "bindings s port \<noteq> []"
  shows "\<exists>s'. btable_del_binding sk port s = Some s' \<and> table_ok s' \<and> bshm.more s' = bshm.more s \<and>
    bindings s' = (bindings s)(port := remove_socket sk (bindings s port))"
  by (rule table_ok_del [OF assms])

lemma btable_del_refines_witness:
  "\<exists>(s :: sstate) s'. bindings s 20480 = [new_info 3 167772161 0] \<and> btable_del_binding 3 20480 s = Some s' \<and>
    bindings s' 20480 = []"
proof -
  have n: "n_bound (bindings demo_sock) < NUM_SOCKETS_MAX"
    by (simp add: n_bound_def NUM_SOCKETS_MAX_def)
  obtain s :: sstate where s: "table_ok s" "bindings s 20480 = [new_info 3 167772161 0]"
    using table_ok_add [of demo_sock, OF _ n, of 3 167772161 20480 0]
    by (auto simp: insert_binding_def INADDR_ANY_def)
  then show ?thesis using btable_del_refines [of s 20480 3] by auto
qed

text \<open>
  Deleting what was just added gives the table back, on every port and in order.
\<close>

theorem btable_add_del_roundtrip:
  assumes "table_ok s" "n_bound (bindings s) < NUM_SOCKETS_MAX"
    and "list_all (compatible ip opts) (bindings s port)" "sk \<notin> bi_sockfd ` set (bindings s port)"
  shows "\<exists>s1 s2. btable_add_binding sk ip port opts s = Some (0, s1) \<and>
    btable_del_binding sk port s1 = Some s2 \<and> table_ok s2 \<and> bindings s2 = bindings s"
proof -
  obtain s1 where s1: "btable_add_binding sk ip port opts s = Some (0, s1)" "table_ok s1"
      "bindings s1 = (bindings s)(port := insert_binding (new_info sk ip opts) (bindings s port))"
    using bt.add_law [OF assms(1,2), of sk ip port opts] assms(3) by auto
  obtain s2 where s2: "btable_del_binding sk port s1 = Some s2" "table_ok s2"
      "bindings s2 = (bindings s1)(port := remove_socket sk (bindings s1 port))"
    using bt.del_law [OF s1(2), of port sk] s1(3) by (auto simp: insert_binding_def split: if_splits)
  have "remove_socket sk (insert_binding (new_info sk ip opts) (bindings s port)) = bindings s port"
    by (rule remove_inserted [OF assms(4)])
  then have "bindings s2 = bindings s" using s1(3) s2(3) by auto
  with s1 s2 show ?thesis by blast
qed

lemma btable_add_del_roundtrip_witness:
  "\<exists>s1 s2. btable_add_binding 3 0 20480 2 demo_sock = Some (0, s1) \<and>
    btable_del_binding 3 20480 s1 = Some s2 \<and> bindings s2 = (\<lambda>_. [])"
proof -
  have "n_bound (bindings demo_sock) < NUM_SOCKETS_MAX"
    by (simp add: n_bound_def NUM_SOCKETS_MAX_def)
  from btable_add_del_roundtrip [of demo_sock, OF _ this, of 0 2 20480 3] show ?thesis by auto
qed

text \<open>
  \<open>btable_get_free_port\<close> returns the lowest port without a binding, or -1 when every port
  has one.
\<close>

theorem btable_get_free_port_lowest:
  assumes "table_inv s"
  shows "(btable_get_free_port s = -1 \<and> (\<forall>p. bindings s p \<noteq> [])) \<or>
    (\<exists>p. btable_get_free_port s = int (unat p) \<and> bindings s p = [] \<and> (\<forall>q < p. bindings s q \<noteq> []))"
  by (rule btable_get_free_port_refine [OF assms])

lemma btable_get_free_port_lowest_witness: "btable_get_free_port demo_sock = 0"
proof -
  have inv: "table_inv demo_sock" using demo_sock_simps(5) by (simp add: table_ok_def)
  have p0: "uint p = 0" if "\<forall>q. \<not> q < p" for p :: u16
  proof -
    from that have "\<not> 0 < p" by blast
    then show ?thesis by (simp add: word_neq_0_conv [symmetric])
  qed
  show ?thesis using btable_get_free_port_lowest [OF inv] by (auto dest: p0)
qed



subsection \<open>The table as the initialisers leave it\<close>

text \<open>A reservation of memory zones as DPDK makes them, far apart.\<close>

definition demo_zone :: "string \<Rightarrow> nat" where
  "demo_zone name =
     (if name = pool_name ListObj then 1 else if name = pool_name NodeObj then 2
      else if name = pool_name IterObj then 3 else if name = pool_name InfoObj then 4 else 5)"

definition demo_reserve :: "string \<Rightarrow> u32 \<Rightarrow> (ptr \<times> (nat \<Rightarrow> u32)) option" where
  "demo_reserve name len = Some (of_nat (demo_zone name * 2 ^ 40), \<lambda>_. 0)"

lemma demo_zone_bounds: "1 \<le> demo_zone name \<and> demo_zone name \<le> 5"
  by (simp add: demo_zone_def)

lemma demo_zone_kind: "K \<noteq> K' \<Longrightarrow> demo_zone (pool_name K) \<noteq> demo_zone (pool_name K')"
  by (cases K; cases K') (simp_all add: demo_zone_def)

lemma demo_zone_addr: "unat (of_nat (demo_zone name * 2 ^ 40) :: ptr) = demo_zone name * 2 ^ 40"
  unfolding unat_of_nat using demo_zone_bounds [of name] by simp

lemma demo_reserve_ok: "zones_ok demo_reserve"
  unfolding zones_ok_def
proof (intro conjI allI impI)
  fix K l show "\<exists>a w. demo_reserve (pool_name K) l = Some (a, w)" by (simp add: demo_reserve_def)
next
  fix n l a w assume "demo_reserve n l = Some (a, w)"
  then have a: "unat a = demo_zone n * 2 ^ 40" using demo_zone_addr by (auto simp: demo_reserve_def)
  then show "unat a + unat l < 2 ^ 47" using demo_zone_bounds [of n] unat_bound [of l] by simp
  show "64 dvd unat a" unfolding a by (intro dvd_mult) simp
  show "a \<noteq> NULL" using a demo_zone_bounds [of n] by auto
next
  fix K l a w K' l' a' w'
  assume K: "K \<noteq> K'" "demo_reserve (pool_name K) l = Some (a, w)" "demo_reserve (pool_name K') l' = Some (a', w')"
  then have a: "unat a = demo_zone (pool_name K) * 2 ^ 40" "unat a' = demo_zone (pool_name K') * 2 ^ 40"
    using demo_zone_addr by (auto simp: demo_reserve_def)
  have "demo_zone (pool_name K) < demo_zone (pool_name K') \<or> demo_zone (pool_name K') < demo_zone (pool_name K)"
    using demo_zone_kind [OF K(1)] by linarith
  then show "unat a + unat l \<le> unat a' \<or> unat a' + unat l' \<le> unat a"
    unfolding a using unat_bound [of l] unat_bound [of l'] by auto
qed

text \<open>
  After the initialisation of the shared memory, on any memory zones as DPDK gives them,
  the table is empty and satisfies its invariant, and the first binding succeeds and is the
  only one.
\<close>

theorem first_binding_works:
  assumes "zones_ok reserve" "shared_init reserve s = Some s0"
  shows "table_inv s0 \<and> bindings s0 = (\<lambda>_. []) \<and>
    (\<exists>s1. btable_add_binding sk ip port opts s0 = Some (0, s1) \<and> table_inv s1 \<and>
      bindings s1 = (\<lambda>_. [])(port := [new_info sk ip opts]))"
proof -
  have b: "booted reserve s0" using shared_init_booted [OF assms(1), of s] assms(2) by auto
  note t = booted_table [OF b]
  show ?thesis
    using btable_add_refine [OF t(1) booted_room [OF assms(1) b] booted_free [OF b], of sk ip port opts] t
    by (auto simp: insert_binding_def)
qed

lemma first_binding_works_witness:
  "\<exists>s0 s1. shared_init demo_reserve demo_sock = Some s0 \<and> btable_add_binding 0 0 20480 0 s0 = Some (0, s1) \<and>
    bindings s1 20480 = [new_info 0 0 0]"
proof -
  obtain s0 where "shared_init demo_reserve demo_sock = Some s0"
    using shared_init_booted [OF demo_reserve_ok, of demo_sock] by blast
  with first_binding_works [OF demo_reserve_ok this, of 0 0 20480 0] show ?thesis by auto
qed

text \<open>
  C28: The element size is computed as \<open>(elem_size + 63) / 64\<close>, which is one byte for the lists,
  nodes, iterators and bindings, so the objects of a second binding overlap those of the
  first. After the initialisation, two bindings on different ports both return success, but
  the second one has overwritten the list of the first: its nodes are no longer what they were.
\<close>

theorem second_binding_corrupts_first:
  assumes "zones_ok reserve" "shared_init reserve s = Some s0" "p \<noteq> q"
  shows "\<exists>s1 s2. btable_add_binding sk ip p opts s0 = Some (0, s1) \<and>
    btable_add_binding sk' ip' q opts' s1 = Some (0, s2) \<and>
    port_nodes (mem s1) (sock_bind_table s1) p \<noteq> [] \<and>
    port_nodes (mem s2) (sock_bind_table s2) p \<noteq> port_nodes (mem s1) (sock_bind_table s1) p"
proof -
  have b: "booted reserve s0" using shared_init_booted [OF assms(1), of s] assms(2) by auto
  show ?thesis by (rule boot_second_bind [OF assms(1) b assms(3)])
qed

lemma second_binding_corrupts_first_witness:
  "\<exists>s0 s1 s2. shared_init demo_reserve demo_sock = Some s0 \<and>
    btable_add_binding 0 0 20480 0 s0 = Some (0, s1) \<and> btable_add_binding 1 0 20736 0 s1 = Some (0, s2) \<and>
    port_nodes (mem s2) (sock_bind_table s2) 20480 \<noteq> port_nodes (mem s1) (sock_bind_table s1) 20480"
proof -
  obtain s0 where i: "shared_init demo_reserve demo_sock = Some s0"
    using shared_init_booted [OF demo_reserve_ok, of demo_sock] by blast
  then show ?thesis
    using second_binding_corrupts_first [OF demo_reserve_ok i, of 20480 20736 0 0 0 1 0 0] by auto
qed

end
