(* ===== verification/Properties_Sockets.thy ===== *)
theory Properties_Sockets
  imports Properties_Table
begin

text \<open>
  Properties of the socket calls, each with an instance.
\<close>

subsection \<open>Opening\<close>

text \<open>
  \<open>udpdk_socket\<close> with good arguments, a counter within the limit and an unused slot returns
  the lowest unused descriptor, initialises that slot (in use, unbound, no options), counts it,
  and changes no other slot and no binding; the invariant of slots and table is kept.
\<close>

theorem udpdk_socket_lowest:
  assumes "sock_inv s" "protocol = 0 \<or> protocol = IPPROTO_UDP"
    and "n_zones_active s \<le> of_nat NUM_SOCKETS_MAX" "\<exists>i < NUM_SOCKETS_MAX. used (slots s i) = 0"
  shows "\<exists>i s'. udpdk_socket AF_INET SOCK_DGRAM protocol s = (int i, s') \<and> sock_inv s' \<and>
    i < NUM_SOCKETS_MAX \<and> used (slots s i) = 0 \<and> (\<forall>j < i. used (slots s j) \<noteq> 0) \<and>
    used (slots s' i) = 1 \<and> bound (slots s' i) = 0 \<and> so_options (slots s' i) = 0 \<and>
    (\<forall>j. j \<noteq> i \<longrightarrow> slots s' j = slots s j) \<and>
    n_zones_active s' = n_zones_active s + 1 \<and> bindings s' = bindings s"
proof -
  obtain i where i: "udpdk_socket AF_INET SOCK_DGRAM protocol s = (int i,
        s\<lparr>slots := (slots s)(i := open_slot i (slots s i)), n_zones_active := n_zones_active s + 1\<rparr>)"
      "i < NUM_SOCKETS_MAX" "used (slots s i) = 0" "\<forall>j < i. used (slots s j) \<noteq> 0"
    using udpdk_socket_cases [OF refl refl assms(2,3)] assms(4) by auto
  show ?thesis
    using i sock_inv_open [OF assms(1) i(2,3)] by (intro exI [of _ i] exI) (auto simp: open_slot_def)
qed

lemma udpdk_socket_lowest_witness:
  "\<exists>s'. udpdk_socket AF_INET SOCK_DGRAM 0 demo_sock = (1, s') \<and> sock_inv s' \<and> used (slots s' 1) = 1"
proof -
  have e: "\<exists>i < NUM_SOCKETS_MAX. used (slots demo_sock i) = 0"
    by (rule exI [of _ 1]) (simp add: NUM_SOCKETS_MAX_def closed_def)
  have n: "n_zones_active demo_sock \<le> of_nat NUM_SOCKETS_MAX" by (simp add: NUM_SOCKETS_MAX_def)
  obtain i s' where i: "udpdk_socket AF_INET SOCK_DGRAM 0 demo_sock = (int i, s')" "sock_inv s'"
      "used (slots demo_sock i) = 0" "\<forall>j < i. used (slots demo_sock j) \<noteq> 0" "used (slots s' i) = 1"
    using udpdk_socket_lowest [OF demo_sock_inv _ n e, of 0] by auto
  have "i = 1"
  proof -
    have "i \<noteq> 0" using i(3) by (cases "i = 0") (simp_all add: closed_def)
    moreover have "\<not> 1 < i" using i(4) by (auto simp: closed_def)
    ultimately show ?thesis by simp
  qed
  with i show ?thesis by auto
qed

text \<open>
  Every other call of \<open>udpdk_socket\<close> fails with -1 and the error code of the first check that
  fails (family, type, protocol, number of sockets), and changes nothing but \<open>errno\<close>.
\<close>

theorem udpdk_socket_errors:
  "udpdk_socket family type protocol s = (r, s') \<Longrightarrow>
    (if family \<noteq> AF_INET then r = -1 \<and> s' = s\<lparr>errno := Some EAFNOSUPPORT\<rparr>
     else if type \<noteq> SOCK_DGRAM then r = -1 \<and> s' = s\<lparr>errno := Some EPROTONOSUPPORT\<rparr>
     else if protocol \<noteq> 0 \<and> protocol \<noteq> IPPROTO_UDP then r = -1 \<and> s' = s\<lparr>errno := Some EINVAL\<rparr>
     else if of_nat NUM_SOCKETS_MAX < n_zones_active s \<or> (\<forall>i < NUM_SOCKETS_MAX. used (slots s i) \<noteq> 0)
     then r = -1 \<and> s' = s\<lparr>errno := Some ENOBUFS\<rparr> else 0 \<le> r)"
proof -
  assume run: "udpdk_socket family type protocol s = (r, s')"
  show ?thesis
  proof (cases "family = AF_INET \<and> type = SOCK_DGRAM \<and> (protocol = 0 \<or> protocol = IPPROTO_UDP) \<and>
      n_zones_active s \<le> of_nat NUM_SOCKETS_MAX")
    case True
    then have ok: "family = AF_INET" "type = SOCK_DGRAM" "protocol = 0 \<or> protocol = IPPROTO_UDP"
      "n_zones_active s \<le> of_nat NUM_SOCKETS_MAX" by blast+
    show ?thesis
      using udpdk_socket_cases [OF ok] run ok by (auto simp: fail_def not_less split: if_splits)
  next
    case False
    then show ?thesis
      using run by (auto simp: udpdk_socket_def socket_validate_args_def fail_def not_less split: if_splits)
  qed
qed

lemma udpdk_socket_errors_witness:
  "snd (udpdk_socket AF_INET 1 0 demo_sock) = demo_sock\<lparr>errno := Some EPROTONOSUPPORT\<rparr>"
  using udpdk_socket_errors [of AF_INET 1 0 demo_sock "fst (udpdk_socket AF_INET 1 0 demo_sock)"
      "snd (udpdk_socket AF_INET 1 0 demo_sock)"]
  by (simp add: SOCK_DGRAM_def)

text \<open>
  C31: \<open>udpdk_close\<close> increments the counter of active zones where its comment says that it
  decrements it. So opening and closing one socket 513 times in a row works, and after that
  \<open>udpdk_socket\<close> fails with \<open>ENOBUFS\<close> although no socket is open.
\<close>

theorem open_close_exhausts:
  assumes "sock_inv s" "all_closed s" "n_zones_active s = 0"
  shows "\<exists>s'. open_close 513 s = Some s' \<and> all_closed s' \<and> bindings s' = bindings s \<and>
    udpdk_socket AF_INET SOCK_DGRAM 0 s' = (-1, s'\<lparr>errno := Some ENOBUFS\<rparr>)"
proof -
  obtain s' where s': "open_close 513 s = Some s'" "all_closed s'" "bindings s' = bindings s"
      "unat (n_zones_active s') = 1026"
    using open_close_run [OF assms(1,2), of 513] assms(3) by (auto simp: NUM_SOCKETS_MAX_def)
  have "of_nat NUM_SOCKETS_MAX < n_zones_active s'"
    using s'(4) by (simp add: word_less_nat_alt NUM_SOCKETS_MAX_def)
  then have "udpdk_socket AF_INET SOCK_DGRAM 0 s' = (-1, s'\<lparr>errno := Some ENOBUFS\<rparr>)"
    by (simp add: udpdk_socket_def socket_validate_args_def fail_def)
  with s'(1-3) show ?thesis by blast
qed

text \<open>A state without open sockets.\<close>

definition idle_sock :: sstate where
  "idle_sock = demo_sock\<lparr>n_zones_active := 0, slots := (\<lambda>_. closed)\<rparr>"

lemma idle_sock_facts: "sock_inv idle_sock" "all_closed idle_sock" "n_zones_active idle_sock = 0"
proof -
  show "sock_inv idle_sock"
  proof (rule sock_invI)
    have "owner_of (slots idle_sock) = Map.empty"
      by (rule ext) (simp add: idle_sock_def owner_of_def closed_def)
    then show "owners_ok (owner_of (slots idle_sock)) (bindings idle_sock)"
      by (simp add: owners_ok_def idle_sock_def)
  qed (simp_all add: idle_sock_def slot_ok_def closed_def)
qed (simp_all add: idle_sock_def all_closed_def closed_def)

lemma open_close_exhausts_witness:
  "\<exists>s'. open_close 513 idle_sock = Some s' \<and> fst (udpdk_socket AF_INET SOCK_DGRAM 0 s') = -1"
  using open_close_exhausts [OF idle_sock_facts] by auto

subsection \<open>Binding and closing\<close>

text \<open>
  C9: \<open>udpdk_bind\<close> on a descriptor inside the array always returns. Bad arguments give \<open>EBADF\<close> or
  \<open>EINVAL\<close> and change nothing else; an address that is not compatible with a binding of the port
  gives \<open>EADDRINUSE\<close> and leaves slots and bindings alone; otherwise the binding is entered in the
  table and the slot becomes bound to that port and address. The invariant is kept.
\<close>

theorem udpdk_bind_correct:
  assumes "sock_inv s" "unat fd < NUM_SOCKETS_MAX"
  shows "\<exists>r s'. udpdk_bind fd (Some a) addrlen s = Some (r, s') \<and> sock_inv s' \<and>
    (case bind_error (slots s (unat fd)) a addrlen of
       Some e \<Rightarrow> r = -1 \<and> s' = s\<lparr>errno := Some e\<rparr>
     | None \<Rightarrow>
         if list_all (compatible (sin_addr a) (so_options (slots s (unat fd)))) (bindings s (sin_port a))
         then r = 0 \<and> slots s' = (slots s)(unat fd := bound_slot a (slots s (unat fd))) \<and>
           bindings s' = (bindings s)(sin_port a := insert_binding
             (new_info fd (sin_addr a) (so_options (slots s (unat fd)))) (bindings s (sin_port a)))
         else r = -1 \<and> errno s' = Some EADDRINUSE \<and> slots s' = slots s \<and> bindings s' = bindings s)"
proof (cases "bind_error (slots s (unat fd)) a addrlen")
  case (Some e)
  then show ?thesis using udpdk_bind_invalid [OF assms(2) Some] assms(1) by auto
next
  case None
  then have ok: "used (slots s (unat fd)) \<noteq> 0" "bound (slots s (unat fd)) = 0" "good_addr a addrlen"
    by (simp_all add: bind_error_def split: if_splits)
  show ?thesis
    using udpdk_bind_done [OF assms ok] udpdk_bind_in_use [OF assms ok] None by auto
qed

definition demo_addr :: sockaddr_in where
  "demo_addr = \<lparr>sin_family = 2, sin_port = 20480, sin_addr = 167772161\<rparr>"

lemma demo_bind_ok: "bind_error (slots demo_sock (unat (0 :: u32))) demo_addr 16 = None"
  by (simp add: bind_error_def good_addr_def demo_addr_def AF_INET_def sizeof_sockaddr_in_def closed_def)

lemma udpdk_bind_correct_witness:
  "\<exists>s'. udpdk_bind 0 (Some demo_addr) 16 demo_sock = Some (0, s') \<and> sock_inv s' \<and>
    bindings s' 20480 = [new_info 0 167772161 0]"
proof -
  have fd: "unat (0 :: u32) < NUM_SOCKETS_MAX" by (simp add: NUM_SOCKETS_MAX_def)
  from udpdk_bind_correct [OF demo_sock_inv fd, of demo_addr 16] show ?thesis
    unfolding demo_bind_ok
    by (auto simp: demo_addr_def insert_binding_def INADDR_ANY_def closed_def)
qed

text \<open>
  C10: \<open>udpdk_close\<close> of an open socket returns 0, removes its binding (if it was bound) and no
  other, frees and resets the slot, and keeps the invariant; of a socket that is not open it
  returns -1 with \<open>EBADF\<close> and changes nothing else.
\<close>

theorem udpdk_close_correct:
  assumes "sock_inv s" "unat fd < NUM_SOCKETS_MAX"
  shows "\<exists>r s'. udpdk_close fd s = Some (r, s') \<and> sock_inv s' \<and>
    (if used (slots s (unat fd)) = 0 then r = -1 \<and> s' = s\<lparr>errno := Some EBADF\<rparr>
     else r = 0 \<and> slots s' = (slots s)(unat fd := closed_slot (slots s (unat fd))) \<and>
       bindings s' = (case owner_of (slots s) fd of None \<Rightarrow> bindings s
         | Some (port, ip) \<Rightarrow> (bindings s)(port := remove_socket fd (bindings s port))))"
proof (cases "used (slots s (unat fd)) = 0")
  case True
  then have "udpdk_close fd s = Some (-1, s\<lparr>errno := Some EBADF\<rparr>)"
    using slot_at_in [OF assms(2), of s] by (simp add: udpdk_close_def close_validate_args_def fail_def)
  then show ?thesis using True assms(1) by auto
next
  case False
  then show ?thesis using udpdk_close_done [OF assms False] by auto
qed

lemma udpdk_close_correct_witness:
  "\<exists>s'. udpdk_close 0 demo_sock = Some (0, s') \<and> sock_inv s' \<and> used (slots s' 0) = 0"
proof -
  have fd: "unat (0 :: u32) < NUM_SOCKETS_MAX" by (simp add: NUM_SOCKETS_MAX_def)
  from udpdk_close_correct [OF demo_sock_inv fd] show ?thesis
    by (auto simp: closed_def closed_slot_def)
qed

text \<open>
  Binding a socket and closing it restores the bindings of all ports.
\<close>

theorem bind_close_roundtrip:
  assumes "sock_inv s" "unat fd < NUM_SOCKETS_MAX"
    and "udpdk_bind fd (Some a) addrlen s = Some (0, s1)"
  shows "\<exists>s2. udpdk_close fd s1 = Some (0, s2) \<and> sock_inv s2 \<and> bindings s2 = bindings s \<and>
    used (slots s2 (unat fd)) = 0"
proof -
  have none: "bind_error (slots s (unat fd)) a addrlen = None"
    using udpdk_bind_invalid [OF assms(2), of s a addrlen] assms(3)
    by (cases "bind_error (slots s (unat fd)) a addrlen") auto
  then have ok: "used (slots s (unat fd)) \<noteq> 0" "bound (slots s (unat fd)) = 0" "good_addr a addrlen"
    by (simp_all add: bind_error_def split: if_splits)
  have s1: "sock_inv s1" "slots s1 = (slots s)(unat fd := bound_slot a (slots s (unat fd)))"
      "bindings s1 = (bindings s)(sin_port a := insert_binding
        (new_info fd (sin_addr a) (so_options (slots s (unat fd)))) (bindings s (sin_port a)))"
    using udpdk_bind_done [OF assms(1,2) ok] udpdk_bind_in_use [OF assms(1,2) ok] assms(3) by auto
  have u: "used (slots s1 (unat fd)) \<noteq> 0" using ok(1) by (simp add: s1(2) bound_slot_def)
  have o: "owner_of (slots s1) fd = Some (sin_port a, sin_addr a)"
    using assms(2) by (simp add: s1(2) owner_of_def bound_slot_def)
  have abs: "fd \<notin> bi_sockfd ` set (bindings s (sin_port a))"
    by (rule owners_absent [OF sock_invD(2) [OF assms(1)]]) (simp add: owner_of_def ok(2))
  have "(bindings s1)(sin_port a := remove_socket fd (bindings s1 (sin_port a))) = bindings s"
    using remove_inserted [OF abs] s1(3) by auto
  then show ?thesis
    using udpdk_close_done [OF s1(1) assms(2) u] o by (auto simp: closed_slot_def)
qed

lemma bind_close_roundtrip_witness:
  "\<exists>s1 s2. udpdk_bind 0 (Some demo_addr) 16 demo_sock = Some (0, s1) \<and> udpdk_close 0 s1 = Some (0, s2) \<and>
    bindings s2 = (\<lambda>_. [])"
proof -
  have fd: "unat (0 :: u32) < NUM_SOCKETS_MAX" by (simp add: NUM_SOCKETS_MAX_def)
  have ok: "used (slots demo_sock (unat (0 :: u32))) \<noteq> 0" "bound (slots demo_sock (unat (0 :: u32))) = 0"
      "good_addr demo_addr 16"
    using demo_bind_ok by (simp_all add: bind_error_def split: if_splits)
  obtain s1 where s1: "udpdk_bind 0 (Some demo_addr) 16 demo_sock = Some (0, s1)"
    using udpdk_bind_done [OF demo_sock_inv fd ok] by auto
  from bind_close_roundtrip [OF demo_sock_inv fd s1] s1 show ?thesis by auto
qed

text \<open>
  In every state that can be reached by socket calls (open, options, bind, close, in any
  order, failing or not) the slots and the table agree: each bound socket has exactly one
  binding, at the port and address of its slot, and the table in memory is well formed.
\<close>

theorem socket_calls_keep_invariant:
  assumes "sock_reach s t" "sock_inv s"
  shows "sock_inv t"
  by (rule sock_reach_inv [OF assms])

lemma socket_calls_keep_invariant_witness:
  "\<exists>t. sock_reach demo_sock t \<and> sock_inv t \<and> bindings t 20480 \<noteq> []"
proof -
  have fd: "unat (0 :: u32) < NUM_SOCKETS_MAX" by (simp add: NUM_SOCKETS_MAX_def)
  have ok: "used (slots demo_sock (unat (0 :: u32))) \<noteq> 0" "bound (slots demo_sock (unat (0 :: u32))) = 0"
      "good_addr demo_addr 16"
    using demo_bind_ok by (simp_all add: bind_error_def split: if_splits)
  obtain t where t: "udpdk_bind 0 (Some demo_addr) 16 demo_sock = Some (0, t)" "bindings t 20480 \<noteq> []"
    using udpdk_bind_done [OF demo_sock_inv fd ok] by (auto simp: demo_addr_def insert_binding_def)
  have "sock_reach demo_sock t" by (rule reach_step [OF reach_start sock_bind [OF fd t(1)]])
  with socket_calls_keep_invariant [OF this demo_sock_inv] t(2) show ?thesis by blast
qed

text \<open>
  C34: The calls that take a descriptor as an array index do not check it: with a number of
  \<open>NUM_SOCKETS_MAX\<close> or more, or a negative one, they read outside the array of slots.
\<close>

theorem descriptors_unchecked:
  assumes "NUM_SOCKETS_MAX \<le> unat fd"
  shows "udpdk_getsockopt fd level optname optval optlen s = None \<and>
    udpdk_setsockopt fd level optname optval len s = None \<and>
    udpdk_bind fd addr addrlen s = None \<and> udpdk_close fd s = None"
  using assms
  by (simp add: udpdk_getsockopt_def udpdk_setsockopt_def udpdk_bind_def udpdk_close_def
      getsetsockopt_validate_args_def bind_validate_args_def close_validate_args_def slot_at_def)

lemma descriptors_unchecked_witness: "udpdk_close 4294967295 demo_sock = None"
  using descriptors_unchecked [of 4294967295 0 0 None None demo_sock 0 None 0] by (simp add: NUM_SOCKETS_MAX_def)

subsection \<open>Options\<close>

text \<open>
  What \<open>udpdk_setsockopt\<close> sets, \<open>udpdk_getsockopt\<close> of the same option returns, as 0 or 1; the
  invariant is kept.
\<close>

theorem sockopt_set_get:
  assumes "sock_inv s" "unat fd < NUM_SOCKETS_MAX" "used (slots s (unat fd)) \<noteq> 0"
    and "optname = SO_REUSEADDR \<or> optname = SO_REUSEPORT"
  shows "\<exists>s'. udpdk_setsockopt fd SOL_SOCKET optname (Some v) len s = Some (0, s') \<and> sock_inv s' \<and>
    udpdk_getsockopt fd SOL_SOCKET optname (Some x) (Some n) s' = Some (0, Some (of_bool (v \<noteq> 0)), s')"
proof -
  let ?sl = "slots s (unat fd)"
  let ?s = "set_slot fd (change_opt optname v ?sl) s"
  have e: "opt_error w SOL_SOCKET optname False = None" if "used w \<noteq> 0" for w
    using that assms(4) by (auto simp: opt_error_def)
  have nz: "optname AND optname \<noteq> 0" using assms(4) by (auto simp: SO_REUSEADDR_def SO_REUSEPORT_def)
  have "(so_options ?sl OR optname) AND optname \<noteq> 0"
    using nz by (metis and.commute and_zero_eq bit.conj_disj_distrib2 or_eq_0_iff)
  moreover have "(so_options ?sl AND NOT optname) AND optname = 0"
    by (simp add: and.assoc)
  ultimately have "so_options (change_opt optname v ?sl) AND optname \<noteq> 0 \<longleftrightarrow> v \<noteq> 0"
    by (auto simp: change_opt_def Let_def)
  moreover have "slots ?s (unat fd) = change_opt optname v ?sl" by (simp add: set_slot_def)
  ultimately have "udpdk_getsockopt fd SOL_SOCKET optname (Some x) (Some n) ?s = Some (0, Some (of_bool (v \<noteq> 0)), ?s)"
    using assms(3) by (simp add: getsockopt_eq [OF assms(2)] e)
  moreover have "udpdk_setsockopt fd SOL_SOCKET optname (Some v) len s = Some (0, ?s)"
    using assms(3) by (simp add: setsockopt_eq [OF assms(2)] e)
  ultimately show ?thesis using sock_inv_opt [OF assms(1,2)] by blast
qed

lemma sockopt_set_get_witness:
  "\<exists>s'. udpdk_setsockopt 0 SOL_SOCKET SO_REUSEPORT (Some 1) 4 demo_sock = Some (0, s') \<and>
    udpdk_getsockopt 0 SOL_SOCKET SO_REUSEPORT (Some 0) (Some 4) s' = Some (0, Some 1, s')"
proof -
  have fd: "unat (0 :: u32) < NUM_SOCKETS_MAX" by (simp add: NUM_SOCKETS_MAX_def)
  have u: "used (slots demo_sock (unat (0 :: u32))) \<noteq> 0" by simp
  from sockopt_set_get [OF demo_sock_inv fd u, of SO_REUSEPORT 1 4 0 4] show ?thesis by auto
qed

text \<open>
  The option numbers (2 and 15) are used as bit masks of \<open>so_options\<close> and overlap: setting
  only \<open>SO_REUSEADDR\<close> makes \<open>SO_REUSEPORT\<close> read as set.
\<close>

theorem sockopt_aliasing:
  assumes "unat fd < NUM_SOCKETS_MAX" "used (slots s (unat fd)) \<noteq> 0" "so_options (slots s (unat fd)) = 0"
  shows "\<exists>s'. udpdk_setsockopt fd SOL_SOCKET SO_REUSEADDR (Some 1) len s = Some (0, s') \<and>
    udpdk_getsockopt fd SOL_SOCKET SO_REUSEPORT (Some x) (Some n) s' = Some (0, Some 1, s')"
proof -
  have e: "opt_error w SOL_SOCKET SO_REUSEADDR False = None" "opt_error w SOL_SOCKET SO_REUSEPORT False = None"
    if "used w \<noteq> 0" for w
    using that by (simp_all add: opt_error_def)
  let ?s = "set_slot fd (change_opt SO_REUSEADDR 1 (slots s (unat fd))) s"
  have "udpdk_setsockopt fd SOL_SOCKET SO_REUSEADDR (Some 1) len s = Some (0, ?s)"
    using assms(2) by (simp add: setsockopt_eq [OF assms(1)] e)
  moreover have "so_options (slots ?s (unat fd)) = 2"
    using assms(3) by (simp add: set_slot_def change_opt_def SO_REUSEADDR_def)
  then have "udpdk_getsockopt fd SOL_SOCKET SO_REUSEPORT (Some x) (Some n) ?s = Some (0, Some 1, ?s)"
    using assms(2) e(2) [of "slots ?s (unat fd)"]
    by (simp add: getsockopt_eq [OF assms(1)] SO_REUSEPORT_def) (simp add: set_slot_def)
  ultimately show ?thesis by blast
qed

lemma sockopt_aliasing_witness:
  "\<exists>s'. udpdk_setsockopt 0 SOL_SOCKET SO_REUSEADDR (Some 1) 4 demo_sock = Some (0, s') \<and>
    udpdk_getsockopt 0 SOL_SOCKET SO_REUSEPORT (Some 0) (Some 4) s' = Some (0, Some 1, s')"
  using sockopt_aliasing [of 0 demo_sock 4 0 4] by (simp add: NUM_SOCKETS_MAX_def closed_def)

end
