(* ===== verification/Properties_Datagram.thy ===== *)
theory Properties_Datagram
  imports Properties_Sockets
begin

text \<open>
  Properties of sending and receiving, each with an instance.
\<close>

subsection \<open>Instances\<close>

text \<open>A ring of two packets and a counter of free buffers, in place of DPDK's.\<close>

definition demo_ops :: "(packet list, nat) dpdk" where
  "demo_ops =
     \<lparr>pktmbuf_alloc = (\<lambda>n. if n = 0 then None else Some (n - 1)),
      pktmbuf_free = (\<lambda>pkt n. n + 1),
      ring_enqueue = (\<lambda>pkt q. if length q < 2 then Some (q @ [pkt]) else None),
      ipv4_cksum = (\<lambda>_. 0), data_room = 2048\<rparr>"

definition demo_cfg :: configuration where
  "demo_cfg = \<lparr>src_mac_addr = replicate 6 1, dst_mac_addr = replicate 6 2, src_ip_addr = 33554442\<rparr>"

text \<open>Slot 0 is open, slot 1 is open and bound; one buffer is free.\<close>

definition bound_example :: slot_info where
  "bound_example = closed\<lparr>used := 1, bound := 1, udp_port := 20480, ip_addr := 167772161\<rparr>"

definition demo_net :: "(packet list, nat) dstate" where
  "demo_net =
     \<lparr>mem = (\<lambda>_. 0), list_alloc = Some (demo_pool ListObj), node_alloc = Some (demo_pool NodeObj),
      iter_alloc = Some (demo_pool IterObj), info_alloc = Some (demo_pool InfoObj),
      sock_bind_table = (\<lambda>_. NULL), n_zones_active = 1,
      slots = (\<lambda>_. closed)(0 := closed\<lparr>used := 1\<rparr>, 1 := bound_example), errno = None,
      tx_q = (\<lambda>_. []), mbuf_pool = 1\<rparr>"

lemma demo_net_simps [simp]:
  "slots demo_net = (\<lambda>_. closed)(0 := closed\<lparr>used := 1\<rparr>, 1 := bound_example)"
  "tx_q demo_net = (\<lambda>_. [])" "mbuf_pool demo_net = 1"
  "used bound_example = 1" "bound bound_example = 1"
  by (simp_all add: demo_net_def bound_example_def)

lemma demo_macs: "macs_ok demo_cfg"
  by (simp add: macs_ok_def demo_cfg_def)

subsection \<open>Sending\<close>



text \<open>
  A payload that does not fit into the data room behind the 42 bytes of headers is copied
  past the end of the buffer: the outcome of \<open>udpdk_sendto\<close> is undefined. (There is no
  \<open>EMSGSIZE\<close> check.)
\<close>

theorem udpdk_sendto_overflow:
  assumes "unat fd < NUM_SOCKETS_MAX" "used (slots s (unat fd)) \<noteq> 0" "bound (slots s (unat fd)) \<noteq> 0"
    and "addrlen \<noteq> 0" "data_room ops < 42 + unat len" "pktmbuf_alloc ops (mbuf_pool s) = Some pool"
  shows "udpdk_sendto ops cfg fd buf len 0 (Some dest) addrlen s = None"
proof -
  have eb: "ensure_bound fd s = Some (0, s)"
    using assms(3) slot_at_in [OF assms(1), of s] by (simp add: ensure_bound_def)
  show ?thesis
    unfolding udpdk_sendto_def sendto_valid [OF assms(1,2,4)]
    using eb assms(1,5,6) by (auto simp: hdr_lens slot_at_def Let_def)
qed

lemma udpdk_sendto_overflow_witness:
  "udpdk_sendto demo_ops demo_cfg 1 (replicate 3000 0) 3000 0 (Some demo_addr) 16 demo_net = None"
  using udpdk_sendto_overflow [of 1 demo_net 16 demo_ops 3000 0]
  by (simp add: NUM_SOCKETS_MAX_def demo_ops_def)

text \<open>
  The first \<open>udpdk_sendto\<close> of an unbound socket binds it to the wildcard address and the
  lowest port without a binding, which for an empty table is port 0.
\<close>

theorem ensure_bound_lowest_port:
  assumes "sock_inv s" "unat fd < NUM_SOCKETS_MAX" "used (slots s (unat fd)) \<noteq> 0" "bound (slots s (unat fd)) = 0"
    and "bindings s p = []" "\<forall>q < p. bindings s q \<noteq> []"
  shows "\<exists>s'. ensure_bound fd s = Some (0, s') \<and> sock_inv s' \<and>
    bound (slots s' (unat fd)) = 1 \<and> udp_port (slots s' (unat fd)) = ucast p \<and>
    bindings s' = (bindings s)(p := [new_info fd INADDR_ANY (so_options (slots s (unat fd)))])"
proof -
  have inv: "table_inv s" using sock_invD(1) [OF assms(1)] by (simp add: table_ok_def)
  have port: "btable_get_free_port s = int (unat p)"
    using btable_get_free_port_refine [OF inv] assms(5,6) by (metis linorder_neqE)
  let ?a = "\<lparr>sin_family = ucast AF_INET, sin_port = p, sin_addr = INADDR_ANY\<rparr>"
  have a: "good_addr ?a (of_nat sizeof_sockaddr_in)" by (simp add: good_addr_def AF_INET_def)
  obtain s' where s': "udpdk_bind fd (Some ?a) (of_nat sizeof_sockaddr_in) s = Some (0, s')" "sock_inv s'"
      "slots s' = (slots s)(unat fd := bound_slot ?a (slots s (unat fd)))"
      "bindings s' = (bindings s)(p := insert_binding
        (new_info fd INADDR_ANY (so_options (slots s (unat fd)))) (bindings s p))"
    using udpdk_bind_done [OF assms(1-4) a] assms(5) by auto
  have "ensure_bound fd s = Some (0, s')"
    using s'(1) assms(4) slot_at_in [OF assms(2), of s] port by (simp add: ensure_bound_def)
  then show ?thesis
    using s' assms(5) by (auto simp: bound_slot_def insert_binding_def)
qed

lemma ensure_bound_lowest_port_witness:
  "\<exists>s'. ensure_bound 0 demo_sock = Some (0, s') \<and> udp_port (slots s' 0) = 0 \<and>
    bindings s' 0 = [new_info 0 INADDR_ANY 0]"
proof -
  have fd: "unat (0 :: u32) < NUM_SOCKETS_MAX" by (simp add: NUM_SOCKETS_MAX_def)
  from ensure_bound_lowest_port [OF demo_sock_inv fd, of 0] show ?thesis
    by (auto simp: closed_def)
qed

subsection \<open>Receiving\<close>

text \<open>
  C12: The packet that \<open>udpdk_sendto\<close> builds is received unchanged: \<open>udpdk_recvfrom\<close> copies the
  payload (or the prefix that was asked for) into the buffer, returns the number of bytes,
  reports the sender's port and address, and frees the packet. This holds for payloads that
  fit into the 16-bit lengths, whenever the packet arrives before an interrupt.
\<close>

theorem send_receive_roundtrip:
  assumes "macs_ok cfg" "length payload = unat len" "42 + unat len < 2 ^ 16"
    and "unat fd < NUM_SOCKETS_MAX" "used (slots s (unat fd)) \<noteq> 0"
    and "\<And>j. j < k \<Longrightarrow> \<not> intr j \<and> deq j = None" "\<not> intr k"
      "deq k = Some [build_packet ops cfg sl dest len payload]" "\<not> intr (Suc k)"
    and "unat n < 2 ^ 32" "unat n \<le> length b" "16 \<le> length sb" "16 \<le> al"
  shows "udpdk_recvfrom ops intr deq fd (Some b) n 0 (Some sb) (Some al) s =
    Some (int (min (unat n) (unat len)), Some (take (unat n) payload @ drop (min (unat n) (unat len)) b),
      Some (sockaddr_bytes (ucast (udp_port sl)) (packet_src cfg sl) @ drop 16 sb), Some 16,
      s\<lparr>mbuf_pool := pktmbuf_free ops [build_packet ops cfg sl dest len payload] (mbuf_pool s)\<rparr>)"
  by (rule recv_built [OF assms])

lemma send_receive_roundtrip_witness:
  "\<exists>src al s'. udpdk_recvfrom demo_ops (\<lambda>_. False)
      (\<lambda>j. if j = 2 then Some [build_packet demo_ops demo_cfg bound_example demo_addr 3 [7, 8, 9]] else None)
      0 (Some [0, 0, 0, 0]) 4 0 (Some (replicate 16 0)) (Some 16) demo_net =
    Some (3, Some [7, 8, 9, 0], src, al, s')"
  using send_receive_roundtrip [of demo_cfg "[7, 8, 9]" 3 0 demo_net 2 "\<lambda>_. False"
      "\<lambda>j. if j = 2 then Some [build_packet demo_ops demo_cfg bound_example demo_addr 3 [7, 8, 9]] else None"
      demo_ops bound_example demo_addr 4 "[0, 0, 0, 0]" "replicate 16 0" 16] demo_macs
  by (simp add: NUM_SOCKETS_MAX_def)

text \<open>
  C16: For a packet in several segments \<open>udpdk_recvfrom\<close> returns the first \<open>len\<close> bytes of the
  concatenated payload (the first segment without its 42 bytes of headers, and cut at the
  length in the UDP header), never more than asked for, and leaves the rest of the buffer.
\<close>

theorem recvfrom_segments:
  assumes "unat fd < NUM_SOCKETS_MAX" "used (slots s (unat fd)) \<noteq> 0"
    and "\<And>j. j < k \<Longrightarrow> \<not> intr j \<and> deq j = None" "\<not> intr k" "deq k = Some (sg # segs)" "\<not> intr (Suc k)"
    and "segs_ok True (sg # segs)" "nb_segs sg = of_nat (length (sg # segs))" "length (sg # segs) < 2 ^ 16"
    and "load16 (data sg) 38 = Some dlen"
    and "unat len < 2 ^ 32" "unat len \<le> length b"
    and "P = take (unat len) (payload_of True (bswap16 dlen - 8) (sg # segs))"
  shows "udpdk_recvfrom ops intr deq fd (Some b) len 0 None None s =
    Some (int (length P), Some (P @ drop (length P) b), None, None,
      s\<lparr>mbuf_pool := pktmbuf_free ops (sg # segs) (mbuf_pool s)\<rparr>)"
proof -
  have w: "write_src sg None None = Some (None, None)" by (simp add: write_src_def)
  show ?thesis by (rule udpdk_recvfrom_segs [OF assms(1-10) w assms(11-13)])
qed

text \<open>Two segments: 42 bytes of headers and the payload 1, 2, then 3, 4.\<close>

definition demo_seg0 :: mbuf where
  "demo_seg0 =
     \<lparr>data = replicate 38 0 @ [0, 12, 0, 0] @ [1, 2], data_len = 44, pkt_len = 46, nb_segs = 2,
      packet_type = 0, l2_len = 14, l3_len = 20, l4_len = 8, ol_flags = 0\<rparr>"

definition demo_seg1 :: mbuf where
  "demo_seg1 =
     \<lparr>data = [3, 4], data_len = 2, pkt_len = 2, nb_segs = 1,
      packet_type = 0, l2_len = 0, l3_len = 0, l4_len = 0, ol_flags = 0\<rparr>"

lemma recvfrom_segments_witness:
  "\<exists>s'. udpdk_recvfrom demo_ops (\<lambda>_. False) (\<lambda>_. Some [demo_seg0, demo_seg1]) 0 (Some [0, 0, 0]) 3 0 None None demo_net =
    Some (3, Some [1, 2, 3], None, None, s')"
proof -
  have fd: "unat (0 :: u32) < NUM_SOCKETS_MAX" "used (slots demo_net (unat (0 :: u32))) \<noteq> 0"
    by (simp_all add: NUM_SOCKETS_MAX_def)
  have nb: "nb_segs demo_seg0 = of_nat (length [demo_seg0, demo_seg1])" "length [demo_seg0, demo_seg1] < 2 ^ 16"
    by (simp_all add: demo_seg0_def)
  have l: "load16 (data demo_seg0) 38 = Some 3072" by code_simp
  have ok: "segs_ok True [demo_seg0, demo_seg1]" by code_simp
  have pl: "[1, 2, 3] = take (unat (3 :: u64)) (payload_of True (bswap16 3072 - 8) [demo_seg0, demo_seg1])"
    by code_simp
  have len: "unat (3 :: u64) < 2 ^ 32" "unat (3 :: u64) \<le> length [0, 0, 0 :: u8]" by simp_all
  show ?thesis
    using recvfrom_segments [of 0 demo_net 0 "\<lambda>_. False" "\<lambda>_. Some [demo_seg0, demo_seg1]" demo_seg0 "[demo_seg1]",
        OF fd _ _ refl _ ok nb l len pl, of demo_ops] by auto
qed

text \<open>
  The busy wait of \<open>udpdk_recvfrom\<close> ends exactly when at some point the flag is seen or the
  ring has a packet; otherwise it runs for ever.
\<close>

theorem recv_wait_terminates:
  "recv_wait intr deq 0 \<noteq> None \<longleftrightarrow> (\<exists>j. intr j \<or> deq j \<noteq> None)"
  using recv_wait_ends [of intr deq 0] by simp

lemma recv_wait_terminates_witness:
  "recv_wait (\<lambda>_. False) (\<lambda>j. if j = 3 then Some [] else None) 0 \<noteq> None \<and>
   recv_wait (\<lambda>_. False) (\<lambda>_. None) 0 = None"
proof
  have "\<exists>j. False \<or> (if j = (3 :: nat) then Some [] else None) \<noteq> (None :: packet option)"
    by (rule exI [of _ 3]) simp
  then show "recv_wait (\<lambda>_. False) (\<lambda>j. if j = 3 then Some [] else None) 0 \<noteq> None"
    unfolding recv_wait_terminates [of "\<lambda>_. False"] .
  show "recv_wait (\<lambda>_. False) (\<lambda>_. None) 0 = None"
    using recv_wait_terminates [of "\<lambda>_. False" "\<lambda>_. None"] by blast
qed

text \<open>
  A signal that arrives between the dequeue and the test behind the loop loses a packet:
  \<open>udpdk_recvfrom\<close> returns -1 with \<open>EINTR\<close> although it took the packet from the ring, and the
  packet is not given back to the pool.
\<close>

theorem recvfrom_loses_packet:
  assumes "unat fd < NUM_SOCKETS_MAX" "used (slots s (unat fd)) \<noteq> 0"
    and "\<not> intr 0" "deq 0 = Some pkt" "intr (Suc 0)"
  shows "udpdk_recvfrom ops intr deq fd (Some b) len 0 src_addr addrlen s =
    Some (-1, Some b, src_addr, addrlen, s\<lparr>errno := Some EINTR\<rparr>)"
  unfolding udpdk_recvfrom_def recvfrom_valid [OF assms(1,2)]
  using recv_wait_got [of intr 0 deq pkt] assms(3-5) by simp

lemma recvfrom_loses_packet_witness:
  "udpdk_recvfrom demo_ops (\<lambda>i. i = 1) (\<lambda>_. Some [demo_seg0, demo_seg1]) 0 (Some [0]) 1 0 None None demo_net =
    Some (-1, Some [0], None, None, demo_net\<lparr>errno := Some EINTR\<rparr>)"
proof -
  have fd: "unat (0 :: u32) < NUM_SOCKETS_MAX" "used (slots demo_net (unat (0 :: u32))) \<noteq> 0"
    by (simp_all add: NUM_SOCKETS_MAX_def)
  show ?thesis
    by (rule recvfrom_loses_packet [of 0 demo_net "\<lambda>i. i = 1" "\<lambda>_. Some [demo_seg0, demo_seg1]",
        OF fd _ refl]) simp_all
qed

end
