(* ===== verification/Poller.thy ===== *)
theory Poller
  imports Datagram_Props
begin

text \<open>
  The packet poller (\<open>udpdk/udpdk_poller.c\<close>): delivery of received packets to the sockets bound
  to their port, the exchange buffers, and transmission with fragmentation. The poller works on
  the same shared table and slots as the socket calls; what DPDK does (cloning and freeing
  buffers, rings, the network card, fragment tables) is a parameter. A round of the poller is
  one step: the calls of the application do not interleave with it.
\<close>

subsection \<open>State\<close>

text \<open>\<open>struct exch_slot\<close>, but for \<open>tx_q\<close>, which the application uses and its state has.\<close>

record 'r exch_slot =
  rx_q :: 'r
  rx_buffer :: "packet option list"
  rx_count :: u16

text \<open>Beside the state of the application: the fragment table with its death row, and the card.\<close>

record ('r, 'm, 'f, 'n) pstate = "('r, 'm) dstate" +
  exch_slots :: "nat \<Rightarrow> 'r exch_slot"
  frag_tbl :: 'f
  nic :: 'n

text \<open>
  \<open>rte_pktmbuf_clone\<close> (\<open>None\<close> when the pool is empty), \<open>rte_ipv4_frag_pkt_is_fragmented\<close> on the
  bytes of an IPv4 header, \<open>rte_ipv4_frag_reassemble_packet\<close>, \<open>rte_ip_frag_free_death_row\<close>,
  \<open>rte_ring_enqueue_bulk\<close> (\<open>None\<close> when it returns 0), \<open>rte_ring_dequeue\<close>, \<open>rte_eth_tx_burst\<close>,
  \<open>rte_eth_rx_burst\<close>, \<open>rte_pktmbuf_headroom\<close>, and \<open>rte_ipv4_fragment_packet\<close> (\<open>None\<close> when it
  fails).
\<close>

record ('r, 'm, 'f, 'n) poller_ops = "('r, 'm) dpdk" +
  pktmbuf_clone :: "packet \<Rightarrow> 'm \<Rightarrow> packet option \<times> 'm"
  frag_is_fragmented :: "u8 list \<Rightarrow> bool"
  frag_reassemble :: "packet \<Rightarrow> u64 \<Rightarrow> 'f \<Rightarrow> packet option \<times> 'f"
  frag_free_death_row :: "'f \<Rightarrow> 'm \<Rightarrow> 'f \<times> 'm"
  ring_enqueue_bulk :: "packet option list \<Rightarrow> 'r \<Rightarrow> 'r option"
  ring_dequeue :: "'r \<Rightarrow> (packet \<times> 'r) option"
  eth_tx_burst :: "packet list \<Rightarrow> 'n \<Rightarrow> nat \<times> 'n"
  eth_rx_burst :: "nat \<Rightarrow> 'n \<Rightarrow> packet list \<times> 'n"
  pktmbuf_headroom :: "packet \<Rightarrow> nat"
  ipv4_fragment :: "packet \<Rightarrow> nat \<Rightarrow> 'm \<Rightarrow> packet list option \<times> 'm"

definition BURST_SIZE :: nat where "BURST_SIZE = 128"
definition RX_MBUF_TABLE_SIZE :: nat where "RX_MBUF_TABLE_SIZE = BURST_SIZE"
definition EXCH_BUF_SIZE :: nat where "EXCH_BUF_SIZE = BURST_SIZE"
definition PREFETCH_OFFSET :: nat where "PREFETCH_OFFSET = 4"
definition IPV4_MTU_DEFAULT :: u32 where "IPV4_MTU_DEFAULT = 1500"

text \<open>\<open>MAX_PACKET_FRAG\<close> is a constant of the DPDK build; up to \<open>BURST_SIZE\<close> it has no effect.\<close>

definition TX_MBUF_TABLE_SIZE :: nat where "TX_MBUF_TABLE_SIZE = 2 * BURST_SIZE"

text \<open>\<open>rte_pktmbuf_free\<close>, which ignores \<open>NULL\<close>.\<close>

definition mbuf_free ::
  "('r, 'm, 'z) dpdk_scheme \<Rightarrow> packet option \<Rightarrow> ('r, 'm, 'a) dstate_scheme \<Rightarrow> ('r, 'm, 'a) dstate_scheme" where
  "mbuf_free ops m s = (case m of
       None \<Rightarrow> s
     | Some pkt \<Rightarrow> s\<lparr>mbuf_pool := pktmbuf_free ops pkt (mbuf_pool s)\<rparr>)"

definition load8 :: "u8 list \<Rightarrow> nat \<Rightarrow> u8 option" where
  "load8 xs off = (if off < length xs then Some (xs ! off) else None)"

subsection \<open>Exchange buffers\<close>

definition flush_rx_queue ::
  "('r, 'm, 'f, 'n, 'z) poller_ops_scheme \<Rightarrow> nat \<Rightarrow> ('r, 'm, 'f, 'n, 'a) pstate_scheme \<Rightarrow>
    ('r, 'm, 'f, 'n, 'a) pstate_scheme" where
  "flush_rx_queue ops idx s =
     (let e = exch_slots s idx; pkts = take (unat (rx_count e)) (rx_buffer e)
      in if rx_count e = 0 then s
         else case ring_enqueue_bulk ops pkts (rx_q e) of
           None \<Rightarrow> (fold (mbuf_free ops) pkts s)\<lparr>exch_slots := (exch_slots s)(idx := e\<lparr>rx_count := 0\<rparr>)\<rparr>
         | Some q \<Rightarrow> s\<lparr>exch_slots := (exch_slots s)(idx := e\<lparr>rx_q := q, rx_count := 0\<rparr>)\<rparr>)"

text \<open>The index is a byte. Writing behind the end of the buffer is undefined.\<close>

definition enqueue_rx_packet ::
  "u8 \<Rightarrow> packet option \<Rightarrow> ('r, 'm, 'f, 'n, 'a) pstate_scheme \<Rightarrow> ('r, 'm, 'f, 'n, 'a) pstate_scheme option" where
  "enqueue_rx_packet exc_buf_idx buf s =
     (let e = exch_slots s (unat exc_buf_idx)
      in if unat (rx_count e) < EXCH_BUF_SIZE
         then Some (s\<lparr>exch_slots := (exch_slots s)(unat exc_buf_idx :=
                e\<lparr>rx_buffer := (rx_buffer e)[unat (rx_count e) := buf], rx_count := rx_count e + 1\<rparr>)\<rparr>)
         else None)"

subsection \<open>Delivery\<close>

text \<open>
  The loop over the bindings of the port. \<open>m\<close> is the packet (\<open>None\<close> after a clone that failed,
  and cloning \<open>NULL\<close> is undefined); the result is the packet left over, \<open>delivered_last\<close>, and
  the state.
\<close>

partial_function (option) deliver_loop ::
  "('r, 'm, 'f, 'n, 'z) poller_ops_scheme \<Rightarrow> ptr \<Rightarrow> u32 \<Rightarrow> packet option \<Rightarrow> bool \<Rightarrow>
    ('r, 'm, 'f, 'n, 'a) pstate_scheme \<Rightarrow> (packet option \<times> bool \<times> ('r, 'm, 'f, 'n, 'a) pstate_scheme) option" where
  "deliver_loop ops it ip_dst_addr m delivered_last s = do {
     (node, s) \<leftarrow> list_iterator_next it s;
     if node = NULL then Some (m, delivered_last, s)
     else do {
       b \<leftarrow> rd node_val node s;
       ip_oth \<leftarrow> rd info_ip b s;
       oth_reuseaddr \<leftarrow> rd info_reuse_addr b s;
       oth_reuseport \<leftarrow> rd info_reuse_port b s;
       if ip_dst_addr = ip_oth \<or> ip_oth = INADDR_ANY then do {
         sockfd \<leftarrow> rd info_sockfd b s;
         s \<leftarrow> enqueue_rx_packet (ucast (sockfd :: u32)) m s;
         if oth_reuseaddr \<noteq> (0 :: u8) \<or> oth_reuseport \<noteq> (0 :: u8) then do {
           pkt \<leftarrow> m;
           let (m, pool) = pktmbuf_clone ops pkt (mbuf_pool s);
           deliver_loop ops it ip_dst_addr m False (s\<lparr>mbuf_pool := pool\<rparr>) }
         else Some (m, True, s) }
       else deliver_loop ops it ip_dst_addr m delivered_last s } }"

text \<open>The header fields, at the offset of their header in the first segment.\<close>

definition is_udp_pkt :: "u8 list \<Rightarrow> nat \<Rightarrow> bool option" where
  "is_udp_pkt bytes hdr = do {
     next_proto_id \<leftarrow> load8 bytes (hdr + 9);
     Some (ucast next_proto_id = IPPROTO_UDP) }"

definition get_udp_dst_port :: "u8 list \<Rightarrow> nat \<Rightarrow> u16 option" where
  "get_udp_dst_port bytes hdr = load16 bytes (hdr + 2)"

definition get_ipv4_dst_addr :: "u8 list \<Rightarrow> nat \<Rightarrow> u32 option" where
  "get_ipv4_dst_addr bytes hdr = load32 bytes (hdr + 16)"

text \<open>The second half of \<open>reassemble\<close>: what happens to a complete packet.\<close>

definition dispatch ::
  "('r, 'm, 'f, 'n, 'z) poller_ops_scheme \<Rightarrow> packet \<Rightarrow> ('r, 'm, 'f, 'n, 'a) pstate_scheme \<Rightarrow>
    ('r, 'm, 'f, 'n, 'a) pstate_scheme option" where
  "dispatch ops m s = do {
     bytes \<leftarrow> (case m of [] \<Rightarrow> None | sg # _ \<Rightarrow> Some (data sg));
     udp \<leftarrow> is_udp_pkt bytes ETHER_HDR_LEN;
     if \<not> udp then Some s
     else do {
       udp_dst_port \<leftarrow> get_udp_dst_port bytes (ETHER_HDR_LEN + IPV4_HDR_LEN);
       ip_dst_addr \<leftarrow> get_ipv4_dst_addr bytes ETHER_HDR_LEN;
       let binds = btable_get_bindings udp_dst_port s;
       if binds = NULL then Some s
       else do {
         (it, s) \<leftarrow> list_iterator_new binds LIST_HEAD s;
         (m, delivered_last, s) \<leftarrow> deliver_loop ops it ip_dst_addr (Some m) False s;
         let s = (if \<not> delivered_last then mbuf_free ops m s else s);
         list_iterator_destroy it s } } }"

lemmas dispatch_simps = dispatch_def is_udp_pkt_def get_udp_dst_port_def get_ipv4_dst_addr_def

definition RTE_PTYPE_L3_IPV4 :: u32 where "RTE_PTYPE_L3_IPV4 = 0x10"

definition reassemble ::
  "('r, 'm, 'f, 'n, 'z) poller_ops_scheme \<Rightarrow> u64 \<Rightarrow> packet \<Rightarrow> ('r, 'm, 'f, 'n, 'a) pstate_scheme \<Rightarrow>
    ('r, 'm, 'f, 'n, 'a) pstate_scheme option" where
  "reassemble ops tms m s = (case m of
       [] \<Rightarrow> None
     | sg # segs \<Rightarrow>
         if packet_type sg AND RTE_PTYPE_L3_IPV4 \<noteq> 0
         then if frag_is_fragmented ops (take IPV4_HDR_LEN (drop ETHER_HDR_LEN (data sg)))
              then let sg = sg\<lparr>l2_len := of_nat ETHER_HDR_LEN, l3_len := of_nat IPV4_HDR_LEN\<rparr>;
                       (mo, tbl) = frag_reassemble ops (sg # segs) tms (frag_tbl s);
                       s = s\<lparr>frag_tbl := tbl\<rparr>
                   in (case mo of None \<Rightarrow> Some s | Some mo \<Rightarrow> dispatch ops mo s)
              else dispatch ops m s
         else Some s)"

subsection \<open>Transmission\<close>

text \<open>The table is the list of its first \<open>tx_count\<close> entries.\<close>

definition flush_tx_table ::
  "('r, 'm, 'f, 'n, 'z) poller_ops_scheme \<Rightarrow> packet list \<Rightarrow> ('r, 'm, 'f, 'n, 'a) pstate_scheme \<Rightarrow>
    ('r, 'm, 'f, 'n, 'a) pstate_scheme" where
  "flush_tx_table ops tx_mbuf_table s =
     (let (tx_sent, n) = eth_tx_burst ops tx_mbuf_table (nic s)
      in fold (\<lambda>pkt. mbuf_free ops (Some pkt)) (drop tx_sent tx_mbuf_table) (s\<lparr>nic := n\<rparr>))"

text \<open>\<open>rte_pktmbuf_adj\<close> and \<open>rte_pktmbuf_prepend\<close> by the length of an Ethernet header.\<close>

definition pktmbuf_adj :: "packet \<Rightarrow> packet" where
  "pktmbuf_adj pkt = (case pkt of
       [] \<Rightarrow> []
     | sg # segs \<Rightarrow>
         if unat (data_len sg) < ETHER_HDR_LEN then pkt
         else sg\<lparr>data := drop ETHER_HDR_LEN (data sg), data_len := data_len sg - of_nat ETHER_HDR_LEN,
                 pkt_len := pkt_len sg - of_nat ETHER_HDR_LEN\<rparr> # segs)"

definition PKT_TX_FLAGS :: u64 where "PKT_TX_FLAGS = push_bit 55 1 OR push_bit 54 1"

text \<open>A fragment with the Ethernet header in front again, or \<open>None\<close> when it has no room.\<close>

definition attach_header ::
  "('r, 'm, 'f, 'n, 'z) poller_ops_scheme \<Rightarrow> u8 list \<Rightarrow> packet \<Rightarrow> packet option" where
  "attach_header ops old_eth_hdr pkt = (case pkt of
       [] \<Rightarrow> None
     | sg # segs \<Rightarrow>
         if pktmbuf_headroom ops pkt < ETHER_HDR_LEN then None
         else Some (sg\<lparr>data := old_eth_hdr @ data sg, data_len := data_len sg + of_nat ETHER_HDR_LEN,
                       pkt_len := pkt_len sg + of_nat ETHER_HDR_LEN,
                       packet_type := 0x1 OR 0x10 OR 0x200, ol_flags := ol_flags sg OR PKT_TX_FLAGS,
                       l2_len := of_nat ETHER_HDR_LEN, l3_len := of_nat IPV4_HDR_LEN\<rparr> # segs))"

text \<open>The loop over the fragments: the fragments afterwards, and whether all were attached.\<close>

fun attach_headers ::
  "('r, 'm, 'f, 'n, 'z) poller_ops_scheme \<Rightarrow> u8 list \<Rightarrow> packet list \<Rightarrow> packet list \<times> bool" where
  "attach_headers ops hdr [] = ([], True)"
| "attach_headers ops hdr (pkt # pkts) = (case attach_header ops hdr pkt of
       None \<Rightarrow> (pkt # pkts, False)
     | Some pkt \<Rightarrow> (let (pkts, ok) = attach_headers ops hdr pkts in (pkt # pkts, ok)))"

text \<open>
  The loop that empties a slot's ring into the table. When a header does not fit, the fragments
  are freed and the table is as before (\<open>tx_count\<close> goes down and up again).
\<close>

partial_function (option) tx_slot_loop ::
  "('r, 'm, 'f, 'n, 'z) poller_ops_scheme \<Rightarrow> nat \<Rightarrow> packet list \<Rightarrow> ('r, 'm, 'f, 'n, 'a) pstate_scheme \<Rightarrow>
    (packet list \<times> ('r, 'm, 'f, 'n, 'a) pstate_scheme) option" where
  "tx_slot_loop ops i tbl s =
     (if BURST_SIZE \<le> length tbl then Some (tbl, s)
      else case ring_dequeue ops (tx_q s i) of
        None \<Rightarrow> Some (tbl, s)
      | Some (pkt, q) \<Rightarrow>
          (let s = s\<lparr>tx_q := (tx_q s)(i := q)\<rparr>
           in case pkt of
                [] \<Rightarrow> None
              | sg # segs \<Rightarrow>
                  if pkt_len sg \<le> IPV4_MTU_DEFAULT then tx_slot_loop ops i (tbl @ [pkt]) s
                  else if length (data sg) < ETHER_HDR_LEN then None
                  else let old_eth_hdr = take ETHER_HDR_LEN (data sg);
                           pkt = pktmbuf_adj pkt;
                           (frags, pool) = ipv4_fragment ops pkt (TX_MBUF_TABLE_SIZE - length tbl) (mbuf_pool s);
                           s = s\<lparr>mbuf_pool := pktmbuf_free ops pkt pool\<rparr>
                       in case frags of
                            None \<Rightarrow> Some (tbl, s)
                          | Some fs \<Rightarrow>
                              (let (fs, ok) = attach_headers ops old_eth_hdr fs
                               in if ok then tx_slot_loop ops i (tbl @ fs) s
                                  else tx_slot_loop ops i tbl (fold (\<lambda>p. mbuf_free ops (Some p)) fs s))))"

text \<open>The loop over the slots; the first argument counts the slots left.\<close>

fun tx_slots ::
  "('r, 'm, 'f, 'n, 'z) poller_ops_scheme \<Rightarrow> nat \<Rightarrow> nat \<Rightarrow> packet list \<Rightarrow> ('r, 'm, 'f, 'n, 'a) pstate_scheme \<Rightarrow>
    (packet list \<times> ('r, 'm, 'f, 'n, 'a) pstate_scheme) option" where
  "tx_slots ops 0 i tbl s = Some (tbl, s)"
| "tx_slots ops (Suc n) i tbl s =
     (if used (slots s i) = 0 then tx_slots ops n (Suc i) tbl s
      else do {
        (tbl, s) \<leftarrow> tx_slot_loop ops i tbl s;
        if BURST_SIZE \<le> length tbl then tx_slots ops n (Suc i) [] (flush_tx_table ops tbl s)
        else tx_slots ops n (Suc i) tbl s })"

definition tx_round ::
  "('r, 'm, 'f, 'n, 'z) poller_ops_scheme \<Rightarrow> ('r, 'm, 'f, 'n, 'a) pstate_scheme \<Rightarrow>
    ('r, 'm, 'f, 'n, 'a) pstate_scheme option" where
  "tx_round ops s = do {
     (tbl, s) \<leftarrow> tx_slots ops NUM_SOCKETS_MAX 0 [] s;
     Some (if tbl \<noteq> [] then flush_tx_table ops tbl s else s) }"

subsection \<open>Reception, and the body of the poller\<close>

fun reassemble_all ::
  "('r, 'm, 'f, 'n, 'z) poller_ops_scheme \<Rightarrow> u64 \<Rightarrow> packet list \<Rightarrow> ('r, 'm, 'f, 'n, 'a) pstate_scheme \<Rightarrow>
    ('r, 'm, 'f, 'n, 'a) pstate_scheme option" where
  "reassemble_all ops tms [] s = Some s"
| "reassemble_all ops tms (m # ms) s = do { s \<leftarrow> reassemble ops tms m s; reassemble_all ops tms ms s }"

fun flush_slots ::
  "('r, 'm, 'f, 'n, 'z) poller_ops_scheme \<Rightarrow> nat \<Rightarrow> nat \<Rightarrow> ('r, 'm, 'f, 'n, 'a) pstate_scheme \<Rightarrow>
    ('r, 'm, 'f, 'n, 'a) pstate_scheme" where
  "flush_slots ops 0 i s = s"
| "flush_slots ops (Suc n) i s =
     flush_slots ops n (Suc i) (if used (slots s i) = 0 then s else flush_rx_queue ops i s)"

definition rx_round ::
  "('r, 'm, 'f, 'n, 'z) poller_ops_scheme \<Rightarrow> u64 \<Rightarrow> ('r, 'm, 'f, 'n, 'a) pstate_scheme \<Rightarrow>
    ('r, 'm, 'f, 'n, 'a) pstate_scheme option" where
  "rx_round ops tms s =
     (let (pkts, n) = eth_rx_burst ops RX_MBUF_TABLE_SIZE (nic s);
          s = s\<lparr>nic := n\<rparr>;
          rx_count = length pkts
      in if rx_count = 0 then Some s
         else do {
           s \<leftarrow> reassemble_all ops tms (take (rx_count - PREFETCH_OFFSET) pkts) s;
           s \<leftarrow> reassemble_all ops tms (drop (rx_count - PREFETCH_OFFSET) pkts) s;
           let s = flush_slots ops NUM_SOCKETS_MAX 0 s;
           let (tbl, pool) = frag_free_death_row ops (frag_tbl s) (mbuf_pool s);
           Some (s\<lparr>frag_tbl := tbl, mbuf_pool := pool\<rparr>) })"

text \<open>
  \<open>alive i\<close> is what the \<open>i\<close>-th read of \<open>poller_alive\<close> yields, \<open>tsc i\<close> the clock of the round.
\<close>

partial_function (option) poller_body ::
  "('r, 'm, 'f, 'n, 'z) poller_ops_scheme \<Rightarrow> (nat \<Rightarrow> bool) \<Rightarrow> (nat \<Rightarrow> u64) \<Rightarrow> nat \<Rightarrow>
    ('r, 'm, 'f, 'n, 'a) pstate_scheme \<Rightarrow> ('r, 'm, 'f, 'n, 'a) pstate_scheme option" where
  "poller_body ops alive tsc i s =
     (if \<not> alive i then Some s
      else do {
        s \<leftarrow> tx_round ops s;
        s \<leftarrow> rx_round ops (tsc i) s;
        poller_body ops alive tsc (Suc i) s })"

end
