(* ===== verification/Poller_Props.thy ===== *)
theory Poller_Props
  imports Poller
begin

text \<open>
  Delivery as a function of the abstract bindings of a port: the loop over the list in shared
  memory implements a loop over the sequence of bindings, and that one appends the packet to
  the exchange buffers of the receiving sockets and accounts for every buffer.
\<close>

subsection \<open>The loop over the abstract bindings\<close>

definition matches :: "u32 \<Rightarrow> bind_info \<Rightarrow> bool" where
  "matches ip b \<longleftrightarrow> ip = bi_ip b \<or> bi_ip b = INADDR_ANY"

definition shares :: "bind_info \<Rightarrow> bool" where
  "shares b \<longleftrightarrow> bi_reuse_addr b \<or> bi_reuse_port b"

definition put_packet ::
  "u8 \<Rightarrow> packet option \<Rightarrow> (nat \<Rightarrow> 'r exch_slot) \<Rightarrow> (nat \<Rightarrow> 'r exch_slot) option" where
  "put_packet i m e =
     (if unat (rx_count (e (unat i))) < EXCH_BUF_SIZE
      then Some (e(unat i := (e (unat i))\<lparr>rx_buffer := (rx_buffer (e (unat i)))[unat (rx_count (e (unat i))) := m],
                   rx_count := rx_count (e (unat i)) + 1\<rparr>))
      else None)"

fun deliver_net ::
  "('r, 'm, 'f, 'n, 'z) poller_ops_scheme \<Rightarrow> u32 \<Rightarrow> bind_info list \<Rightarrow> packet option \<Rightarrow> bool \<Rightarrow>
    (nat \<Rightarrow> 'r exch_slot) \<Rightarrow> 'm \<Rightarrow> (packet option \<times> bool \<times> (nat \<Rightarrow> 'r exch_slot) \<times> 'm) option" where
  "deliver_net ops ip [] m dl e pool = Some (m, dl, e, pool)"
| "deliver_net ops ip (b # bs) m dl e pool =
     (if \<not> matches ip b then deliver_net ops ip bs m dl e pool
      else do {
        e \<leftarrow> put_packet (ucast (bi_sockfd b)) m e;
        if shares b then do {
          pkt \<leftarrow> m;
          let (m, pool) = pktmbuf_clone ops pkt pool;
          deliver_net ops ip bs m False e pool }
        else Some (m, True, e, pool) })"

lemma enqueue_put:
  "enqueue_rx_packet i m s = map_option (\<lambda>e. s\<lparr>exch_slots := e\<rparr>) (put_packet i m (exch_slots s))"
  by (simp add: enqueue_rx_packet_def put_packet_def Let_def)

lemma deliver_loop_step:
  assumes "list_iterator_next it s = Some (y, s\<lparr>mem := m1\<rparr>)" "y \<noteq> NULL" "fld node_val m1 y \<noteq> NULL"
    and b: "binding_at m1 y = b"
  shows "deliver_loop ops it ip m dl s =
    (if \<not> matches ip b then deliver_loop ops it ip m dl (s\<lparr>mem := m1\<rparr>)
     else do {
       e \<leftarrow> put_packet (ucast (bi_sockfd b)) m (exch_slots s);
       if shares b then do {
         pkt \<leftarrow> m;
         let (m, pool) = pktmbuf_clone ops pkt (mbuf_pool s);
         deliver_loop ops it ip m False (s\<lparr>mem := m1, mbuf_pool := pool, exch_slots := e\<rparr>) }
       else Some (m, True, s\<lparr>mem := m1, exch_slots := e\<rparr>) })"
proof -
  have sw: "s\<lparr>mem := m1, exch_slots := e, mbuf_pool := p\<rparr> = s\<lparr>mem := m1, mbuf_pool := p, exch_slots := e\<rparr>" for e p
    by simp
  show ?thesis
    using assms(1-3) unfolding b [symmetric]
    by (subst deliver_loop.simps)
      (auto simp: code_defs matches_def shares_def binding_at_def info_of_def enqueue_put sw
        split: Option.bind_splits)
qed

text \<open>One binding of the walk, and then the others.\<close>

lemma deliver_loop_cons:
  assumes nx: "list_iterator_next it s = Some (y, s\<lparr>mem := m1\<rparr>)" "y \<noteq> NULL" "fld node_val m1 y \<noteq> NULL"
    and b: "binding_at m1 y = b" and fr: "frame F {(IterObj, it)} (mem s) m1"
    and rest: "\<And>p e m dl. \<exists>mm. deliver_loop ops it ip m dl (s\<lparr>mem := m1, mbuf_pool := p, exch_slots := e\<rparr>) =
        map_option (\<lambda>(m', dl', e, pool). (m', dl', s\<lparr>mem := mm, mbuf_pool := pool, exch_slots := e\<rparr>))
          (deliver_net ops ip bs m dl e p) \<and> frame F {(IterObj, it)} (mem s) mm"
  shows "\<exists>mm. deliver_loop ops it ip m dl s =
      map_option (\<lambda>(m', dl', e, pool). (m', dl', s\<lparr>mem := mm, mbuf_pool := pool, exch_slots := e\<rparr>))
        (deliver_net ops ip (b # bs) m dl (exch_slots s) (mbuf_pool s)) \<and>
    frame F {(IterObj, it)} (mem s) mm"
proof -
  note step = deliver_loop_step [OF nx b, of ops ip m dl]
  have s1: "s\<lparr>mem := m1, mbuf_pool := mbuf_pool s, exch_slots := exch_slots s\<rparr> = s\<lparr>mem := m1\<rparr>"
    "s\<lparr>mem := m1, mbuf_pool := mbuf_pool s, exch_slots := e\<rparr> = s\<lparr>mem := m1, exch_slots := e\<rparr>" for e by simp_all
  show ?thesis
  proof (cases "matches ip b")
    case False
    then show ?thesis using rest [where p = "mbuf_pool s" and e = "exch_slots s"] step unfolding s1 by simp
  next
    case T: True
    show ?thesis
    proof (cases "put_packet (ucast (bi_sockfd b)) m (exch_slots s)")
      case None
      then show ?thesis using step T frame_refl by auto
    next
      case (Some e)
      show ?thesis
      proof (cases "shares b \<and> m \<noteq> None")
        case True
        then obtain pkt where pkt: "m = Some pkt" by blast
        obtain m' p where c: "pktmbuf_clone ops pkt (mbuf_pool s) = (m', p)" by fastforce
        show ?thesis
          using rest [where p = p and e = e and m = m' and dl = False] step T Some True pkt c by simp
      next
        case False
        show ?thesis
        proof (cases "shares b")
          case True
          then show ?thesis using step T Some False frame_refl by auto
        next
          case False
          then show ?thesis using step T Some fr by (intro exI [of _ m1]) (simp add: s1(2))
        qed
      qed
    qed
  qed
qed

lemma deliver_loop_refine:
  assumes "separated F" "pending F (mem s) self LIST_HEAD ys" "iter_at F (mem s) it LIST_HEAD ys"
    and "\<And>n. n \<in> set ys \<Longrightarrow> fld node_val (mem s) n \<in> F InfoObj"
  shows "\<exists>mm. deliver_loop ops it ip m dl s =
      map_option (\<lambda>(m', dl', e, pool). (m', dl', s\<lparr>mem := mm, mbuf_pool := pool, exch_slots := e\<rparr>))
        (deliver_net ops ip (map (binding_at (mem s)) ys) m dl (exch_slots s) (mbuf_pool s)) \<and>
    frame F {(IterObj, it)} (mem s) mm"
  using assms(2-4)
proof (induction ys arbitrary: s m dl)
  case Nil
  show ?case
    using list_iterator_next_end [OF assms(1) Nil.prems(2)]
    by (subst deliver_loop.simps) (auto intro!: exI [of _ "mem s"] frame_refl)
next
  case (Cons y ys)
  obtain m1 where m1: "list_iterator_next it s = Some (y, s\<lparr>mem := m1\<rparr>)"
      "iter_at F m1 it LIST_HEAD ys" "pending F m1 self LIST_HEAD ys"
      "frame F {(IterObj, it)} (mem s) m1"
      "y \<noteq> NULL" "y \<in> F NodeObj" "fld node_val m1 y \<noteq> NULL"
      "\<And>n. n \<in> set (y # ys) \<Longrightarrow> (fld node_val m1 n :: ptr) = fld node_val (mem s) n"
      "\<And>n. n \<in> set (y # ys) \<Longrightarrow> binding_at m1 n = binding_at (mem s) n"
    by (rule next_binding [OF assms(1) Cons.prems]) auto
  have bs: "map (binding_at m1) ys = map (binding_at (mem s)) ys" using m1(9) by simp
  have "\<exists>mm. deliver_loop ops it ip m dl (s\<lparr>mem := m1, mbuf_pool := p, exch_slots := e\<rparr>) =
      map_option (\<lambda>(m', dl', e, pool). (m', dl', s\<lparr>mem := mm, mbuf_pool := pool, exch_slots := e\<rparr>))
        (deliver_net ops ip (map (binding_at (mem s)) ys) m dl e p) \<and>
      frame F {(IterObj, it)} (mem s) mm" for p e m dl
  proof -
    let ?t = "s\<lparr>mem := m1, mbuf_pool := p, exch_slots := e\<rparr>"
    have "\<exists>mm. deliver_loop ops it ip m dl ?t =
        map_option (\<lambda>(m', dl', e, pool). (m', dl', ?t\<lparr>mem := mm, mbuf_pool := pool, exch_slots := e\<rparr>))
          (deliver_net ops ip (map (binding_at (mem ?t)) ys) m dl (exch_slots ?t) (mbuf_pool ?t)) \<and>
        frame F {(IterObj, it)} (mem ?t) mm"
      using m1(2,3,8) Cons.prems(3) by (intro Cons.IH) auto
    then show ?thesis
      using bs frame_trans [OF m1(4)] by (auto simp: case_prod_unfold)
  qed
  from deliver_loop_cons [OF m1(1,5,7) m1(9) [OF list.set_intros(1)] m1(4) this] show ?case by simp
qed

subsection \<open>A packet for a port with bindings\<close>

definition free_opt :: "('r, 'm, 'z) dpdk_scheme \<Rightarrow> packet option \<Rightarrow> 'm \<Rightarrow> 'm" where
  "free_opt ops m pool = (case m of None \<Rightarrow> pool | Some pkt \<Rightarrow> pktmbuf_free ops pkt pool)"

lemma mbuf_free_eq: "mbuf_free ops m s = s\<lparr>mbuf_pool := free_opt ops m (mbuf_pool s)\<rparr>"
  by (cases m) (simp_all add: mbuf_free_def free_opt_def)

lemma dispatch_bound:
  assumes ok: "table_ok s" and bs: "bindings s port \<noteq> []"
    and hdr: "load8 (data sg) 23 = Some 17" "load16 (data sg) 36 = Some port" "load32 (data sg) 30 = Some ip"
  shows "\<exists>t. iter_step s t \<and> dispatch ops (sg # segs) s =
    map_option (\<lambda>(m, dl, e, pool). t\<lparr>mbuf_pool := (if dl then pool else free_opt ops m pool), exch_slots := e\<rparr>)
      (deliver_net ops ip (bindings s port) (Some (sg # segs)) False (exch_slots s) (mbuf_pool s))"
proof -
  have inv: "table_inv s" and rm: "iter_room s" using ok room_iter [OF table_ok_room [OF ok]] by (auto simp: table_ok_def)
  let ?ns = "port_nodes (mem s) (sock_bind_table s) port" and ?F = "next_iter s"
  note rel = table_inv_rel [OF inv]
  have nn: "sock_bind_table s port \<noteq> NULL"
    using table_rel_nonempty [OF rel, of port] bs by (simp add: bindings_eq [OF rel])
  have "has_free s IterObj" using has_free_below [OF inv] ok by (simp add: table_ok_def)
  then obtain a where a: "iter_alloc s = Some a" "n_free a \<noteq> 0" by (auto simp: has_free_def)
  obtain it a' where it: "udpdk_shmalloc a = (it, a')" by (cases "udpdk_shmalloc a")
  have sep: "separated ?F" using rm by (simp add: iter_room_def)
  obtain m1 where m1: "list_iterator_new (sock_bind_table s port) LIST_HEAD s =
        Some (it, s\<lparr>mem := m1, iter_alloc := Some a'\<rparr>)"
      "iter_at ?F m1 it LIST_HEAD ?ns" "frame ?F {(IterObj, it)} (mem s) m1"
      "dlist ?F m1 (sock_bind_table s port) ?ns"
      "\<And>n. n \<in> set ?ns \<Longrightarrow> fld node_val m1 n \<in> ?F InfoObj"
      "\<And>n. n \<in> set ?ns \<Longrightarrow> binding_at m1 n = binding_at (mem s) n"
    by (rule open_iter [OF inv rm nn a it]) blast
  let ?s1 = "s\<lparr>mem := m1, iter_alloc := Some a'\<rparr>"
  have pend: "pending ?F (mem ?s1) (sock_bind_table s port) LIST_HEAD ?ns"
    using pending_new [OF m1(4), of LIST_HEAD] by simp
  have bind1: "map (binding_at m1) ?ns = bindings s port"
    using m1(6) by (simp add: bindings_eq [OF rel])
  let ?N = "deliver_net ops ip (bindings s port) (Some (sg # segs)) False (exch_slots s) (mbuf_pool s)"
  obtain mm where mm: "deliver_loop ops it ip (Some (sg # segs)) False ?s1 =
        map_option (\<lambda>(m', dl, e, pool). (m', dl, ?s1\<lparr>mem := mm, mbuf_pool := pool, exch_slots := e\<rparr>)) ?N"
      "frame ?F {(IterObj, it)} m1 mm"
    using deliver_loop_refine [OF sep pend, of it ops ip "Some (sg # segs)" False] m1(2,5) bind1 by auto
  let ?t = "s\<lparr>mem := mm, iter_alloc := Some (udpdk_shfree a' it)\<rparr>"
  have "iter_step s ?t"
    by (rule iter_stepI [OF inv a(1) it a(2) frame_trans [OF m1(3) mm(2)]])
  moreover have "dispatch ops (sg # segs) s = map_option (\<lambda>(m, dl, e, pool).
      ?t\<lparr>mbuf_pool := (if dl then pool else free_opt ops m pool), exch_slots := e\<rparr>) ?N"
    using hdr nn m1(1) mm(1)
    by (cases ?N) (auto simp: dispatch_simps hdr_lens IPPROTO_UDP_def btable_get_bindings_def
        mbuf_free_eq list_iterator_destroy_def iter_mfree_def)
  ultimately show ?thesis by blast
qed

subsection \<open>Who receives a packet\<close>

text \<open>The sockets a packet for an address is delivered to, and the slot that the code uses for one.\<close>

fun recipients :: "u32 \<Rightarrow> bind_info list \<Rightarrow> u32 list" where
  "recipients ip [] = []"
| "recipients ip (b # bs) =
     (if \<not> matches ip b then recipients ip bs
      else if shares b then bi_sockfd b # recipients ip bs
      else [bi_sockfd b])"

definition rx_index :: "u32 \<Rightarrow> nat" where
  "rx_index fd = unat (ucast fd :: u8)"

definition buffered :: "'r exch_slot \<Rightarrow> packet option list" where
  "buffered e = take (unat (rx_count e)) (rx_buffer e)"

definition exch_ok :: "'r exch_slot \<Rightarrow> bool" where
  "exch_ok e \<longleftrightarrow> length (rx_buffer e) = EXCH_BUF_SIZE \<and> unat (rx_count e) \<le> EXCH_BUF_SIZE"

text \<open>
  \<open>avail\<close> counts the references that the pools of buffers can still give out: a clone takes one
  for each segment and fails for lack of them only, freeing a packet gives them back.
\<close>

definition pool_laws :: "('r, 'm, 'f, 'n, 'z) poller_ops_scheme \<Rightarrow> ('m \<Rightarrow> nat) \<Rightarrow> bool" where
  "pool_laws ops avail \<longleftrightarrow>
     (\<forall>p pool. length p \<le> avail pool \<longrightarrow>
       (\<exists>pool'. pktmbuf_clone ops p pool = (Some p, pool') \<and> avail pool' + length p = avail pool)) \<and>
     (\<forall>p pool. avail (pktmbuf_free ops p pool) = avail pool + length p)"

lemma length_buffered: "exch_ok e \<Longrightarrow> length (buffered e) = unat (rx_count e)"
  by (simp add: exch_ok_def buffered_def)

lemma put_packet_ok:
  assumes "exch_ok (e (unat i))" "length (buffered (e (unat i))) < EXCH_BUF_SIZE"
  shows "\<exists>x. put_packet i m e = Some (e(unat i := x)) \<and> exch_ok x \<and> rx_q x = rx_q (e (unat i)) \<and>
    buffered x = buffered (e (unat i)) @ [m]"
proof -
  let ?e = "e (unat i)"
  let ?x = "?e\<lparr>rx_buffer := (rx_buffer ?e)[unat (rx_count ?e) := m], rx_count := rx_count ?e + 1\<rparr>"
  have c: "unat (rx_count ?e) < EXCH_BUF_SIZE" using assms length_buffered by metis
  then have u: "unat (rx_count ?e + 1) = Suc (unat (rx_count ?e))"
    by (simp add: unat_word_ariths EXCH_BUF_SIZE_def BURST_SIZE_def)
  have "buffered ?x = buffered ?e @ [m]"
    using assms(1) c unfolding buffered_def exch_ok_def by (simp add: u take_Suc_conv_app_nth)
  then show ?thesis
    using assms(1) c by (auto simp: put_packet_def exch_ok_def u intro!: exI [of _ ?x])
qed

lemma put_packet_full: "unat (rx_count (e (unat i))) = EXCH_BUF_SIZE \<Longrightarrow> put_packet i m e = None"
  by (simp add: put_packet_def)

text \<open>How often a slot is among the recipients.\<close>

definition hits :: "u32 \<Rightarrow> bind_info list \<Rightarrow> nat \<Rightarrow> nat" where
  "hits ip bs k = count_list (map rx_index (recipients ip bs)) k"

lemma hits_simps [simp]:
  "hits ip [] k = 0"
  "hits ip (b # bs) k = (if \<not> matches ip b then hits ip bs k
     else (if rx_index (bi_sockfd b) = k then 1 else 0) + (if shares b then hits ip bs k else 0))"
  by (simp_all add: hits_def)

lemma deliver_net_ok:
  assumes laws: "pool_laws ops avail"
    and "\<And>k. exch_ok (e k)" "\<And>k. length (buffered (e k)) + hits ip bs k \<le> EXCH_BUF_SIZE"
    and "length p * length (recipients ip bs) \<le> avail pool"
  shows "\<exists>dl e' pool'. deliver_net ops ip bs (Some p) False e pool = Some (Some p, dl, e', pool') \<and>
    (\<forall>k. exch_ok (e' k) \<and> rx_q (e' k) = rx_q (e k) \<and>
      buffered (e' k) = buffered (e k) @ replicate (hits ip bs k) (Some p)) \<and>
    avail (if dl then pool' else free_opt ops (Some p) pool') + length p * length (recipients ip bs) =
      avail pool + length p"
  using assms(2-4)
proof (induction bs arbitrary: e pool)
  case Nil
  then show ?case using laws by (auto simp: pool_laws_def free_opt_def intro!: exI [of _ False])
next
  case (Cons b bs)
  show ?case
  proof (cases "matches ip b")
    case False
    then show ?thesis using Cons by simp
  next
    case True
    note T = True
    let ?i = "ucast (bi_sockfd b) :: u8"
    have "hits ip (b # bs) (unat ?i) \<ge> 1" using T by (simp add: rx_index_def)
    then have "length (buffered (e (unat ?i))) < EXCH_BUF_SIZE"
      using Cons.prems(2) [of "unat ?i"] by linarith
    then obtain x where x: "put_packet ?i (Some p) e = Some (e(unat ?i := x))" "exch_ok x"
        "rx_q x = rx_q (e (unat ?i))" "buffered x = buffered (e (unat ?i)) @ [Some p]"
      using put_packet_ok [where e = e and i = ?i and m = "Some p"] Cons.prems(1) by blast
    let ?e = "e(unat ?i := x)"
    show ?thesis
    proof (cases "shares b")
      case False
      then show ?thesis using T x Cons.prems(1) by (auto simp: rx_index_def)
    next
      case True
      have "length p \<le> avail pool" using Cons.prems(3) T True by simp
      then obtain pool1 where c: "pktmbuf_clone ops p pool = (Some p, pool1)" "avail pool1 + length p = avail pool"
        using laws unfolding pool_laws_def by blast
      have ok: "exch_ok (?e k)" for k using Cons.prems(1) x(2) by simp
      have room: "length (buffered (?e k)) + hits ip bs k \<le> EXCH_BUF_SIZE" for k
        using Cons.prems(2) [of k] T True x(4) by (auto simp: rx_index_def)
      have "length p * length (recipients ip bs) \<le> avail pool1"
        using Cons.prems(3) T True c(2) by simp
      from Cons.IH [OF ok room this] obtain dl e' pool' where
        I: "deliver_net ops ip bs (Some p) False ?e pool1 = Some (Some p, dl, e', pool')"
          "\<forall>k. exch_ok (e' k) \<and> rx_q (e' k) = rx_q (?e k) \<and>
            buffered (e' k) = buffered (?e k) @ replicate (hits ip bs k) (Some p)"
          "avail (if dl then pool' else free_opt ops (Some p) pool') + length p * length (recipients ip bs) =
            avail pool1 + length p" by blast
      have "deliver_net ops ip (b # bs) (Some p) False e pool = Some (Some p, dl, e', pool')"
        using T True x(1) c(1) I(1) by simp
      moreover have "exch_ok (e' k) \<and> rx_q (e' k) = rx_q (e k) \<and>
          buffered (e' k) = buffered (e k) @ replicate (hits ip (b # bs) k) (Some p)" for k
        using I(2) x T True by (auto simp: rx_index_def)
      ultimately show ?thesis using I(3) c(2) T True by (intro exI [of _ dl] exI [of _ e'] exI [of _ pool']) simp
    qed
  qed
qed

subsection \<open>The whole delivery\<close>

text \<open>A complete UDP packet for a port and an address, as the poller sees it.\<close>

definition udp_packet ::
  "('r, 'm, 'f, 'n, 'z) poller_ops_scheme \<Rightarrow> packet \<Rightarrow> u16 \<Rightarrow> u32 \<Rightarrow> bool" where
  "udp_packet ops m port ip \<longleftrightarrow> (case m of
       [] \<Rightarrow> False
     | sg # _ \<Rightarrow> packet_type sg AND RTE_PTYPE_L3_IPV4 \<noteq> 0 \<and>
         \<not> frag_is_fragmented ops (take 20 (drop 14 (data sg))) \<and>
         load8 (data sg) 23 = Some 17 \<and> load16 (data sg) 36 = Some port \<and> load32 (data sg) 30 = Some ip)"

lemma alloc_of_poller [simp]:
  "alloc_of (s\<lparr>mbuf_pool := p, exch_slots := e\<rparr>) K = alloc_of (s :: ('r, 'm, 'f, 'n, 'a) pstate_scheme) K"
  by (cases K) simp_all

lemma reassemble_bound:
  assumes ok: "table_ok s" and bs: "bindings s port \<noteq> []" and m: "udp_packet ops m port ip"
  shows "\<exists>t. iter_step s t \<and> reassemble ops tms m s =
    map_option (\<lambda>(m, dl, e, pool). t\<lparr>mbuf_pool := (if dl then pool else free_opt ops m pool), exch_slots := e\<rparr>)
      (deliver_net ops ip (bindings s port) (Some m) False (exch_slots s) (mbuf_pool s))"
proof -
  obtain sg segs where sg: "m = sg # segs" and hdr: "load8 (data sg) 23 = Some 17"
      "load16 (data sg) 36 = Some port" "load32 (data sg) 30 = Some ip"
    using m by (auto simp: udp_packet_def split: list.splits)
  have "reassemble ops tms m s = dispatch ops m s"
    using m by (simp add: sg udp_packet_def reassemble_def hdr_lens)
  then show ?thesis using dispatch_bound [OF ok bs hdr, of ops segs] by (simp add: sg)
qed

text \<open>What the delivery leaves alone.\<close>

lemma iter_step_poller:
  assumes "table_ok s" "iter_step s t" "s' = t\<lparr>mbuf_pool := p, exch_slots := e\<rparr>"
  shows "table_ok s'" "bindings s' = bindings s" "slots s' = slots s" "tx_q s' = tx_q s"
    "frag_tbl s' = frag_tbl s" "nic s' = nic s" "mbuf_pool s' = p" "exch_slots s' = e"
proof -
  obtain mm a where t: "t = s\<lparr>mem := mm, iter_alloc := Some a\<rparr>"
    using assms(2) by (auto simp: iter_step_def)
  have "table_ok t"
    using table_ok_same [OF assms(1), of t] assms(2) by (simp add: iter_step_def)
  then show "table_ok s'"
    unfolding assms(3) by (subst table_cong(1) [of _ t]) simp_all
  have "bindings s' = bindings t"
    unfolding assms(3) by (rule table_cong(2)) simp_all
  then show "bindings s' = bindings s" using assms(2) by (simp add: iter_step_def)
  show "slots s' = slots s" "tx_q s' = tx_q s" "frag_tbl s' = frag_tbl s" "nic s' = nic s"
      "mbuf_pool s' = p" "exch_slots s' = e"
    by (simp_all add: assms(3) t)
qed

lemma reassemble_done:
  assumes ok: "table_ok s" and bs: "bindings s port \<noteq> []" and m: "udp_packet ops m port ip"
    and laws: "pool_laws ops avail" and ex: "\<And>k. exch_ok (exch_slots s k)"
    and room: "\<And>k. length (buffered (exch_slots s k)) + hits ip (bindings s port) k \<le> EXCH_BUF_SIZE"
    and av: "length m * length (recipients ip (bindings s port)) \<le> avail (mbuf_pool s)"
  shows "\<exists>s'. reassemble ops tms m s = Some s' \<and> table_ok s' \<and> bindings s' = bindings s \<and>
    slots s' = slots s \<and> tx_q s' = tx_q s \<and>
    (\<forall>k. exch_ok (exch_slots s' k) \<and> rx_q (exch_slots s' k) = rx_q (exch_slots s k) \<and>
      buffered (exch_slots s' k) = buffered (exch_slots s k) @ replicate (hits ip (bindings s port) k) (Some m)) \<and>
    avail (mbuf_pool s') + length m * length (recipients ip (bindings s port)) = avail (mbuf_pool s) + length m"
proof -
  obtain t where t: "iter_step s t" "reassemble ops tms m s =
      map_option (\<lambda>(m, dl, e, pool). t\<lparr>mbuf_pool := (if dl then pool else free_opt ops m pool), exch_slots := e\<rparr>)
        (deliver_net ops ip (bindings s port) (Some m) False (exch_slots s) (mbuf_pool s))"
    using reassemble_bound [OF ok bs m, of tms] by blast
  obtain dl e' pool' where D:
      "deliver_net ops ip (bindings s port) (Some m) False (exch_slots s) (mbuf_pool s) = Some (Some m, dl, e', pool')"
      "\<forall>k. exch_ok (e' k) \<and> rx_q (e' k) = rx_q (exch_slots s k) \<and>
        buffered (e' k) = buffered (exch_slots s k) @ replicate (hits ip (bindings s port) k) (Some m)"
      "avail (if dl then pool' else free_opt ops (Some m) pool') + length m * length (recipients ip (bindings s port)) =
        avail (mbuf_pool s) + length m"
    using deliver_net_ok [OF laws ex room av] by blast
  let ?p = "if dl then pool' else free_opt ops (Some m) pool'"
  have r: "reassemble ops tms m s = Some (t\<lparr>mbuf_pool := ?p, exch_slots := e'\<rparr>)"
    using t(2) D(1) by simp
  show ?thesis
    using iter_step_poller [OF ok t(1) refl, of e' ?p] r D(2,3) by auto
qed

text \<open>The packets that \<open>udpdk_sendto\<close> builds are of this kind.\<close>

lemma built_udp_packet:
  assumes mac: "macs_ok cfg" and nf: "\<And>hdr. hdr ! 6 = 0 \<Longrightarrow> hdr ! 7 = 0 \<Longrightarrow> \<not> frag_is_fragmented ops hdr"
  shows "udp_packet ops [build_packet ops cfg sl dest len payload] (sin_port dest) (sin_addr dest)"
proof -
  let ?p = "build_packet ops cfg sl dest len payload"
  note B = build_layout [OF mac, of ops sl dest len payload]
  have len: "len + of_nat IPV4_HDR_LEN + of_nat UDP_HDR_LEN = len + 28"
    by (simp add: hdr_lens)
  obtain ck where d: "data ?p = ether_hdr cfg @ ipv4_hdr (ucast (len + 28)) ck (packet_src cfg sl) (sin_addr dest) @
      udp_hdr (ucast (udp_port sl)) (sin_port dest) (ucast (len + of_nat UDP_HDR_LEN)) @ payload"
    unfolding build_packet_def Let_def len packet_src_def by simp
  have e: "length (ether_hdr cfg) = 14" using mac by simp
  have "take 20 (drop 14 (data ?p)) = ipv4_hdr (ucast (len + 28)) ck (packet_src cfg sl) (sin_addr dest)"
    unfolding d using e by simp
  moreover have "ipv4_hdr tl ck src dst ! 6 = 0" "ipv4_hdr tl ck src dst ! 7 = 0" for tl src dst
    by (simp_all add: ipv4_hdr_def bytes16_def)
  ultimately have "\<not> frag_is_fragmented ops (take 20 (drop 14 (data ?p)))" using nf by simp
  moreover have "load8 (data ?p) 23 = Some 17"
    unfolding d load8_def using e
    by (simp add: nth_append ipv4_hdr_def bytes16_def bytes32_def IPPROTO_UDP_def)
  moreover have "packet_type ?p AND RTE_PTYPE_L3_IPV4 \<noteq> 0"
    by (simp add: build_packet_def Let_def RTE_PTYPE_L3_IPV4_def)
  ultimately show ?thesis using B(2,5) by (simp add: udp_packet_def)
qed

subsection \<open>Flushing\<close>

lemma fold_free_opt: "fold (mbuf_free ops) ms s = s\<lparr>mbuf_pool := fold (free_opt ops) ms (mbuf_pool s)\<rparr>"
  by (induction ms arbitrary: s) (simp_all add: mbuf_free_eq)

lemma flush_rx_queue_frame:
  "\<exists>p e. flush_rx_queue ops idx s = s\<lparr>mbuf_pool := p, exch_slots := e\<rparr> \<and> (\<forall>k. k \<noteq> idx \<longrightarrow> e k = exch_slots s k)"
proof -
  let ?e = "exch_slots s idx"
  let ?pkts = "take (unat (rx_count ?e)) (rx_buffer ?e)"
  consider "rx_count ?e = 0" | "rx_count ?e \<noteq> 0" "ring_enqueue_bulk ops ?pkts (rx_q ?e) = None"
    | q where "rx_count ?e \<noteq> 0" "ring_enqueue_bulk ops ?pkts (rx_q ?e) = Some q"
    by fastforce
  then show ?thesis
  proof cases
    case 1
    then show ?thesis
      by (intro exI [of _ "mbuf_pool s"] exI [of _ "exch_slots s"]) (simp add: flush_rx_queue_def)
  next
    case 2
    then show ?thesis
      by (intro exI [of _ "fold (free_opt ops) ?pkts (mbuf_pool s)"]
          exI [of _ "(exch_slots s)(idx := ?e\<lparr>rx_count := 0\<rparr>)"])
        (simp add: flush_rx_queue_def Let_def fold_free_opt)
  next
    case 3
    then show ?thesis
      by (intro exI [of _ "mbuf_pool s"] exI [of _ "(exch_slots s)(idx := ?e\<lparr>rx_q := q, rx_count := 0\<rparr>)"])
        (simp add: flush_rx_queue_def Let_def)
  qed
qed

lemma flush_slots_frame:
  "\<exists>p e. flush_slots ops n i s = s\<lparr>mbuf_pool := p, exch_slots := e\<rparr> \<and>
    (\<forall>k. used (slots s k) = 0 \<longrightarrow> e k = exch_slots s k)"
proof (induction n arbitrary: i s)
  case 0
  have "s = s\<lparr>mbuf_pool := mbuf_pool s, exch_slots := exch_slots s\<rparr>" by simp
  then show ?case by (intro exI [of _ "mbuf_pool s"] exI [of _ "exch_slots s"]) simp
next
  case (Suc n)
  show ?case
  proof (cases "used (slots s i) = 0")
    case True
    then show ?thesis using Suc.IH [of "Suc i" s] by simp
  next
    case False
    obtain p e where f: "flush_rx_queue ops i s = s\<lparr>mbuf_pool := p, exch_slots := e\<rparr>"
        "\<forall>k. k \<noteq> i \<longrightarrow> e k = exch_slots s k"
      using flush_rx_queue_frame by metis
    obtain p' e' where g: "flush_slots ops n (Suc i) (s\<lparr>mbuf_pool := p, exch_slots := e\<rparr>) =
          s\<lparr>mbuf_pool := p, exch_slots := e\<rparr>\<lparr>mbuf_pool := p', exch_slots := e'\<rparr>"
        "\<forall>k. used (slots s k) = 0 \<longrightarrow> e' k = e k"
      using Suc.IH [of "Suc i" "s\<lparr>mbuf_pool := p, exch_slots := e\<rparr>"] by auto
    have "flush_slots ops (Suc n) i s = s\<lparr>mbuf_pool := p', exch_slots := e'\<rparr>"
      using False f(1) g(1) by simp
    moreover have "\<forall>k. used (slots s k) = 0 \<longrightarrow> e' k = exch_slots s k"
      using g(2) f(2) False by metis
    ultimately show ?thesis by blast
  qed
qed

lemma table_poller [simp]:
  "table_ok (s\<lparr>mbuf_pool := p, exch_slots := e\<rparr>) = table_ok (s :: ('r, 'm, 'f, 'n, 'a) pstate_scheme)"
  "bindings (s\<lparr>mbuf_pool := p, exch_slots := e\<rparr>) = bindings (s :: ('r, 'm, 'f, 'n, 'a) pstate_scheme)"
  by (rule table_cong; simp)+

end
