(* ===== verification/Poller_Tx.thy ===== *)
theory Poller_Tx
  imports Poller_Props
begin

text \<open>
  Transmission: the loop over a slot's ring ends, stays inside the table and takes packets from
  the front of the ring only; a round sends what the sockets put in their rings, in order. The
  rings and the card are parameters, with the laws that DPDK documents for them.
\<close>

subsection \<open>What the rings and the card do\<close>

text \<open>\<open>contents\<close> is the sequence of packets in a ring: a dequeue takes the first one.\<close>

definition fifo :: "('r, 'm, 'f, 'n, 'z) poller_ops_scheme \<Rightarrow> ('r \<Rightarrow> packet list) \<Rightarrow> bool" where
  "fifo ops contents \<longleftrightarrow>
     (\<forall>q. case contents q of
        [] \<Rightarrow> ring_dequeue ops q = None
      | p # ps \<Rightarrow> \<exists>q'. ring_dequeue ops q = Some (p, q') \<and> contents q' = ps)"

text \<open>Fragmentation gives at most as many packets as the caller has room for.\<close>

definition frag_bounded :: "('r, 'm, 'f, 'n, 'z) poller_ops_scheme \<Rightarrow> bool" where
  "frag_bounded ops \<longleftrightarrow>
     (\<forall>p n pool. case fst (ipv4_fragment ops p n pool) of None \<Rightarrow> True | Some fs \<Rightarrow> length fs \<le> n)"

text \<open>A card that takes every burst as a whole; \<open>sent\<close> is what it has transmitted.\<close>

definition card_takes_all :: "('r, 'm, 'f, 'n, 'z) poller_ops_scheme \<Rightarrow> ('n \<Rightarrow> packet list) \<Rightarrow> bool" where
  "card_takes_all ops sent \<longleftrightarrow>
     (\<forall>pkts n. \<exists>n'. eth_tx_burst ops pkts n = (length pkts, n') \<and> sent n' = sent n @ pkts)"

lemma frag_boundedD:
  assumes "frag_bounded ops" "ipv4_fragment ops p n pool = (Some fs, pool')"
  shows "length fs \<le> n"
  using assms unfolding frag_bounded_def by (metis fst_conv option.case(2))

lemma fifo_nil: "fifo ops contents \<Longrightarrow> contents q = [] \<Longrightarrow> ring_dequeue ops q = None"
  unfolding fifo_def by (drule spec [of _ q]) simp

lemma fifo_cons:
  assumes "fifo ops contents" "contents q = p # ps"
  obtains q' where "ring_dequeue ops q = Some (p, q')" "contents q' = ps"
  using assms unfolding fifo_def by (auto dest!: spec [of _ q])

subsection \<open>Emptying a ring\<close>

definition has_header :: "packet \<Rightarrow> bool" where
  "has_header p \<longleftrightarrow> (case p of [] \<Rightarrow> False | sg # _ \<Rightarrow> ETHER_HDR_LEN \<le> length (data sg))"

lemma length_attach: "length (fst (attach_headers ops hdr fs)) = length fs"
  by (induction fs) (auto split: option.split simp: case_prod_unfold Let_def)

lemma fold_mbuf_free_fields [simp]:
  "tx_q (fold (\<lambda>p. mbuf_free ops (Some p)) fs s) = tx_q s"
  "slots (fold (\<lambda>p. mbuf_free ops (Some p)) fs s) = slots s"
  "exch_slots (fold (\<lambda>p. mbuf_free ops (Some p)) fs (t :: ('r, 'm, 'f, 'n, 'a) pstate_scheme)) = exch_slots t"
  by (induction fs arbitrary: s t) (simp_all add: mbuf_free_def)

text \<open>One round of the loop takes one packet and adds what fits.\<close>

lemma tx_slot_loop_step:
  assumes fr: "frag_bounded ops" and l: "length tbl < BURST_SIZE"
    and d: "ring_dequeue ops (tx_q s i) = Some (p, q)" "has_header p"
  shows "\<exists>tbl' s'. (tx_slot_loop ops i tbl s = Some (tbl', s') \<or>
      tx_slot_loop ops i tbl s = tx_slot_loop ops i tbl' s') \<and>
    length tbl' \<le> TX_MBUF_TABLE_SIZE \<and> tx_q s' = (tx_q s)(i := q) \<and> slots s' = slots s"
proof -
  obtain sg segs where p: "p = sg # segs" and h: "ETHER_HDR_LEN \<le> length (data sg)"
    using d(2) by (auto simp: has_header_def split: list.splits)
  let ?s = "s\<lparr>tx_q := (tx_q s)(i := q)\<rparr>"
  have big: "BURST_SIZE \<le> TX_MBUF_TABLE_SIZE" by (simp add: TX_MBUF_TABLE_SIZE_def)
  show ?thesis
  proof (cases "pkt_len sg \<le> IPV4_MTU_DEFAULT")
    case True
    then have "tx_slot_loop ops i tbl s = tx_slot_loop ops i (tbl @ [p]) ?s"
      using l d(1) p by (subst tx_slot_loop.simps) simp
    then show ?thesis using l big by (intro exI [of _ "tbl @ [p]"] exI [of _ ?s]) simp
  next
    case False
    obtain frags pool where f: "ipv4_fragment ops (pktmbuf_adj p) (TX_MBUF_TABLE_SIZE - length tbl) (mbuf_pool s) =
        (frags, pool)" by fastforce
    let ?t = "?s\<lparr>mbuf_pool := pktmbuf_free ops (pktmbuf_adj p) pool\<rparr>"
    show ?thesis
    proof (cases frags)
      case None
      then have "tx_slot_loop ops i tbl s = Some (tbl, ?t)"
        using l d(1) p h False f by (subst tx_slot_loop.simps) simp
      then show ?thesis using l big by (intro exI [of _ tbl] exI [of _ ?t]) simp
    next
      case (Some fs)
      obtain gs ok where g: "attach_headers ops (take ETHER_HDR_LEN (data sg)) fs = (gs, ok)" by fastforce
      have "length gs = length fs" using length_attach [of ops "take ETHER_HDR_LEN (data sg)" fs] g by simp
      then have n: "length tbl + length gs \<le> TX_MBUF_TABLE_SIZE"
        using frag_boundedD [OF fr f [unfolded Some]] l big by simp
      let ?u = "fold (\<lambda>p. mbuf_free ops (Some p)) gs ?t"
      have "tx_slot_loop ops i tbl s = (if ok then tx_slot_loop ops i (tbl @ gs) ?t else tx_slot_loop ops i tbl ?u)"
        using l d(1) p h False f Some g by (subst tx_slot_loop.simps) simp
      then have "tx_slot_loop ops i tbl s =
          tx_slot_loop ops i (if ok then tbl @ gs else tbl) (if ok then ?t else ?u)" by simp
      then show ?thesis
        using n l big by (intro exI [of _ "if ok then tbl @ gs else tbl"] exI [of _ "if ok then ?t else ?u"]) simp
    qed
  qed
qed

lemma tx_slot_loop_ends:
  assumes "fifo ops contents" "frag_bounded ops" "length tbl \<le> TX_MBUF_TABLE_SIZE"
    and "\<forall>p \<in> set (contents (tx_q s i)). has_header p"
  shows "\<exists>tbl' s' ys. tx_slot_loop ops i tbl s = Some (tbl', s') \<and> length tbl' \<le> TX_MBUF_TABLE_SIZE \<and>
    contents (tx_q s i) = ys @ contents (tx_q s' i) \<and> (\<forall>j. j \<noteq> i \<longrightarrow> tx_q s' j = tx_q s j) \<and> slots s' = slots s"
  using assms(3,4)
proof (induction "contents (tx_q s i)" arbitrary: s tbl)
  case Nil
  have "tx_slot_loop ops i tbl s = Some (tbl, s)"
    using fifo_nil [OF assms(1) Nil.hyps [symmetric]] by (subst tx_slot_loop.simps) simp
  then show ?case using Nil by auto
next
  case (Cons p ps)
  show ?case
  proof (cases "BURST_SIZE \<le> length tbl")
    case True
    then have "tx_slot_loop ops i tbl s = Some (tbl, s)" by (subst tx_slot_loop.simps) simp
    then show ?thesis using Cons.prems by auto
  next
    case False
    obtain q where q: "ring_dequeue ops (tx_q s i) = Some (p, q)" "contents q = ps"
      using fifo_cons [OF assms(1) Cons.hyps(2) [symmetric]] .
    have hd: "has_header p" "\<forall>p \<in> set ps. has_header p"
      using Cons.prems(2) unfolding Cons.hyps(2) [symmetric] by simp_all
    then obtain tbl1 s1 where S: "tx_slot_loop ops i tbl s = Some (tbl1, s1) \<or>
          tx_slot_loop ops i tbl s = tx_slot_loop ops i tbl1 s1"
        "length tbl1 \<le> TX_MBUF_TABLE_SIZE" "tx_q s1 = (tx_q s)(i := q)" "slots s1 = slots s"
      using tx_slot_loop_step [OF assms(2) _ q(1), of tbl] False by auto
    have "\<exists>tbl' s' ys. tx_slot_loop ops i tbl1 s1 = Some (tbl', s') \<and> length tbl' \<le> TX_MBUF_TABLE_SIZE \<and>
        contents (tx_q s1 i) = ys @ contents (tx_q s' i) \<and> (\<forall>j. j \<noteq> i \<longrightarrow> tx_q s' j = tx_q s1 j) \<and> slots s' = slots s1"
      by (rule Cons.hyps(1)) (use S(2,3) q(2) hd(2) in simp_all)
    then obtain tbl' s' ys where R: "tx_slot_loop ops i tbl1 s1 = Some (tbl', s')" "length tbl' \<le> TX_MBUF_TABLE_SIZE"
        "ps = ys @ contents (tx_q s' i)" "\<forall>j. j \<noteq> i \<longrightarrow> tx_q s' j = tx_q s j" "slots s' = slots s"
      using S q by auto
    from S(1) show ?thesis
    proof
      assume "tx_slot_loop ops i tbl s = Some (tbl1, s1)"
      then show ?thesis using S q Cons.hyps(2)
        by (intro exI [of _ tbl1] exI [of _ s1] exI [of _ "[p]"]) simp
    next
      assume "tx_slot_loop ops i tbl s = tx_slot_loop ops i tbl1 s1"
      then show ?thesis using R Cons.hyps(2)
        by (intro exI [of _ tbl'] exI [of _ s'] exI [of _ "p # ys"]) simp
    qed
  qed
qed

subsection \<open>A round with small packets\<close>

definition small :: "packet \<Rightarrow> bool" where
  "small p \<longleftrightarrow> (case p of [] \<Rightarrow> False | sg # _ \<Rightarrow> pkt_len sg \<le> IPV4_MTU_DEFAULT)"

lemma tx_slot_small:
  assumes "fifo ops contents" "\<forall>p \<in> set (contents (tx_q s i)). small p"
    and "length tbl + length (contents (tx_q s i)) \<le> BURST_SIZE"
  shows "\<exists>q. tx_slot_loop ops i tbl s = Some (tbl @ contents (tx_q s i), s\<lparr>tx_q := (tx_q s)(i := q)\<rparr>) \<and> contents q = []"
  using assms(2,3)
proof (induction "contents (tx_q s i)" arbitrary: s tbl)
  case Nil
  have "tx_slot_loop ops i tbl s = Some (tbl, s)"
    using fifo_nil [OF assms(1) Nil.hyps [symmetric]] by (subst tx_slot_loop.simps) simp
  moreover have "s = s\<lparr>tx_q := (tx_q s)(i := tx_q s i)\<rparr>" by simp
  ultimately show ?case using Nil.hyps by (intro exI [of _ "tx_q s i"]) simp
next
  case (Cons p ps)
  note c = Cons.hyps(2) [symmetric]
  obtain q where q: "ring_dequeue ops (tx_q s i) = Some (p, q)" "contents q = ps"
    using fifo_cons [OF assms(1) c] .
  let ?s = "s\<lparr>tx_q := (tx_q s)(i := q)\<rparr>"
  have sm: "small p" "\<forall>p \<in> set ps. small p" and l: "length tbl + Suc (length ps) \<le> BURST_SIZE"
    using Cons.prems unfolding c by simp_all
  then obtain sg segs where p: "p = sg # segs" "pkt_len sg \<le> IPV4_MTU_DEFAULT"
    by (auto simp: small_def split: list.splits)
  have "tx_slot_loop ops i tbl s = tx_slot_loop ops i (tbl @ [p]) ?s"
    using l q(1) p by (subst tx_slot_loop.simps) simp
  moreover have "\<exists>q'. tx_slot_loop ops i (tbl @ [p]) ?s =
      Some ((tbl @ [p]) @ contents (tx_q ?s i), ?s\<lparr>tx_q := (tx_q ?s)(i := q')\<rparr>) \<and> contents q' = []"
    by (rule Cons.hyps(1)) (use q(2) sm(2) l in simp_all)
  ultimately show ?case using q(2) c by auto
qed

text \<open>The slots in use, from \<open>i\<close> on.\<close>

definition used_from :: "nat \<Rightarrow> nat \<Rightarrow> ('r, 'm, 'a) dstate_scheme \<Rightarrow> nat list" where
  "used_from i n s = filter (\<lambda>j. used (slots s j) \<noteq> 0) [i..<i + n]"

lemma used_from_simps [simp]:
  "used_from i 0 s = []"
  "used_from i (Suc n) s = (if used (slots s i) = 0 then used_from (Suc i) n s else i # used_from (Suc i) n s)"
  by (simp_all add: used_from_def upt_conv_Cons del: upt_Suc)

lemma used_from_ge: "j \<in> set (used_from i n s) \<Longrightarrow> i \<le> j"
  by (simp add: used_from_def)

lemma flush_tx_all:
  assumes "card_takes_all ops sent"
  obtains n' where "flush_tx_table ops tbl s = s\<lparr>nic := n'\<rparr>" "sent n' = sent (nic s) @ tbl"
proof -
  obtain n' where "eth_tx_burst ops tbl (nic s) = (length tbl, n')" "sent n' = sent (nic s) @ tbl"
    using assms unfolding card_takes_all_def by blast
  then show ?thesis using that [of n'] by (simp add: flush_tx_table_def)
qed

lemma tx_slots_small:
  assumes laws: "fifo ops contents" "card_takes_all ops sent"
    and "\<forall>j \<in> set (used_from i n s). \<forall>p \<in> set (contents (tx_q s j)). small p"
    and "length tbl + length (concat (map (\<lambda>j. contents (tx_q s j)) (used_from i n s))) \<le> BURST_SIZE"
  shows "\<exists>tbl' rings n'. tx_slots ops n i tbl s = Some (tbl', s\<lparr>tx_q := rings, nic := n'\<rparr>) \<and>
    sent n' @ tbl' = sent (nic s) @ tbl @ concat (map (\<lambda>j. contents (tx_q s j)) (used_from i n s)) \<and>
    (\<forall>j. if j \<in> set (used_from i n s) then contents (rings j) = [] else rings j = tx_q s j)"
  using assms(3,4)
proof (induction n arbitrary: i tbl s)
  case 0
  have "s = s\<lparr>tx_q := tx_q s, nic := nic s\<rparr>" by simp
  then show ?case by (intro exI [of _ tbl] exI [of _ "tx_q s"] exI [of _ "nic s"]) simp
next
  case (Suc n)
  show ?case
  proof (cases "used (slots s i) = 0")
    case True
    then show ?thesis using Suc by simp
  next
    case False
    have "\<forall>p \<in> set (contents (tx_q s i)). small p" "length tbl + length (contents (tx_q s i)) \<le> BURST_SIZE"
      using Suc.prems False by simp_all
    from tx_slot_small [OF laws(1) this] obtain q where
      q: "tx_slot_loop ops i tbl s = Some (tbl @ contents (tx_q s i), s\<lparr>tx_q := (tx_q s)(i := q)\<rparr>)" "contents q = []"
      by blast
    let ?tbl = "tbl @ contents (tx_q s i)" and ?s = "s\<lparr>tx_q := (tx_q s)(i := q)\<rparr>"
    have notin: "i \<notin> set (used_from (Suc i) n s)" using used_from_ge [of i "Suc i" n s] by auto
    have same: "used_from (Suc i) n (?s\<lparr>nic := x\<rparr>) = used_from (Suc i) n s" for x by (simp add: used_from_def)
    have qs: "map (\<lambda>j. contents (tx_q (?s\<lparr>nic := x\<rparr>) j)) (used_from (Suc i) n s) =
        map (\<lambda>j. contents (tx_q s j)) (used_from (Suc i) n s)" for x
      using notin by (intro map_cong [OF refl]) auto
    have sm: "\<forall>j \<in> set (used_from (Suc i) n (?s\<lparr>nic := x\<rparr>)). \<forall>p \<in> set (contents (tx_q (?s\<lparr>nic := x\<rparr>) j)). small p" for x
      unfolding same using Suc.prems(1) False notin by auto
    define full where "full \<longleftrightarrow> BURST_SIZE \<le> length ?tbl"
    obtain n1 where n1: "flush_tx_table ops ?tbl ?s = ?s\<lparr>nic := n1\<rparr>" "sent n1 = sent (nic ?s) @ ?tbl"
      using flush_tx_all [OF laws(2), of ?tbl ?s] .
    let ?x = "if full then n1 else nic s" and ?T = "if full then [] else ?tbl"
    have step: "tx_slots ops (Suc n) i tbl s = tx_slots ops n (Suc i) ?T (?s\<lparr>nic := ?x\<rparr>)"
      using False q(1) n1(1) by (simp add: full_def)
    have len: "length ?T + length (concat (map (\<lambda>j. contents (tx_q (?s\<lparr>nic := ?x\<rparr>) j))
        (used_from (Suc i) n (?s\<lparr>nic := ?x\<rparr>)))) \<le> BURST_SIZE"
      unfolding same qs using Suc.prems(2) False by simp
    obtain tbl' rings n' where R: "tx_slots ops n (Suc i) ?T (?s\<lparr>nic := ?x\<rparr>) =
          Some (tbl', ?s\<lparr>nic := ?x\<rparr>\<lparr>tx_q := rings, nic := n'\<rparr>)"
        "sent n' @ tbl' = sent ?x @ ?T @ concat (map (\<lambda>j. contents (tx_q s j)) (used_from (Suc i) n s))"
        "\<forall>j. if j \<in> set (used_from (Suc i) n s) then contents (rings j) = [] else rings j = ((tx_q s)(i := q)) j"
      using Suc.IH [OF sm len] unfolding same qs by auto
    have "sent ?x @ ?T = sent (nic s) @ ?tbl" using n1(2) by simp
    then have "sent n' @ tbl' = sent (nic s) @ tbl @ concat (map (\<lambda>j. contents (tx_q s j)) (used_from i (Suc n) s))"
      using R(2) False by (metis append.assoc concat.simps(2) list.simps(9) used_from_simps(2))
    moreover have "if j \<in> set (used_from i (Suc n) s) then contents (rings j) = [] else rings j = tx_q s j" for j
      using R(3) False q(2) notin by (cases "j = i") auto
    moreover have "?s\<lparr>nic := ?x\<rparr>\<lparr>tx_q := rings, nic := n'\<rparr> = s\<lparr>tx_q := rings, nic := n'\<rparr>" by simp
    ultimately show ?thesis using step R(1) by metis
  qed
qed

lemma tx_round_small:
  assumes "fifo ops contents" "card_takes_all ops sent"
    and "\<forall>j \<in> set (used_from 0 NUM_SOCKETS_MAX s). \<forall>p \<in> set (contents (tx_q s j)). small p"
    and "length (concat (map (\<lambda>j. contents (tx_q s j)) (used_from 0 NUM_SOCKETS_MAX s))) \<le> BURST_SIZE"
  shows "\<exists>rings n'. tx_round ops s = Some (s\<lparr>tx_q := rings, nic := n'\<rparr>) \<and>
    sent n' = sent (nic s) @ concat (map (\<lambda>j. contents (tx_q s j)) (used_from 0 NUM_SOCKETS_MAX s)) \<and>
    (\<forall>j. if j \<in> set (used_from 0 NUM_SOCKETS_MAX s) then contents (rings j) = [] else rings j = tx_q s j)"
proof -
  obtain tbl rings n' where T: "tx_slots ops NUM_SOCKETS_MAX 0 [] s = Some (tbl, s\<lparr>tx_q := rings, nic := n'\<rparr>)"
      "sent n' @ tbl = sent (nic s) @ concat (map (\<lambda>j. contents (tx_q s j)) (used_from 0 NUM_SOCKETS_MAX s))"
      "\<forall>j. if j \<in> set (used_from 0 NUM_SOCKETS_MAX s) then contents (rings j) = [] else rings j = tx_q s j"
    using tx_slots_small [OF assms(1-3), of "[]"] assms(4) by auto
  obtain n2 where n2: "flush_tx_table ops tbl (s\<lparr>tx_q := rings, nic := n'\<rparr>) = s\<lparr>tx_q := rings, nic := n2\<rparr>"
      "sent n2 = sent n' @ tbl"
    using flush_tx_all [OF assms(2), of tbl "s\<lparr>tx_q := rings, nic := n'\<rparr>"] by auto
  show ?thesis
  proof (cases "tbl = []")
    case True
    then have "tx_round ops s = Some (s\<lparr>tx_q := rings, nic := n'\<rparr>)" using T(1) by (simp add: tx_round_def)
    then show ?thesis using T(2,3) True by (intro exI [of _ rings] exI [of _ n']) simp
  next
    case False
    then have "tx_round ops s = Some (s\<lparr>tx_q := rings, nic := n2\<rparr>)" using T(1) n2(1) by (simp add: tx_round_def)
    then show ?thesis using n2(2) T(2,3) by (intro exI [of _ rings] exI [of _ n2]) simp
  qed
qed

end
