(* ===== verification/Properties_Poller.thy ===== *)
theory Properties_Poller
  imports Properties_Datagram Poller_Tx
begin

text \<open>
  Properties of the poller, each with an instance.
\<close>

subsection \<open>Instances\<close>

text \<open>Rings and the card as lists of packets, and a counter of free buffers, in place of DPDK's.\<close>

definition demo_poller :: "(packet list, nat, unit, packet list) poller_ops" where
  "demo_poller =
     \<lparr>pktmbuf_alloc = (\<lambda>n. if n = 0 then None else Some (n - 1)),
      pktmbuf_free = (\<lambda>pkt n. n + length pkt),
      ring_enqueue = (\<lambda>pkt q. if length q < 4 then Some (q @ [pkt]) else None),
      ipv4_cksum = (\<lambda>_. 0), data_room = 2048,
      pktmbuf_clone = (\<lambda>p n. if length p \<le> n then (Some p, n - length p) else (None, n)),
      frag_is_fragmented = (\<lambda>hdr. hdr ! 6 \<noteq> 0 \<or> hdr ! 7 \<noteq> 0),
      frag_reassemble = (\<lambda>p _ f. (None, f)), frag_free_death_row = Pair,
      ring_enqueue_bulk = (\<lambda>ps q. if length q + length ps \<le> 4 then Some (q @ map the ps) else None),
      ring_dequeue = (\<lambda>q. case q of [] \<Rightarrow> None | p # ps \<Rightarrow> Some (p, ps)),
      eth_tx_burst = (\<lambda>ps n. (length ps, n @ ps)), eth_rx_burst = (\<lambda>_ n. ([], n)),
      pktmbuf_headroom = (\<lambda>_. 128), ipv4_fragment = (\<lambda>_ _ n. (None, n))\<rparr>"

definition empty_exch :: "packet list exch_slot" where
  "empty_exch = \<lparr>rx_q = [], rx_buffer = replicate 128 None, rx_count = 0\<rparr>"

definition demo_poll :: "(packet list, nat, unit, packet list) pstate" where
  "demo_poll =
     \<lparr>mem = (\<lambda>_. 0), list_alloc = Some (demo_pool ListObj), node_alloc = Some (demo_pool NodeObj),
      iter_alloc = Some (demo_pool IterObj), info_alloc = Some (demo_pool InfoObj),
      sock_bind_table = (\<lambda>_. NULL), n_zones_active = 1,
      slots = (\<lambda>_. closed)(0 := closed\<lparr>used := 1\<rparr>, 1 := bound_example), errno = None,
      tx_q = (\<lambda>_. []), mbuf_pool = 4, exch_slots = (\<lambda>_. empty_exch), frag_tbl = (), nic = []\<rparr>"

text \<open>The packet that was built for port 20480 of 10.0.0.1, with three bytes of payload.\<close>

definition demo_pkt :: packet where
  "demo_pkt = [build_packet demo_poller demo_cfg bound_example demo_addr 3 [7, 8, 9]]"

lemma demo_poller_laws:
  "pool_laws demo_poller (\<lambda>n. n)" "fifo demo_poller (\<lambda>q. q)" "frag_bounded demo_poller"
  "card_takes_all demo_poller (\<lambda>n. n)"
  by (simp_all add: demo_poller_def pool_laws_def fifo_def frag_bounded_def card_takes_all_def split: list.split)

lemma empty_exch_ok [simp]: "exch_ok empty_exch" "buffered empty_exch = []" "rx_count empty_exch = 0"
  by (simp_all add: exch_ok_def buffered_def empty_exch_def EXCH_BUF_SIZE_def BURST_SIZE_def)

lemma demo_pkt_udp: "udp_packet demo_poller demo_pkt 20480 167772161"
proof -
  have "udp_packet demo_poller demo_pkt (sin_port demo_addr) (sin_addr demo_addr)"
    unfolding demo_pkt_def by (rule built_udp_packet [OF demo_macs]) (simp add: demo_poller_def)
  then show ?thesis by (simp add: demo_addr_def)
qed

text \<open>The same state with one socket bound to the port and the address.\<close>

lemma demo_poll_bound:
  "\<exists>s. table_ok s \<and> bindings s = (\<lambda>_. [])(20480 := [new_info fd 167772161 0]) \<and>
    bshm.more s = bshm.more demo_poll"
proof -
  have st: "demo_state demo_poll" by (rule demo_stateI) (simp_all add: demo_poll_def)
  note D = demo_ok [OF st]
  have n: "n_bound (bindings demo_poll) < NUM_SOCKETS_MAX"
    unfolding D(2) by (simp add: n_bound_def NUM_SOCKETS_MAX_def)
  show ?thesis
    using table_ok_add [OF D(1) n, of fd 167772161 20480 0] unfolding D(2)
    by (auto simp: insert_binding_def INADDR_ANY_def new_info_def)
qed

lemma poll_fields:
  "bshm.more s' = bshm.more s \<Longrightarrow>
    slots s' = slots s \<and> tx_q s' = tx_q s \<and> mbuf_pool s' = mbuf_pool s \<and> exch_slots s' = exch_slots s \<and>
    frag_tbl s' = frag_tbl s \<and> nic s' = nic s"
  for s :: "('r, 'm, 'f, 'n, 'a) pstate_scheme"
  by (cases s; cases s') simp

subsection \<open>Delivery\<close>



text \<open>
  The packet that \<open>udpdk_sendto\<close> builds for an address is one that the poller delivers: on
  arrival it is put in the exchange buffer of every socket bound to that port and address (or
  the wildcard), whole and unchanged.
\<close>

theorem sent_packet_delivered:
  assumes "macs_ok cfg" "\<And>hdr. hdr ! 6 = 0 \<Longrightarrow> hdr ! 7 = 0 \<Longrightarrow> \<not> frag_is_fragmented ops hdr"
    and "table_ok s" "bindings s (sin_port dest) = bs" "bs \<noteq> []"
    and "pool_laws ops avail" "\<And>k. exch_ok (exch_slots s k)"
    and "\<And>k. length (buffered (exch_slots s k)) + hits (sin_addr dest) bs k \<le> EXCH_BUF_SIZE"
    and "length (recipients (sin_addr dest) bs) \<le> avail (mbuf_pool s)"
    and "pkt = [build_packet ops cfg sl dest len payload]"
  shows "\<exists>s'. reassemble ops tms pkt s = Some s' \<and>
    (\<forall>k. buffered (exch_slots s' k) =
      buffered (exch_slots s k) @ replicate (hits (sin_addr dest) bs k) (Some pkt))"
proof -
  have u: "udp_packet ops pkt (sin_port dest) (sin_addr dest)"
    unfolding assms(10) by (rule built_udp_packet [OF assms(1,2)])
  have l: "length pkt = 1" by (simp add: assms(10))
  show ?thesis
    using reassemble_done [where tms = tms and avail = avail, OF assms(3) _ u assms(6,7)] assms(4,5,8,9) l by auto
qed

lemma sent_packet_delivered_witness:
  "\<exists>(s :: (packet list, nat, unit, packet list) pstate) s'. reassemble demo_poller 0 demo_pkt s = Some s' \<and>
    buffered (exch_slots s' 1) = [Some demo_pkt]"
proof -
  obtain s :: "(packet list, nat, unit, packet list) pstate" where s: "table_ok s"
      "bindings s = (\<lambda>_. [])(20480 := [new_info 1 167772161 0])" "bshm.more s = bshm.more demo_poll"
    using demo_poll_bound by blast
  have e: "exch_slots s = (\<lambda>_. empty_exch)" "mbuf_pool s = 4"
    using poll_fields [OF s(3)] by (simp_all add: demo_poll_def)
  let ?bs = "[new_info 1 167772161 0]"
  have r: "recipients (sin_addr demo_addr) ?bs = [1]"
      "hits (sin_addr demo_addr) ?bs k = (if k = 1 then 1 else 0)" for k
    by (auto simp: matches_def shares_def new_info_def rx_index_def demo_addr_def)
  have "\<exists>s'. reassemble demo_poller 0 demo_pkt s = Some s' \<and>
    (\<forall>k. buffered (exch_slots s' k) =
      buffered (exch_slots s k) @ replicate (hits (sin_addr demo_addr) ?bs k) (Some demo_pkt))"
    by (rule sent_packet_delivered [OF demo_macs _ s(1) _ _ demo_poller_laws(1) _ _ _ demo_pkt_def])
      (simp_all add: r e demo_poller_def [THEN arg_cong [of _ _ frag_is_fragmented]] EXCH_BUF_SIZE_def BURST_SIZE_def,
       simp add: s(2) demo_addr_def)
  then obtain s' where "reassemble demo_poller 0 demo_pkt s = Some s'"
      "buffered (exch_slots s' 1) = buffered (exch_slots s 1) @ replicate (hits (sin_addr demo_addr) ?bs 1) (Some demo_pkt)"
    by blast
  then show ?thesis unfolding r e by auto
qed

text \<open>
  C29: The exchange slot of a delivery is indexed with the low byte of the descriptor. A packet
  for a socket with a descriptor of 256 or more is not put in that socket's buffer but in the
  buffer of another socket.
\<close>

theorem delivery_truncates_descriptor:
  assumes "table_ok s" "bindings s port = [b]" "matches ip b" "\<not> shares b" "udp_packet ops m port ip"
    and "256 \<le> unat (bi_sockfd b)" "k = unat (bi_sockfd b) mod 256"
    and "exch_ok (exch_slots s k)" "length (buffered (exch_slots s k)) < EXCH_BUF_SIZE"
  shows "\<exists>s'. reassemble ops tms m s = Some s' \<and>
    exch_slots s' (unat (bi_sockfd b)) = exch_slots s (unat (bi_sockfd b)) \<and>
    buffered (exch_slots s' k) = buffered (exch_slots s k) @ [Some m]"
proof -
  have i: "unat (ucast (bi_sockfd b) :: u8) = k"
    using assms(7) by (simp add: unsigned_ucast_eq take_bit_eq_mod)
  have ne: "k \<noteq> unat (bi_sockfd b)"
    using assms(6,7) mod_less_divisor [of 256 "unat (bi_sockfd b)"] by linarith
  obtain x where x: "put_packet (ucast (bi_sockfd b)) (Some m) (exch_slots s) = Some ((exch_slots s)(k := x))"
      "buffered x = buffered (exch_slots s k) @ [Some m]"
    using put_packet_ok [where e = "exch_slots s" and i = "ucast (bi_sockfd b)"] assms(8,9) unfolding i by blast
  show ?thesis
    using reassemble_bound [OF assms(1) _ assms(5), of tms] assms(2-4) x ne by auto
qed

lemma delivery_truncates_descriptor_witness:
  "\<exists>(s :: (packet list, nat, unit, packet list) pstate) s'. bindings s 20480 = [new_info 257 167772161 0] \<and>
    reassemble demo_poller 0 demo_pkt s = Some s' \<and>
    buffered (exch_slots s' 257) = [] \<and> buffered (exch_slots s' 1) = [Some demo_pkt]"
proof -
  obtain s :: "(packet list, nat, unit, packet list) pstate" where s: "table_ok s"
      "bindings s = (\<lambda>_. [])(20480 := [new_info 257 167772161 0])" "bshm.more s = bshm.more demo_poll"
    using demo_poll_bound by blast
  have e: "exch_slots s = (\<lambda>_. empty_exch)"
    using poll_fields [OF s(3)] by (simp add: demo_poll_def)
  have bs: "bindings s 20480 = [new_info 257 167772161 0]" using s(2) by simp
  have b: "matches 167772161 (new_info 257 167772161 0)" "\<not> shares (new_info 257 167772161 0)"
      "bi_sockfd (new_info 257 167772161 0) = 257"
    by (simp_all add: matches_def shares_def new_info_def)
  show ?thesis
    using delivery_truncates_descriptor [OF s(1) bs b(1,2) demo_pkt_udp _ refl, of 0] bs
    unfolding e b(3) by (auto simp: EXCH_BUF_SIZE_def BURST_SIZE_def)
qed

text \<open>
  C30: An exchange buffer is flushed only when the slot with its index is open. When the low byte
  of a descriptor names a slot that is not open, the buffer is never emptied, and once it holds
  128 packets the next one is written behind its end.
\<close>

theorem unflushed_buffer_overflows:
  assumes "table_ok s" "bindings s port = b # bs" "matches ip b" "udp_packet ops m port ip"
    and "k = rx_index (bi_sockfd b)" "used (slots s k) = 0"
    and "unat (rx_count (exch_slots s k)) = EXCH_BUF_SIZE"
  shows "reassemble ops tms m (flush_slots ops NUM_SOCKETS_MAX 0 s) = None"
proof -
  obtain p e where f: "flush_slots ops NUM_SOCKETS_MAX 0 s = s\<lparr>mbuf_pool := p, exch_slots := e\<rparr>"
      "e k = exch_slots s k"
    using flush_slots_frame [of ops NUM_SOCKETS_MAX 0 s] assms(6) by metis
  let ?s = "s\<lparr>mbuf_pool := p, exch_slots := e\<rparr>"
  have "put_packet (ucast (bi_sockfd b)) (Some m) (exch_slots ?s) = None"
    using put_packet_full [of "exch_slots ?s" "ucast (bi_sockfd b)"] assms(5,7) f(2) by (simp add: rx_index_def)
  then have "deliver_net ops ip (bindings ?s port) (Some m) False (exch_slots ?s) (mbuf_pool ?s) = None"
    using assms(2,3) by simp
  then show ?thesis
    using reassemble_bound [of ?s port ops m ip tms] assms(1,2,4) unfolding f(1) by auto
qed

lemma unflushed_buffer_overflows_witness:
  "\<exists>s :: (packet list, nat, unit, packet list) pstate.
    bindings s 20480 = [new_info 258 167772161 0] \<and> used (slots s 2) = 0 \<and>
    reassemble demo_poller 0 demo_pkt (flush_slots demo_poller NUM_SOCKETS_MAX 0 s) = None"
proof -
  obtain s0 :: "(packet list, nat, unit, packet list) pstate" where s0: "table_ok s0"
      "bindings s0 = (\<lambda>_. [])(20480 := [new_info 258 167772161 0])" "bshm.more s0 = bshm.more demo_poll"
    using demo_poll_bound by blast
  let ?s = "s0\<lparr>mbuf_pool := 4, exch_slots := (\<lambda>_. empty_exch)(2 := empty_exch\<lparr>rx_count := 128\<rparr>)\<rparr>"
  have ok: "table_ok ?s" using s0(1) by simp
  have bs: "bindings ?s 20480 = [new_info 258 167772161 0]" using s0(2) by simp
  have m: "matches 167772161 (new_info 258 167772161 0)" by (simp add: matches_def new_info_def)
  have i: "2 = rx_index (bi_sockfd (new_info 258 167772161 0))" by (simp add: rx_index_def new_info_def)
  have u: "used (slots ?s 2) = 0"
    using poll_fields [OF s0(3)] by (simp add: demo_poll_def closed_def)
  have c: "unat (rx_count (exch_slots ?s 2)) = EXCH_BUF_SIZE"
    by (simp add: EXCH_BUF_SIZE_def BURST_SIZE_def)
  from unflushed_buffer_overflows [OF ok bs m demo_pkt_udp i u c] bs u show ?thesis by blast
qed

text \<open>
  A packet that is not IPv4, not UDP, or for a port without bindings is dropped without being
  freed: \<open>reassemble\<close> changes nothing, so the buffers of the packet are lost to the pool.
\<close>

theorem dropped_packets_leak:
  assumes "m = sg # segs"
    and "packet_type sg AND RTE_PTYPE_L3_IPV4 = 0 \<or>
      (packet_type sg AND RTE_PTYPE_L3_IPV4 \<noteq> 0 \<and> \<not> frag_is_fragmented ops (take 20 (drop 14 (data sg))) \<and>
        (\<exists>proto. load8 (data sg) 23 = Some proto \<and> proto \<noteq> 17)) \<or>
      (udp_packet ops m port ip \<and> table_inv s \<and> bindings s port = [])"
  shows "reassemble ops tms m s = Some s"
proof -
  have p17: "ucast proto \<noteq> IPPROTO_UDP" if "proto \<noteq> 17" for proto :: u8
  proof
    assume "ucast proto = IPPROTO_UDP"
    then have "unat (ucast proto :: u32) = unat (17 :: u32)" unfolding IPPROTO_UDP_def by (rule arg_cong)
    then have "unat proto = unat (17 :: u8)" by simp
    with that show False by (simp only: word_unat_eq_iff)
  qed
  consider "packet_type sg AND RTE_PTYPE_L3_IPV4 = 0"
    | proto where "packet_type sg AND RTE_PTYPE_L3_IPV4 \<noteq> 0" "\<not> frag_is_fragmented ops (take 20 (drop 14 (data sg)))"
        "load8 (data sg) 23 = Some proto" "proto \<noteq> 17"
    | "udp_packet ops m port ip" "table_inv s" "bindings s port = []"
    using assms(2) by blast
  then show ?thesis
  proof cases
    case 1
    then show ?thesis by (simp add: assms(1) reassemble_def)
  next
    case 2
    then show ?thesis
      using p17 [OF 2(4)] by (simp add: assms(1) reassemble_def dispatch_simps hdr_lens)
  next
    case 3
    have "sock_bind_table s port = NULL"
      using table_rel_nonempty [OF table_inv_rel [OF 3(2)], of port] 3(3)
      by (simp add: bindings_eq [OF table_inv_rel [OF 3(2)]])
    then show ?thesis
      using 3(1) by (simp add: assms(1) udp_packet_def reassemble_def dispatch_simps hdr_lens
          IPPROTO_UDP_def btable_get_bindings_def)
  qed
qed

lemma dropped_packets_leak_witness:
  "reassemble demo_poller 0 demo_pkt demo_poll = Some demo_poll"
proof -
  have st: "demo_state demo_poll" by (rule demo_stateI) (simp_all add: demo_poll_def)
  have "table_inv demo_poll" "bindings demo_poll 20480 = []"
    using demo_ok [OF st] by (simp_all add: table_ok_def)
  then show ?thesis
    using dropped_packets_leak [OF demo_pkt_def] demo_pkt_udp by blast
qed

subsection \<open>Flushing\<close>

text \<open>
  \<open>flush_rx_queue\<close> empties the exchange buffer of its slot and no other one. The packets go to
  the socket's ring in their order, or, when the ring has no room for all of them, they are all
  freed.
\<close>

theorem flush_rx_queue_correct:
  assumes "exch_ok (exch_slots s idx)" "buffered (exch_slots s idx) = pkts" "pkts \<noteq> []"
    and "s' = flush_rx_queue ops idx s"
  shows "buffered (exch_slots s' idx) = [] \<and> exch_ok (exch_slots s' idx) \<and>
    (\<forall>k. k \<noteq> idx \<longrightarrow> exch_slots s' k = exch_slots s k) \<and>
    (case ring_enqueue_bulk ops pkts (rx_q (exch_slots s idx)) of
      Some q \<Rightarrow> rx_q (exch_slots s' idx) = q \<and> mbuf_pool s' = mbuf_pool s
    | None \<Rightarrow> rx_q (exch_slots s' idx) = rx_q (exch_slots s idx) \<and>
        mbuf_pool s' = fold (free_opt ops) pkts (mbuf_pool s))"
proof -
  let ?e = "exch_slots s idx"
  have c: "rx_count ?e \<noteq> 0" using assms(2,3) by (auto simp: buffered_def)
  have s': "s' = (case ring_enqueue_bulk ops pkts (rx_q ?e) of
      None \<Rightarrow> s\<lparr>mbuf_pool := fold (free_opt ops) pkts (mbuf_pool s), exch_slots := (exch_slots s)(idx := ?e\<lparr>rx_count := 0\<rparr>)\<rparr>
    | Some q \<Rightarrow> s\<lparr>exch_slots := (exch_slots s)(idx := ?e\<lparr>rx_q := q, rx_count := 0\<rparr>)\<rparr>)"
    using c assms(2) unfolding assms(4) flush_rx_queue_def Let_def buffered_def
    by (simp add: fold_free_opt split: option.split)
  show ?thesis
    using assms(1) unfolding s' by (auto simp: buffered_def exch_ok_def split: option.split)
qed

definition flush_example :: "(packet list, nat, unit, packet list) pstate" where
  "flush_example = demo_poll\<lparr>exch_slots := (\<lambda>_. empty_exch\<lparr>rx_buffer := Some demo_pkt # replicate 127 None, rx_count := 1\<rparr>)\<rparr>"

lemma flush_rx_queue_correct_witness:
  "buffered (exch_slots (flush_rx_queue demo_poller 0 flush_example) 0) = [] \<and>
   rx_q (exch_slots (flush_rx_queue demo_poller 0 flush_example) 0) = [demo_pkt]"
proof -
  have ok: "exch_ok (exch_slots flush_example 0)" "buffered (exch_slots flush_example 0) = [Some demo_pkt]"
      "rx_q (exch_slots flush_example 0) = []"
    by (simp_all add: flush_example_def exch_ok_def buffered_def EXCH_BUF_SIZE_def BURST_SIZE_def empty_exch_def)
  note F = flush_rx_queue_correct [OF ok(1,2) _ refl, of demo_poller]
  have "ring_enqueue_bulk demo_poller [Some demo_pkt] [] = Some [demo_pkt]" by (simp add: demo_poller_def)
  with F show ?thesis unfolding ok(3) by simp
qed

subsection \<open>Transmission\<close>

text \<open>
  C17: The loop that empties a socket's transmit ring ends, whatever the packets and their
  fragments are, takes packets from the front of that ring only, and never has more than the
  256 entries of the table in use. The ring is first in, first out, every packet has an
  Ethernet header, and fragmentation keeps to the room it is given.
\<close>

theorem tx_slot_loop_terminates:
  assumes "fifo ops contents" "frag_bounded ops" "length tbl \<le> TX_MBUF_TABLE_SIZE"
    and "\<forall>p \<in> set (contents (tx_q s i)). has_header p"
  shows "\<exists>tbl' s' ys. tx_slot_loop ops i tbl s = Some (tbl', s') \<and> length tbl' \<le> TX_MBUF_TABLE_SIZE \<and>
    contents (tx_q s i) = ys @ contents (tx_q s' i) \<and> (\<forall>j. j \<noteq> i \<longrightarrow> tx_q s' j = tx_q s j) \<and> slots s' = slots s"
  by (rule tx_slot_loop_ends [OF assms])

text \<open>Two packets wait in the ring of slot 0.\<close>

definition tx_example :: "(packet list, nat, unit, packet list) pstate" where
  "tx_example = demo_poll\<lparr>tx_q := (\<lambda>_. [])(0 := [demo_pkt, demo_pkt])\<rparr>"

lemma demo_pkt_small: "has_header demo_pkt" "small demo_pkt"
  using build_layout(7) [OF demo_macs, of demo_poller bound_example demo_addr 3 "[7, 8, 9]"]
  by (simp_all add: demo_pkt_def has_header_def small_def hdr_lens build_packet_def IPV4_MTU_DEFAULT_def Let_def)

lemma tx_slot_loop_terminates_witness:
  "\<exists>tbl' s'. tx_slot_loop demo_poller 0 [] tx_example = Some (tbl', s') \<and> length tbl' \<le> 256"
  using tx_slot_loop_terminates [OF demo_poller_laws(2,3), of "[]" tx_example 0] demo_pkt_small(1)
  by (auto simp: tx_example_def TX_MBUF_TABLE_SIZE_def BURST_SIZE_def)

text \<open>
  C18: A round of the poller sends everything that waits in the rings of the open sockets, slot
  by slot and in the order of each ring, and leaves those rings empty and the others as they
  were. This is for packets within the MTU, at most a burst of them in all, and a card that
  takes them.
\<close>

theorem tx_round_sends_all:
  assumes "fifo ops contents" "card_takes_all ops sent"
    and "\<forall>j \<in> set (used_from 0 NUM_SOCKETS_MAX s). \<forall>p \<in> set (contents (tx_q s j)). small p"
    and "length (concat (map (\<lambda>j. contents (tx_q s j)) (used_from 0 NUM_SOCKETS_MAX s))) \<le> BURST_SIZE"
  shows "\<exists>rings n'. tx_round ops s = Some (s\<lparr>tx_q := rings, nic := n'\<rparr>) \<and>
    sent n' = sent (nic s) @ concat (map (\<lambda>j. contents (tx_q s j)) (used_from 0 NUM_SOCKETS_MAX s)) \<and>
    (\<forall>j. if j \<in> set (used_from 0 NUM_SOCKETS_MAX s) then contents (rings j) = [] else rings j = tx_q s j)"
  by (rule tx_round_small [OF assms])

lemma tx_round_sends_all_witness:
  "\<exists>s'. tx_round demo_poller tx_example = Some s' \<and> nic s' = [demo_pkt, demo_pkt] \<and> tx_q s' 0 = []"
proof -
  have s: "slots tx_example = (\<lambda>_. closed)(0 := closed\<lparr>used := 1\<rparr>, 1 := bound_example)" "nic tx_example = []"
      "tx_q tx_example = (\<lambda>_. [])(0 := [demo_pkt, demo_pkt])"
    by (simp_all add: tx_example_def demo_poll_def)
  obtain n where n: "0 + NUM_SOCKETS_MAX = 2 + n"
    using le_Suc_ex [of 2 NUM_SOCKETS_MAX] by (auto simp: NUM_SOCKETS_MAX_def)
  have r: "[0..<0 + NUM_SOCKETS_MAX] = [0, 1] @ [2..<2 + n]"
    unfolding n upt_add_eq_append [of 0 2 n, OF le0] by (simp add: upt_rec)
  have "filter (\<lambda>j. used (slots tx_example j) \<noteq> 0) [2..<2 + n] = []"
    unfolding filter_empty_conv by (simp add: s closed_def)
  then have u: "used_from 0 NUM_SOCKETS_MAX tx_example = [0, 1]"
    unfolding used_from_def r filter_append by (simp add: s)
  show ?thesis
    using tx_round_sends_all [OF demo_poller_laws(2,4), of tx_example] demo_pkt_small(2)
    unfolding u s by (auto simp: BURST_SIZE_def)
qed

end
