(* ===== verification/Decimal.thy ===== *)
theory Decimal
  imports Prelude
begin

text \<open>
  The decimal conversions of \<open>snprintf\<close> and \<open>atoi\<close>.
\<close>

definition digit :: "nat \<Rightarrow> char" where
  "digit d = char_of (48 + d)"

text \<open>\<open>%u\<close> and \<open>%d\<close>.\<close>

fun show_nat :: "nat \<Rightarrow> string" where
  "show_nat n = (if n < 10 then [digit n] else show_nat (n div 10) @ [digit (n mod 10)])"

declare show_nat.simps [simp del]

definition show_int :: "int \<Rightarrow> string" where
  "show_int n = (if n < 0 then CHR ''-'' # show_nat (nat (- n)) else show_nat (nat n))"

text \<open>\<open>atoi\<close>: white space, a sign, digits; out of the range of \<open>int\<close> it is undefined.\<close>

definition is_space :: "char \<Rightarrow> bool" where
  "is_space c \<longleftrightarrow> c = CHR '' '' \<or> (9 \<le> (of_char c :: nat) \<and> (of_char c :: nat) \<le> 13)"

definition is_digit :: "char \<Rightarrow> bool" where
  "is_digit c \<longleftrightarrow> 48 \<le> (of_char c :: nat) \<and> (of_char c :: nat) \<le> 57"

definition read_nat :: "string \<Rightarrow> nat" where
  "read_nat = foldl (\<lambda>a c. 10 * a + (of_char c - 48)) 0"

definition atoi :: "string \<Rightarrow> int option" where
  "atoi str =
     (let cs = dropWhile is_space str;
          (neg, ds) = (case cs of [] \<Rightarrow> (False, [])
            | c # cs' \<Rightarrow> if c = CHR ''-'' then (True, cs') else if c = CHR ''+'' then (False, cs') else (False, cs));
          n = int (read_nat (takeWhile is_digit ds));
          v = (if neg then - n else n)
      in if - (2 ^ 31) \<le> v \<and> v < 2 ^ 31 then Some v else None)"

lemma digit_value: "d < 10 \<Longrightarrow> of_char (digit d) - (48 :: nat) = d"
  by (simp add: digit_def)

lemma read_show: "read_nat (show_nat n) = n"
proof (induction n rule: show_nat.induct)
  case (1 n)
  show ?case
  proof (cases "n < 10")
    case True
    then show ?thesis using digit_value [of n] by (simp add: show_nat.simps [of n] read_nat_def)
  next
    case False
    have "read_nat (show_nat n) = 10 * read_nat (show_nat (n div 10)) + n mod 10"
      using False digit_value [of "n mod 10"] by (subst show_nat.simps) (simp add: read_nat_def)
    then show ?thesis using 1 [OF False] by simp
  qed
qed

lemma length_show: "n < 10 ^ Suc k \<Longrightarrow> length (show_nat n) \<le> Suc k"
proof (induction k arbitrary: n)
  case 0
  then show ?case by (simp add: show_nat.simps [of n])
next
  case (Suc k)
  have "length (show_nat (n div 10)) \<le> Suc k"
    using Suc.prems by (intro Suc.IH) (simp add: less_mult_imp_div_less)
  then show ?case by (simp add: show_nat.simps [of n])
qed

end
