(* ===== verification/Args.thy ===== *)
theory Args
  imports Datagram Decimal
begin

text \<open>
  The command line and the configuration file (\<open>udpdk/udpdk_args.c\<close>). The parser of \<open>.ini\<close>
  files and DPDK's and the system's address parsers are parameters; \<open>getopt\<close> is one too.
  \<open>malloc\<close> succeeds. \<open>None\<close> is a write behind the end of an allocated string, or reading a
  string without its end.
\<close>

subsection \<open>The configuration\<close>

text \<open>The arrays of \<open>char\<close> are given by the characters before the first zero.\<close>

record config = configuration +
  lcores_primary :: string
  lcores_secondary :: string
  n_mem_channels :: int

definition MAX_ARGC :: nat where "MAX_ARGC = 64"
definition MAX_ARG_LEN :: nat where "MAX_ARG_LEN = 256"

text \<open>
  \<open>unformat\<close> is \<open>rte_ether_unformat_addr\<close>, \<open>inet_addr\<close> gives all ones on an error (which is only
  reported). \<open>strncpy\<close> leaves an array without an end when the value fills it.
\<close>

definition parse_handler ::
  "(string \<Rightarrow> u8 list option) \<Rightarrow> (string \<Rightarrow> u32) \<Rightarrow> config \<Rightarrow> string \<Rightarrow> string \<Rightarrow> string \<Rightarrow> (int \<times> config) option" where
  "parse_handler unformat inet_addr cfg sect name val =
     (if sect = ''port0'' \<and> name = ''mac_addr'' then
        (case unformat val of None \<Rightarrow> Some (0, cfg) | Some m \<Rightarrow> Some (1, cfg\<lparr>src_mac_addr := m\<rparr>))
      else if sect = ''port0'' \<and> name = ''ip_addr'' then
        Some (1, cfg\<lparr>src_ip_addr := inet_addr val\<rparr>)
      else if sect = ''port0_dst'' \<and> name = ''mac_addr'' then
        (case unformat val of None \<Rightarrow> Some (0, cfg) | Some m \<Rightarrow> Some (1, cfg\<lparr>dst_mac_addr := m\<rparr>))
      else if sect = ''dpdk'' \<and> name = ''lcores_primary'' then
        Some (1, cfg\<lparr>lcores_primary := take MAX_ARG_LEN val\<rparr>)
      else if sect = ''dpdk'' \<and> name = ''lcores_secondary'' then
        Some (1, cfg\<lparr>lcores_secondary := take MAX_ARG_LEN val\<rparr>)
      else if sect = ''dpdk'' \<and> name = ''n_mem_channels'' then do {
        n \<leftarrow> atoi val;
        Some (1, cfg\<lparr>n_mem_channels := n\<rparr>) }
      else Some (0, cfg))"

subsection \<open>The arguments of the two processes\<close>

definition c_string :: "string \<Rightarrow> string option" where
  "c_string cs = (if length cs < MAX_ARG_LEN then Some cs else None)"

text \<open>\<open>snprintf\<close> of at most \<open>n\<close> characters, end included, into \<open>cap\<close> allocated bytes.\<close>

definition print_to :: "nat \<Rightarrow> nat \<Rightarrow> string \<Rightarrow> string option" where
  "print_to cap n str =
     (let out = take (n - 1) str in if cap < length out + 1 then None else Some out)"

text \<open>The six arguments that both processes have.\<close>

definition common_args :: "string \<Rightarrow> string \<Rightarrow> int \<Rightarrow> string \<Rightarrow> string list option" where
  "common_args progname lcores n_mem proc_type = do {
     a0 \<leftarrow> print_to (length progname + 1) MAX_ARG_LEN progname;
     a1 \<leftarrow> print_to 3 3 ''-l'';
     lc \<leftarrow> c_string lcores;
     a2 \<leftarrow> print_to (length lc + 1) MAX_ARG_LEN lc;
     a3 \<leftarrow> print_to 3 3 ''-n'';
     a4 \<leftarrow> print_to 8 MAX_ARG_LEN (show_int n_mem);
     a5 \<leftarrow> print_to (length proc_type + 1) MAX_ARG_LEN proc_type;
     Some [a0, a1, a2, a3, a4, a5] }"

fun copy_args :: "string list \<Rightarrow> string list option" where
  "copy_args [] = Some []"
| "copy_args (a # as) = do {
     a' \<leftarrow> print_to (length a + 1) MAX_ARG_LEN a;
     as' \<leftarrow> copy_args as;
     Some (a' # as') }"

text \<open>The result: the value returned, \<open>primary_argv\<close> and \<open>secondary_argv\<close>.\<close>

definition setup_primary_secondary_args ::
  "string \<Rightarrow> config \<Rightarrow> string list \<Rightarrow> (int \<times> string list \<times> string list) option" where
  "setup_primary_secondary_args progname cfg argv = do {
     prim \<leftarrow> common_args progname (lcores_primary cfg) (n_mem_channels cfg) ''--proc-type=primary'';
     sec \<leftarrow> common_args progname (lcores_secondary cfg) (n_mem_channels cfg) ''--proc-type=secondary'';
     if MAX_ARGC \<le> length prim + length argv then Some (-1, prim, sec)
     else do {
       sep \<leftarrow> print_to 3 3 ''--'';
       rest \<leftarrow> copy_args argv;
       Some (0, prim @ [sep] @ rest, sec) } }"

text \<open>
  \<open>getopt argv\<close> is the first result of \<open>getopt (argc, argv, "c:")\<close>: the option, \<open>optarg\<close>, and the
  arguments as it leaves them. \<open>ini_parse\<close> gets the name of the file, the handler and the
  configuration.
\<close>

definition udpdk_parse_args ::
  "(string list \<Rightarrow> char option \<times> string \<times> string list) \<Rightarrow>
    (string \<Rightarrow> (config \<Rightarrow> string \<Rightarrow> string \<Rightarrow> string \<Rightarrow> (int \<times> config) option) \<Rightarrow> config \<Rightarrow> (int \<times> config) option) \<Rightarrow>
    (string \<Rightarrow> u8 list option) \<Rightarrow> (string \<Rightarrow> u32) \<Rightarrow> string list \<Rightarrow> config \<Rightarrow>
    (int \<times> config \<times> string list \<times> string list) option" where
  "udpdk_parse_args getopt ini_parse unformat inet_addr argv cfg =
     (if length argv < 3 then Some (-1, cfg, [], [])
      else let progname = hd argv;
               (c, optarg, argv) = getopt argv
      in if c \<noteq> Some (CHR ''c'') then Some (-1, cfg, [], [])
      else if length optarg \<le> 4 \<or> drop (length optarg - 4) optarg \<noteq> ''.ini'' then Some (-1, cfg, [], [])
      else do {
        let argv = drop 3 argv;
        (r, cfg) \<leftarrow> ini_parse optarg (parse_handler unformat inet_addr) cfg;
        if r < 0 then Some (-1, cfg, [], [])
        else do {
          (r, prim, sec) \<leftarrow> setup_primary_secondary_args progname cfg argv;
          Some (if r < 0 then -1 else 0, cfg, prim, sec) } })"

subsection \<open>The arguments as they come out\<close>

lemma print_to_fits: "print_to (length s + 1) MAX_ARG_LEN s = Some (take 255 s)"
  by (simp add: print_to_def MAX_ARG_LEN_def)

lemma copy_args_eq: "copy_args as = Some (map (take 255) as)"
proof (induction as)
  case (Cons a as)
  then show ?case unfolding copy_args.simps print_to_fits by simp
qed simp

lemma common_args_eq:
  assumes "length lcores < MAX_ARG_LEN" "length ptype < MAX_ARG_LEN"
  shows "common_args progname lcores n ptype =
    (if 8 \<le> length (show_int n) then None
     else Some [take 255 progname, ''-l'', lcores, ''-n'', show_int n, ptype])"
  using assms by (auto simp: common_args_def c_string_def print_to_def MAX_ARG_LEN_def Let_def)

end
