(* ===== verification/Init.thy ===== *)
theory Init
  imports Poller Ipc Args
begin

text \<open>
  Initialisation and cleanup of the application process (\<open>udpdk/udpdk_init.c\<close>) and the matching
  initialisation of the poller (\<open>poller_init\<close> of \<open>udpdk/udpdk_poller.c\<close>). The calls into DPDK are
  parameters; each \<open>int\<close> they return is read as the code reads it. Log messages are left out.
\<close>

subsection \<open>Names of the rings\<close>

datatype exch_ring_func = EXCH_RING_RX | EXCH_RING_TX

text \<open>The buffer has \<open>sizeof "UDPDK_exchange_ring_%u_RX" + 8\<close> characters, one for the end.\<close>

definition get_exch_ring_name :: "u32 \<Rightarrow> exch_ring_func \<Rightarrow> string" where
  "get_exch_ring_name i f = take 33 (''UDPDK_exchange_ring_'' @ show_nat (unat i) @
     (case f of EXCH_RING_RX \<Rightarrow> ''_RX'' | EXCH_RING_TX \<Rightarrow> ''_TX''))"

text \<open>The poller has a function of its own for the names.\<close>

definition poller_exch_ring_name :: "u32 \<Rightarrow> exch_ring_func \<Rightarrow> string" where
  "poller_exch_ring_name i f = (if f = EXCH_RING_RX
     then take 33 (''UDPDK_exchange_ring_'' @ show_nat (unat i) @ ''_RX'')
     else take 33 (''UDPDK_exchange_ring_'' @ show_nat (unat i) @ ''_TX''))"

lemma same_ring_name: "poller_exch_ring_name = get_exch_ring_name"
  by (auto simp: fun_eq_iff poller_exch_ring_name_def get_exch_ring_name_def split: exch_ring_func.splits)

subsection \<open>Exchange slots\<close>

definition EXCH_RING_SIZE :: nat where "EXCH_RING_SIZE = 2048"

text \<open>The pointers \<open>rx_q\<close> and \<open>tx_q\<close> of the slots; \<open>None\<close> is \<open>NULL\<close> or not yet written.\<close>

record 'r exch_rings =
  rx_ring :: "nat \<Rightarrow> 'r option"
  tx_ring :: "nat \<Rightarrow> 'r option"

text \<open>
  The loops of \<open>init_exchange_slots\<close> (\<open>ring\<close> is \<open>rte_ring_create\<close>) and of the poller's
  \<open>setup_exch_zone\<close> (\<open>ring\<close> is \<open>rte_ring_lookup\<close>). The first one makes both rings before it
  tests them. The first argument counts the slots left.
\<close>

fun create_rings :: "(string \<Rightarrow> 'r option) \<Rightarrow> nat \<Rightarrow> nat \<Rightarrow> 'r exch_rings \<Rightarrow> int \<times> 'r exch_rings" where
  "create_rings ring 0 i e = (0, e)"
| "create_rings ring (Suc n) i e =
     (let e = e\<lparr>rx_ring := (rx_ring e)(i := ring (get_exch_ring_name (of_nat i) EXCH_RING_RX))\<rparr>;
          e = e\<lparr>tx_ring := (tx_ring e)(i := ring (get_exch_ring_name (of_nat i) EXCH_RING_TX))\<rparr>
      in if rx_ring e i = None \<or> tx_ring e i = None then (-1, e) else create_rings ring n (Suc i) e)"

fun lookup_rings :: "(string \<Rightarrow> 'r option) \<Rightarrow> nat \<Rightarrow> nat \<Rightarrow> 'r exch_rings \<Rightarrow> int \<times> 'r exch_rings" where
  "lookup_rings ring 0 i e = (0, e)"
| "lookup_rings ring (Suc n) i e =
     (let e = e\<lparr>rx_ring := (rx_ring e)(i := ring (poller_exch_ring_name (of_nat i) EXCH_RING_RX))\<rparr>
      in if rx_ring e i = None then (-1, e)
         else let e = e\<lparr>tx_ring := (tx_ring e)(i := ring (poller_exch_ring_name (of_nat i) EXCH_RING_TX))\<rparr>
              in if tx_ring e i = None then (-1, e) else lookup_rings ring n (Suc i) e)"

definition no_rings :: "'r exch_rings" where
  "no_rings = \<lparr>rx_ring = (\<lambda>_. None), tx_ring = (\<lambda>_. None)\<rparr>"

text \<open>\<open>malloc_ok\<close>: whether \<open>rte_malloc\<close> gives the array.\<close>

definition init_exchange_slots ::
  "bool \<Rightarrow> (string \<Rightarrow> nat \<Rightarrow> 'r option) \<Rightarrow> int \<times> 'r exch_rings" where
  "init_exchange_slots malloc_ok ring_create =
     (if \<not> malloc_ok then (-1, no_rings)
      else create_rings (\<lambda>name. ring_create name EXCH_RING_SIZE) NUM_SOCKETS_MAX 0 no_rings)"

text \<open>\<open>zone_lookup\<close> is \<open>rte_memzone_lookup\<close> of the exchange zone.\<close>

definition setup_exch_zone ::
  "(string \<Rightarrow> 'z option) \<Rightarrow> bool \<Rightarrow> (string \<Rightarrow> 'r option) \<Rightarrow> int \<times> 'r exch_rings" where
  "setup_exch_zone zone_lookup zmalloc_ok ring_lookup =
     (if zone_lookup ''UDPDK_exchange_desc'' = None then (-1, no_rings)
      else if \<not> zmalloc_ok then (-1, no_rings)
      else lookup_rings ring_lookup NUM_SOCKETS_MAX 0 no_rings)"

subsection \<open>Exchange zone and table\<close>

definition zero_slot :: slot_info where
  "zero_slot = \<lparr>used = 0, bound = 0, slot_sockfd = 0, udp_port = 0, ip_addr = 0, so_options = 0\<rparr>"

text \<open>\<open>sizeof(struct exch_zone_info)\<close>: the slots are aligned to cache lines.\<close>

definition sizeof_exch_zone_info :: u32 where
  "sizeof_exch_zone_info = 64 + of_nat NUM_SOCKETS_MAX * 64"

definition init_exch_memzone ::
  "(string \<Rightarrow> u32 \<Rightarrow> (ptr \<times> (nat \<Rightarrow> u32)) option) \<Rightarrow> 'a sstate_scheme \<Rightarrow> int \<times> 'a sstate_scheme" where
  "init_exch_memzone reserve s = (case reserve ''UDPDK_exchange_desc'' sizeof_exch_zone_info of
       None \<Rightarrow> (-1, s)
     | Some mz \<Rightarrow> (0, s\<lparr>n_zones_active := 0, slots := (\<lambda>_. zero_slot)\<rparr>))"

definition init_udp_bind_table ::
  "(string \<Rightarrow> u32 \<Rightarrow> (ptr \<times> (nat \<Rightarrow> u32)) option) \<Rightarrow> 'a sstate_scheme \<Rightarrow> (int \<times> 'a sstate_scheme) option" where
  "init_udp_bind_table reserve s = (case reserve ''UDPDK_btable'' (of_nat UDP_MAX_PORT * 8) of
       None \<Rightarrow> Some (-1, s)
     | Some mz \<Rightarrow> do { s \<leftarrow> btable_init reserve s; Some (0, s) })"

subsection \<open>Buffers and ports\<close>

text \<open>The pools in the order of \<open>init_mbuf_pools\<close>; it stops at the first that fails.\<close>

definition NUM_MBUFS :: nat where
  "NUM_MBUFS = 2048 + 2048 + 2 * 512"

definition init_mbuf_pools :: "(string \<Rightarrow> nat \<Rightarrow> 'm \<Rightarrow> bool \<times> 'm) \<Rightarrow> 'm \<Rightarrow> int \<times> 'm" where
  "init_mbuf_pools pool_create m =
     (let (ok, m) = pool_create ''UDPDK_mbuf_pool_RX'' NUM_MBUFS m
      in if \<not> ok then (-1, m)
         else let (ok, m) = pool_create ''UDPDK_mbuf_pool_TX'' NUM_MBUFS m
         in if \<not> ok then (-1, m)
            else let (ok, m) = pool_create ''UDPDK_mbuf_pool_direct_TX'' NUM_MBUFS m
            in if \<not> ok then (-1, m)
               else let (ok, m) = pool_create ''UDPDK_mbuf_pool_indir_TX'' NUM_MBUFS m
               in if \<not> ok then (-1, m) else (0, m))"

text \<open>
  The calls on a port: each gives its return value and the device. \<open>dev_configure\<close> gets the
  maximal length of a packet, the two setups the number of descriptors that were adjusted.
\<close>

record 'd eth_ops =
  dev_is_valid_port :: "'d \<Rightarrow> bool"
  dev_info_get :: "'d \<Rightarrow> int \<times> u32"
  dev_configure :: "u32 \<Rightarrow> 'd \<Rightarrow> int \<times> 'd"
  dev_adjust_nb_rx_tx_desc :: "u16 \<times> u16 \<Rightarrow> 'd \<Rightarrow> int \<times> (u16 \<times> u16) \<times> 'd"
  rx_queue_setup :: "u16 \<Rightarrow> 'd \<Rightarrow> int \<times> 'd"
  tx_queue_setup :: "u16 \<Rightarrow> 'd \<Rightarrow> int \<times> 'd"
  promiscuous_enable :: "'d \<Rightarrow> int \<times> 'd"
  dev_start :: "'d \<Rightarrow> int \<times> 'd"

definition JUMBO_FRAME_MAX_SIZE :: u32 where "JUMBO_FRAME_MAX_SIZE = 0x2600"

definition init_port :: "('d, 'z) eth_ops_scheme \<Rightarrow> 'd \<Rightarrow> int \<times> 'd" where
  "init_port ops d =
     (if \<not> dev_is_valid_port ops d then (-1, d)
      else let (retval, max_rx_pktlen) = dev_info_get ops d
      in if retval \<noteq> 0 then (retval, d)
      else let (retval, d) = dev_configure ops (min JUMBO_FRAME_MAX_SIZE max_rx_pktlen) d
      in if retval \<noteq> 0 then (retval, d)
      else let (retval, (rx_ring_size, tx_ring_size), d) = dev_adjust_nb_rx_tx_desc ops (2048, 2048) d
      in if retval \<noteq> 0 then (retval, d)
      else let (retval, d) = rx_queue_setup ops rx_ring_size d
      in if retval < 0 then (retval, d)
      else let (retval, d) = tx_queue_setup ops tx_ring_size d
      in if retval < 0 then (retval, d)
      else let (retval, d) = promiscuous_enable ops d
      in if retval < 0 then (retval, d)
      else let (retval, d) = dev_start ops d
      in if retval < 0 then (retval, d)
      else (0, d))"

subsection \<open>The application\<close>

text \<open>
  The state of the application process, beside the shared table and slots; \<open>zone_mapped\<close> is
  whether \<open>exch_zone_desc\<close> is not \<open>NULL\<close>.
\<close>

record ('r, 'q, 'm, 'd) app = sstate +
  app_rings :: "'r exch_rings"
  app_ipc :: "('r, 'q) ipc"
  app_pools :: 'm
  app_dev :: 'd
  zone_mapped :: bool

text \<open>
  What DPDK answers: \<open>ring_seen c\<close> is the ring of the poller's notifications as attempt \<open>c\<close> of
  the wait finds it.
\<close>

record ('p, 'r, 'q, 'm, 'd) app_ops =
  eal_init_ok :: bool
  zone_reserve :: "string \<Rightarrow> u32 \<Rightarrow> (ptr \<times> (nat \<Rightarrow> u32)) option"
  ring_create :: "string \<Rightarrow> nat \<Rightarrow> 'r option"
  msg_pool_create :: "string \<Rightarrow> nat \<Rightarrow> nat \<Rightarrow> 'q option"
  mbuf_pool_create :: "string \<Rightarrow> nat \<Rightarrow> 'm \<Rightarrow> bool \<times> 'm"
  slots_malloc_ok :: bool
  eth_calls :: "'d eth_ops"
  ipc_calls :: "('p, 'r, 'q) ipc_ops"
  ring_seen :: "nat \<Rightarrow> 'r"

text \<open>
  The branch of the parent in \<open>udpdk_init\<close>, after the arguments were parsed; \<open>PORT_TX\<close> is
  \<open>PORT_RX\<close>. The result of the wait for the poller is not used.
\<close>

definition udpdk_init_app ::
  "('p, 'r, 'q, 'm, 'd, 'z) app_ops_scheme \<Rightarrow> ('r, 'q, 'm, 'd, 'a) app_scheme \<Rightarrow>
    (int \<times> ('r, 'q, 'm, 'd, 'a) app_scheme) option" where
  "udpdk_init_app ops s =
     (if \<not> eal_init_ok ops then Some (-1, s)
      else do {
        s \<leftarrow> udpdk_list_init (zone_reserve ops) s;
        let (retval, m) = init_mbuf_pools (mbuf_pool_create ops) (app_pools s);
        let s = s\<lparr>app_pools := m\<rparr>;
        if retval < 0 then Some (-1, s)
        else do {
          let (retval, d) = init_port (eth_calls ops) (app_dev s);
          let s = s\<lparr>app_dev := d\<rparr>;
          if retval < 0 then Some (-1, s)
          else do {
            let (retval, ch) = init_ipc_channel (ring_create ops) (msg_pool_create ops) (app_ipc s);
            let s = s\<lparr>app_ipc := ch\<rparr>;
            if retval < 0 then Some (-1, s)
            else do {
              let (retval, s) = init_exch_memzone (zone_reserve ops) s;
              if retval < 0 then Some (-1, s)
              else do {
                let s = s\<lparr>zone_mapped := True\<rparr>;
                (retval, s) \<leftarrow> init_udp_bind_table (zone_reserve ops) s;
                if retval < 0 then Some (-1, s)
                else do {
                  let (retval, e) = init_exchange_slots (slots_malloc_ok ops) (ring_create ops);
                  let s = s\<lparr>app_rings := e\<rparr>;
                  if retval < 0 then Some (-1, s)
                  else do {
                    ch \<leftarrow> ipc_notify_to_poller (ipc_calls ops) (app_ipc s);
                    (_, ch) \<leftarrow> ipc_wait_for_poller (ipc_calls ops) (ring_seen ops) ch;
                    Some (0, s\<lparr>app_ipc := ch\<rparr>) } } } } } } })"

text \<open>The globals of the process that belong to no component: \<open>poller_pid\<close>, \<open>interrupted\<close>, \<open>config\<close>.\<close>

record process =
  poller_pid :: int
  interrupted :: bool
  proc_config :: config

text \<open>
  \<open>udpdk_init\<close>. \<open>parse\<close> is \<open>udpdk_parse_args\<close> on the arguments of the process, \<open>forked\<close> the result of
  \<open>fork\<close>, and \<open>ops prim\<close> what DPDK answers when it is started with the arguments \<open>prim\<close>. In the
  child \<open>child sec\<close> is \<open>poller_init\<close> on the state of that process; \<open>poller_body\<close> does not return, so
  that the call has no value (\<open>None\<close> inside) when that succeeds.
\<close>

definition udpdk_init ::
  "(config \<Rightarrow> (int \<times> config \<times> string list \<times> string list) option) \<Rightarrow> int \<Rightarrow>
    (string list \<Rightarrow> ('p, 'r, 'q, 'm, 'd, 'z) app_ops_scheme) \<Rightarrow>
    (string list \<Rightarrow> ('r, 'q, 'm, 'd, 'a) app_scheme \<Rightarrow> (int \<times> ('r, 'q, 'm, 'd, 'a) app_scheme) option) \<Rightarrow>
    process \<Rightarrow> ('r, 'q, 'm, 'd, 'a) app_scheme \<Rightarrow> (int option \<times> process \<times> ('r, 'q, 'm, 'd, 'a) app_scheme) option" where
  "udpdk_init parse forked ops child g s = do {
     (r, cfg, prim, sec) \<leftarrow> parse (proc_config g);
     let g = g\<lparr>proc_config := cfg\<rparr>;
     if r < 0 then Some (Some (-1), g, s)
     else do {
       let g = g\<lparr>poller_pid := forked\<rparr>;
       if poller_pid g \<noteq> 0 then do {
         (r, s) \<leftarrow> udpdk_init_app (ops prim) s;
         Some (Some r, g, s) }
       else do {
         (r, s) \<leftarrow> child sec s;
         Some (if r < 0 then Some (-1) else None, g, s) } } }"

definition udpdk_interrupt :: "int \<Rightarrow> process \<Rightarrow> process" where
  "udpdk_interrupt signum g = g\<lparr>interrupted := True\<rparr>"

subsection \<open>Closing down\<close>

text \<open>The first argument counts the slots left; the result of \<open>udpdk_close\<close> is not used.\<close>

fun close_sockets :: "nat \<Rightarrow> nat \<Rightarrow> 'a sstate_scheme \<Rightarrow> 'a sstate_scheme option" where
  "close_sockets 0 i s = Some s"
| "close_sockets (Suc n) i s =
     (if bound (slots s i) = 0 then close_sockets n (Suc i) s
      else do { (_, s) \<leftarrow> udpdk_close (of_nat i) s; close_sockets n (Suc i) s })"

definition udpdk_close_all_sockets :: "'a sstate_scheme \<Rightarrow> 'a sstate_scheme option" where
  "udpdk_close_all_sockets s = close_sockets NUM_SOCKETS_MAX 0 s"

text \<open>\<open>rte_memzone_free(rte_memzone_lookup(name))\<close>; \<open>NULL\<close> is an error that is not looked at.\<close>

definition free_named_zone ::
  "(ptr \<Rightarrow> 'z \<Rightarrow> 'z) \<Rightarrow> (string \<Rightarrow> 'z \<Rightarrow> ptr option) \<Rightarrow> string \<Rightarrow> 'z \<Rightarrow> 'z" where
  "free_named_zone zone_free zone_lookup name z =
     (case zone_lookup name z of None \<Rightarrow> z | Some mz \<Rightarrow> zone_free mz z)"

definition destroy_udp_bind_table ::
  "(ptr \<Rightarrow> 'z \<Rightarrow> 'z) \<Rightarrow> (string \<Rightarrow> 'z \<Rightarrow> ptr option) \<Rightarrow> 'a bshm_scheme \<Rightarrow> 'z \<Rightarrow> (bool \<times> 'z) option" where
  "destroy_udp_bind_table zone_free zone_lookup s z = do {
     (w, z) \<leftarrow> btable_destroy zone_free s z;
     Some (w, free_named_zone zone_free zone_lookup ''UDPDK_btable'' z) }"

definition destroy_exch_memzone ::
  "(ptr \<Rightarrow> 'z \<Rightarrow> 'z) \<Rightarrow> (string \<Rightarrow> 'z \<Rightarrow> ptr option) \<Rightarrow> 'z \<Rightarrow> 'z" where
  "destroy_exch_memzone zone_free zone_lookup z =
     free_named_zone zone_free zone_lookup ''UDPDK_exchange_desc'' z"

text \<open>
  The end of \<open>udpdk_cleanup\<close>: the allocators that were destroyed with elements in use (bindings,
  lists, nodes, iterators), the zones that are left, and the state of the sockets.
\<close>

definition release_shared ::
  "(ptr \<Rightarrow> 'z \<Rightarrow> 'z) \<Rightarrow> (string \<Rightarrow> 'z \<Rightarrow> ptr option) \<Rightarrow> 'a sstate_scheme \<Rightarrow> 'z \<Rightarrow>
    (bool list \<times> 'z \<times> 'a sstate_scheme) option" where
  "release_shared zone_free zone_lookup s z = do {
     s \<leftarrow> udpdk_close_all_sockets s;
     (w, z) \<leftarrow> destroy_udp_bind_table zone_free zone_lookup s z;
     let z = destroy_exch_memzone zone_free zone_lookup z;
     (ws, z) \<leftarrow> udpdk_list_deinit zone_free s z;
     Some (w # ws, z, s) }"

text \<open>
  What \<open>udpdk_cleanup\<close> asks of the system and of DPDK first. \<open>ports\<close> are the ports that
  \<open>RTE_ETH_FOREACH_DEV\<close> goes through.
\<close>

datatype system_call = Kill int int | Waitpid int | Dev_stop nat | Dev_close nat

definition SIGTERM :: int where "SIGTERM = 15"

definition stop_poller :: "nat list \<Rightarrow> int \<Rightarrow> system_call list" where
  "stop_poller ports pid =
     [Kill pid SIGTERM, Waitpid pid] @ concat (map (\<lambda>port. [Dev_stop port, Dev_close port]) ports)"

text \<open>
  The whole call; \<open>mapped\<close> is whether \<open>exch_zone_desc\<close> is not \<open>NULL\<close>, the sockets cannot be closed
  without it.
\<close>

definition udpdk_cleanup ::
  "(ptr \<Rightarrow> 'z \<Rightarrow> 'z) \<Rightarrow> (string \<Rightarrow> 'z \<Rightarrow> ptr option) \<Rightarrow> nat list \<Rightarrow> int \<Rightarrow> bool \<Rightarrow> 'a sstate_scheme \<Rightarrow> 'z \<Rightarrow>
    (system_call list \<times> bool list \<times> 'z \<times> 'a sstate_scheme) option" where
  "udpdk_cleanup zone_free zone_lookup ports pid mapped s z =
     (let calls = stop_poller ports pid
      in if \<not> mapped then None
         else do {
           (ws, z, s) \<leftarrow> release_shared zone_free zone_lookup s z;
           Some (calls, ws, z, s) })"

subsection \<open>The poller\<close>

text \<open>\<open>lookup\<close> is \<open>udpdk_retrieve_allocator\<close>.\<close>

definition setup_allocators ::
  "(string \<Rightarrow> allocator option) \<Rightarrow> 'a bshm_scheme \<Rightarrow> int \<times> 'a bshm_scheme" where
  "setup_allocators lookup s =
     (let s = s\<lparr>info_alloc := lookup ''bind_info_alloc''\<rparr>
      in if info_alloc s = None then (-1, s)
         else let (r, s) = udpdk_list_reinit lookup s in if r < 0 then (-1, s) else (0, s))"

text \<open>The pools of this core, and its fragment table.\<close>

record ('m, 'f) lcore_queues =
  rx_pool :: "'m option"
  rx_frag_tbl :: "'f option"
  tx_direct_pool :: "'m option"
  tx_indirect_pool :: "'m option"

definition setup_queues ::
  "(string \<Rightarrow> 'm option) \<Rightarrow> 'f option \<Rightarrow> ('m, 'f) lcore_queues \<Rightarrow> int \<times> ('m, 'f) lcore_queues" where
  "setup_queues pool_lookup frag_table_create qconf =
     (let qconf = qconf\<lparr>rx_pool := pool_lookup ''UDPDK_mbuf_pool_RX''\<rparr>
      in if rx_pool qconf = None then (-1, qconf)
         else let qconf = qconf\<lparr>rx_frag_tbl := frag_table_create\<rparr>
         in if rx_frag_tbl qconf = None then (-1, qconf)
         else let qconf = qconf\<lparr>tx_direct_pool := pool_lookup ''UDPDK_mbuf_pool_direct_TX''\<rparr>
         in if tx_direct_pool qconf = None then (-1, qconf)
         else let qconf = qconf\<lparr>tx_indirect_pool := pool_lookup ''UDPDK_mbuf_pool_indir_TX''\<rparr>
         in if tx_indirect_pool qconf = None then (-1, qconf) else (0, qconf))"

definition setup_udp_table ::
  "(string \<Rightarrow> (u16 \<Rightarrow> ptr) option) \<Rightarrow> 'a bshm_scheme \<Rightarrow> int \<times> 'a bshm_scheme" where
  "setup_udp_table table_lookup s = (case table_lookup ''UDPDK_btable'' of
       None \<Rightarrow> (-1, s)
     | Some tbl \<Rightarrow> (0, s\<lparr>sock_bind_table := tbl\<rparr>))"

text \<open>
  The loop of \<open>poller_init\<close> that waits for the channel: \<open>retrieve i\<close> is the outcome of the \<open>i\<close>-th
  \<open>retrieve_ipc_channel\<close>, \<open>alive i\<close> the value of \<open>poller_alive\<close> that is read after it. \<open>Some None\<close>
  is an interrupt; the loop may run for ever.
\<close>

partial_function (option) wait_channel ::
  "(nat \<Rightarrow> bool) \<Rightarrow> (nat \<Rightarrow> int \<times> ('r, 'q) ipc) \<Rightarrow> nat \<Rightarrow> ('r, 'q) ipc option option" where
  "wait_channel alive retrieve i =
     (if fst (retrieve i) < 0
      then if \<not> alive i then Some None else wait_channel alive retrieve (Suc i)
      else Some (Some (snd (retrieve i))))"

record ('r, 'q, 'm, 'f) poller_app = bshm +
  pol_ipc :: "('r, 'q) ipc"
  pol_queues :: "('m, 'f) lcore_queues"
  pol_rings :: "'r exch_rings"

record ('p, 'r, 'q, 'm, 'f, 'x) poller_env =
  pol_eal_init_ok :: bool
  pol_alive :: "nat \<Rightarrow> bool"
  pol_retrieve :: "nat \<Rightarrow> int \<times> ('r, 'q) ipc"
  pol_ipc_calls :: "('p, 'r, 'q) ipc_ops"
  pol_ring_seen :: "nat \<Rightarrow> 'r"
  alloc_lookup :: "string \<Rightarrow> allocator option"
  pool_lookup :: "string \<Rightarrow> 'm option"
  frag_create :: "'f option"
  mz_lookup :: "string \<Rightarrow> 'x option"
  slots_zmalloc_ok :: bool
  exch_ring_lookup :: "string \<Rightarrow> 'r option"
  table_lookup :: "string \<Rightarrow> (u16 \<Rightarrow> ptr) option"

definition poller_init ::
  "('p, 'r, 'q, 'm, 'f, 'x, 'z) poller_env_scheme \<Rightarrow> ('r, 'q, 'm, 'f, 'a) poller_app_scheme \<Rightarrow>
    (int \<times> ('r, 'q, 'm, 'f, 'a) poller_app_scheme) option" where
  "poller_init env s =
     (if \<not> pol_eal_init_ok env then Some (-1, s)
      else do {
        ch \<leftarrow> wait_channel (pol_alive env) (pol_retrieve env) 0;
        case ch of
          None \<Rightarrow> Some (-1, s)
        | Some ch \<Rightarrow> do {
            (_, ch) \<leftarrow> ipc_wait_for_app (pol_ipc_calls env) (pol_ring_seen env) ch;
            let s = s\<lparr>pol_ipc := ch\<rparr>;
            let (retval, s) = setup_allocators (alloc_lookup env) s;
            if retval < 0 then Some (-1, s)
            else do {
              let (retval, q) = setup_queues (pool_lookup env) (frag_create env) (pol_queues s);
              let s = s\<lparr>pol_queues := q\<rparr>;
              if retval < 0 then Some (-1, s)
              else do {
                let (retval, e) = setup_exch_zone (mz_lookup env) (slots_zmalloc_ok env) (exch_ring_lookup env);
                let s = s\<lparr>pol_rings := e\<rparr>;
                if retval < 0 then Some (-1, s)
                else do {
                  let (retval, s) = setup_udp_table (table_lookup env) s;
                  if retval < 0 then Some (-1, s)
                  else do {
                    ch \<leftarrow> ipc_notify_to_app (pol_ipc_calls env) (pol_ipc s);
                    Some (0, s\<lparr>pol_ipc := ch\<rparr>) } } } } } })"

end
