(* ===== verification/Init_Props.thy ===== *)
theory Init_Props
  imports Init
begin

text \<open>
  Names of rings are different, the two processes see the same rings, and closing all sockets
  empties the table and the pools.
\<close>

subsection \<open>Names\<close>

lemma ring_name_inj:
  assumes "get_exch_ring_name i f = get_exch_ring_name j g"
  shows "i = j \<and> f = g"
proof -
  have short: "length (show_nat (unat k)) \<le> 10" for k :: u32
    using length_show [of "unat k" 9] unat_bound [of k] by simp
  let ?suf = "\<lambda>f. case f of EXCH_RING_RX \<Rightarrow> ''_RX'' | EXCH_RING_TX \<Rightarrow> ''_TX''"
  have l: "length (?suf f) = 3" for f by (cases f) simp_all
  have n: "get_exch_ring_name k f = ''UDPDK_exchange_ring_'' @ show_nat (unat k) @ ?suf f" for k f
    using short [of k] l [of f] by (simp add: get_exch_ring_name_def)
  have "show_nat (unat i) @ ?suf f = show_nat (unat j) @ ?suf g"
    using assms unfolding n by simp
  then have "show_nat (unat i) = show_nat (unat j) \<and> ?suf f = ?suf g"
    using l append_eq_append_conv [of "show_nat (unat i)" "show_nat (unat j)" "?suf f" "?suf g"] by simp
  then have s: "show_nat (unat i) = show_nat (unat j)" "?suf f = ?suf g" by simp_all
  have "unat i = unat j" using s(1) read_show by metis
  moreover have "f = g" using s(2) by (cases f; cases g) simp_all
  ultimately show ?thesis by (simp add: word_unat_eq_iff)
qed

subsection \<open>Rings\<close>

lemma create_rings_ok:
  "create_rings ring n i e = (0, e') \<Longrightarrow>
    \<forall>j. if i \<le> j \<and> j < i + n
      then rx_ring e' j = ring (get_exch_ring_name (of_nat j) EXCH_RING_RX) \<and> rx_ring e' j \<noteq> None \<and>
        tx_ring e' j = ring (get_exch_ring_name (of_nat j) EXCH_RING_TX) \<and> tx_ring e' j \<noteq> None
      else rx_ring e' j = rx_ring e j \<and> tx_ring e' j = tx_ring e j"
proof (induction n arbitrary: i e)
  case (Suc n)
  let ?e = "e\<lparr>rx_ring := (rx_ring e)(i := ring (get_exch_ring_name (of_nat i) EXCH_RING_RX)),
      tx_ring := (tx_ring e)(i := ring (get_exch_ring_name (of_nat i) EXCH_RING_TX))\<rparr>"
  have r: "create_rings ring n (Suc i) ?e = (0, e')" "rx_ring ?e i \<noteq> None" "tx_ring ?e i \<noteq> None"
    using Suc.prems unfolding create_rings.simps Let_def by (simp_all split: if_splits)
  note IH = Suc.IH [OF r(1)]
  show ?case
  proof
    fix j
    show "if i \<le> j \<and> j < i + Suc n
      then rx_ring e' j = ring (get_exch_ring_name (of_nat j) EXCH_RING_RX) \<and> rx_ring e' j \<noteq> None \<and>
        tx_ring e' j = ring (get_exch_ring_name (of_nat j) EXCH_RING_TX) \<and> tx_ring e' j \<noteq> None
      else rx_ring e' j = rx_ring e j \<and> tx_ring e' j = tx_ring e j"
    proof (cases "j = i")
      case True
      then show ?thesis using IH [rule_format, of j] r(2,3) by simp
    next
      case False
      then have range: "i \<le> j \<and> j < i + Suc n \<longleftrightarrow> Suc i \<le> j \<and> j < Suc i + n" by auto
      have same: "rx_ring ?e j = rx_ring e j" "tx_ring ?e j = tx_ring e j" using False by simp_all
      show ?thesis unfolding range using IH [rule_format, of j] unfolding same .
    qed
  qed
qed auto

lemma create_rings_all:
  assumes "create_rings ring NUM_SOCKETS_MAX 0 e = (0, e')" "j < NUM_SOCKETS_MAX"
  shows "rx_ring e' j = ring (get_exch_ring_name (of_nat j) EXCH_RING_RX)" "rx_ring e' j \<noteq> None"
    and "tx_ring e' j = ring (get_exch_ring_name (of_nat j) EXCH_RING_TX)" "tx_ring e' j \<noteq> None"
proof -
  have "0 \<le> j \<and> j < 0 + NUM_SOCKETS_MAX" using assms(2) by simp
  note C = create_rings_ok [OF assms(1), THEN spec, of j, unfolded if_P [OF this]]
  show "rx_ring e' j = ring (get_exch_ring_name (of_nat j) EXCH_RING_RX)" "rx_ring e' j \<noteq> None"
      "tx_ring e' j = ring (get_exch_ring_name (of_nat j) EXCH_RING_TX)" "tx_ring e' j \<noteq> None"
    using C by blast+
qed

lemma init_slots_code:
  assumes "init_exchange_slots ok mk = (r, e)" "\<not> r < 0"
  shows "r = 0"
proof -
  have "fst (create_rings ring n i e) = 0 \<or> fst (create_rings ring n i e) = -1" for ring n i and e :: "'r exch_rings"
    by (induction n arbitrary: i e) (simp_all add: Let_def)
  from this [of "\<lambda>name. mk name EXCH_RING_SIZE" NUM_SOCKETS_MAX 0 no_rings] show ?thesis
    using assms by (auto simp: init_exchange_slots_def split: if_splits)
qed

lemma lookup_rings_ok:
  assumes "\<And>j. i \<le> j \<Longrightarrow> j < i + n \<Longrightarrow> ring (get_exch_ring_name (of_nat j) EXCH_RING_RX) \<noteq> None \<and>
      ring (get_exch_ring_name (of_nat j) EXCH_RING_TX) \<noteq> None"
  shows "lookup_rings ring n i e = create_rings ring n i e \<and> fst (create_rings ring n i e) = 0"
  using assms
proof (induction n arbitrary: i e)
  case (Suc n)
  from Suc.prems [of i] obtain r t where
    "ring (get_exch_ring_name (of_nat i) EXCH_RING_RX) = Some r"
    "ring (get_exch_ring_name (of_nat i) EXCH_RING_TX) = Some t" by auto
  then show ?case
    using Suc.IH [of "Suc i"] Suc.prems by (simp add: Let_def same_ring_name)
qed simp

subsection \<open>Closing all sockets\<close>

lemma close_sockets_done:
  assumes "sock_inv s" "i + n = NUM_SOCKETS_MAX"
  shows "\<exists>s'. close_sockets n i s = Some s' \<and> sock_inv s' \<and>
    (\<forall>k. slots s' k = (if i \<le> k \<and> k < NUM_SOCKETS_MAX \<and> bound (slots s k) \<noteq> 0
      then closed_slot (slots s k) else slots s k))"
  using assms
proof (induction n arbitrary: i s)
  case 0
  then show ?case by auto
next
  case (Suc n)
  have i: "i < NUM_SOCKETS_MAX" "Suc i + n = NUM_SOCKETS_MAX" using Suc.prems(2) by simp_all
  show ?case
  proof (cases "bound (slots s i) = 0")
    case True
    have "(i \<le> k \<and> k < NUM_SOCKETS_MAX \<and> bound (slots s k) \<noteq> 0) =
        (Suc i \<le> k \<and> k < NUM_SOCKETS_MAX \<and> bound (slots s k) \<noteq> 0)" for k
      using True by (cases "k = i") auto
    then show ?thesis using Suc.IH [OF Suc.prems(1) i(2)] True by simp
  next
    case False
    have u: "unat (of_nat i :: u32) = i" using i(1) by (simp add: NUM_SOCKETS_MAX_def unat_of_nat)
    have "used (slots s i) \<noteq> 0" using sock_invD(3) [OF Suc.prems(1) i(1)] False by (simp add: slot_ok_def)
    then obtain s1 where s1: "udpdk_close (of_nat i) s = Some (0, s1)" "sock_inv s1"
        "slots s1 = (slots s)(i := closed_slot (slots s i))"
      using udpdk_close_done [OF Suc.prems(1), of "of_nat i"] i(1) u by auto
    obtain s' where s': "close_sockets n (Suc i) s1 = Some s'" "sock_inv s'"
        "\<forall>k. slots s' k = (if Suc i \<le> k \<and> k < NUM_SOCKETS_MAX \<and> bound (slots s1 k) \<noteq> 0
          then closed_slot (slots s1 k) else slots s1 k)"
      using Suc.IH [OF s1(2) i(2)] by blast
    have "slots s' k = (if i \<le> k \<and> k < NUM_SOCKETS_MAX \<and> bound (slots s k) \<noteq> 0
        then closed_slot (slots s k) else slots s k)" for k
      using s'(3) s1(3) i(1) False by (cases "k = i") auto
    then show ?thesis using False s1(1) s'(1,2) by simp
  qed
qed

text \<open>When no socket is bound the table is empty, and so are the pools.\<close>

lemma unbound_empty:
  assumes inv: "sock_inv s" and ub: "\<And>k. k < NUM_SOCKETS_MAX \<Longrightarrow> bound (slots s k) = 0"
  shows "bindings s = (\<lambda>_. [])"
proof
  fix p
  have "owner_of (slots s) fd = None" for fd using ub by (simp add: owner_of_def)
  then have "set (bindings s p) = {}"
    using owners_okD(2) [OF sock_invD(2) [OF inv]] by (metis equals0I option.distinct(1))
  then show "bindings s p = []" by simp
qed

lemma empty_pools:
  assumes inv: "table_inv s" and e: "bindings s = (\<lambda>_. [])" and a: "alloc_of s K = Some a"
  shows "n_free a = al_size a"
proof -
  have ai: "alloc_inv a" using table_inv_alloc [OF inv, of K] a by simp
  have c: "card (footprint_of s K) \<le> n_bound (bindings s)"
    by (rule footprint_card [OF inv])
  have "card (live a) = 0" using c a by (simp add: e n_bound_def footprint_of_def)
  then have "card (used_idx a) = 0" using card_live [of a] ai by (simp add: alloc_inv_def)
  then have "unat (n_free a) = unat (al_size a)"
    using card_used_free [of a] ai by (simp add: alloc_inv_def)
  then show ?thesis by (simp only: word_unat_eq_iff)
qed

text \<open>With an empty table the allocators are destroyed with nothing in use.\<close>

lemma release_empty:
  assumes c: "udpdk_close_all_sockets s = Some s'" and inv: "table_inv s'" and e: "bindings s' = (\<lambda>_. [])"
  shows "\<exists>z'. release_shared zone_free zone_lookup s z = Some ([False, False, False, False], z', s')"
proof -
  have A: "\<exists>a. alloc_of s' K = Some a \<and> n_free a = al_size a" for K
    using table_inv_alloc [OF inv, of K] empty_pools [OF inv e] by blast
  from A [of ListObj] A [of NodeObj] A [of IterObj] A [of InfoObj] show ?thesis
    by (auto simp: release_shared_def c destroy_udp_bind_table_def btable_destroy_def
        udpdk_list_deinit_def udpdk_destroy_allocator_def)
qed

subsection \<open>The state that an initialisation leaves\<close>

lemma bootedI:
  assumes "zones_ok reserve" "sock_bind_table s = (\<lambda>_. NULL)"
    and "\<And>K. udpdk_init_allocator reserve (pool_name K) (of_nat (pool_size K)) (of_nat (sizeof K)) = Some (alloc_of s K)"
  shows "booted reserve s"
  unfolding booted_def using assms(2) init_pool [OF assms(1)] assms(3) by (metis option.inject)

lemma init_established:
  assumes "udpdk_init_app ops s = Some (0, s')" "zones_ok (zone_reserve ops)"
  shows "booted (zone_reserve ops) s' \<and> slots s' = (\<lambda>_. zero_slot) \<and> n_zones_active s' = 0 \<and> zone_mapped s' \<and>
    (\<forall>i < NUM_SOCKETS_MAX. rx_ring (app_rings s') i \<noteq> None \<and> tx_ring (app_rings s') i \<noteq> None)"
proof -
  let ?A = "\<lambda>K. udpdk_init_allocator (zone_reserve ops) (pool_name K) (of_nat (pool_size K)) (of_nat (sizeof K))"
  obtain al where al: "?A K = Some (Some (al K))" for K using init_pool [OF assms(2)] by metis
  have r: "init_exchange_slots (slots_malloc_ok ops) (ring_create ops) = (0, app_rings s')"
      and f: "slots s' = (\<lambda>_. zero_slot)" "n_zones_active s' = 0" "zone_mapped s'" "sock_bind_table s' = (\<lambda>_. NULL)"
        "list_alloc s' = Some (al ListObj)" "node_alloc s' = Some (al NodeObj)"
        "iter_alloc s' = Some (al IterObj)" "info_alloc s' = Some (al InfoObj)"
    using assms(1) al [of ListObj] al [of NodeObj] al [of IterObj] al [of InfoObj]
    by (auto simp: udpdk_init_app_def udpdk_list_init_def init_udp_bind_table_def init_exch_memzone_def
        btable_init_def Let_def dest: init_slots_code
        split: if_splits prod.splits option.splits Option.bind_splits)
  have "alloc_of s' K = Some (al K)" for K by (cases K) (simp_all add: f)
  then have "booted (zone_reserve ops) s'" using bootedI [OF assms(2) f(4)] al by simp
  moreover have "create_rings (\<lambda>name. ring_create ops name EXCH_RING_SIZE) NUM_SOCKETS_MAX 0 no_rings = (0, app_rings s')"
    using r by (auto simp: init_exchange_slots_def split: if_splits)
  ultimately show ?thesis using f(1-3) create_rings_all(2,4) by blast
qed

end
