(* ===== verification/Properties_Init.thy ===== *)
theory Properties_Init
  imports Properties_Ipc Properties_Poller Init_Props
begin

text \<open>
  Properties of initialisation and cleanup, each with an instance.
\<close>

subsection \<open>Cleanup\<close>

text \<open>
  C19: Once the exchange zone exists, \<open>udpdk_cleanup\<close> always returns. It signals and awaits the
  poller and stops and closes every port, closes every bound socket and no other one, leaves no
  binding on any port, and destroys the four allocators with no element in use: nothing of the
  shared pools leaks. (Open sockets that were never bound stay open.)
\<close>

theorem udpdk_cleanup_releases:
  assumes "sock_inv s"
  shows "\<exists>z' s'. udpdk_cleanup zone_free zone_lookup ports pid True s z =
      Some ([Kill pid SIGTERM, Waitpid pid] @ concat (map (\<lambda>port. [Dev_stop port, Dev_close port]) ports),
        [False, False, False, False], z', s') \<and>
    sock_inv s' \<and> bindings s' = (\<lambda>_. []) \<and>
    (\<forall>k < NUM_SOCKETS_MAX. slots s' k =
      (if bound (slots s k) \<noteq> 0 then closed_slot (slots s k) else slots s k))"
proof -
  obtain s' where s': "udpdk_close_all_sockets s = Some s'" "sock_inv s'"
      "\<forall>k. slots s' k = (if 0 \<le> k \<and> k < NUM_SOCKETS_MAX \<and> bound (slots s k) \<noteq> 0
        then closed_slot (slots s k) else slots s k)"
    unfolding udpdk_close_all_sockets_def
    using close_sockets_done [OF assms add_0] by blast
  have e: "bindings s' = (\<lambda>_. [])"
    by (rule unbound_empty [OF s'(2)]) (simp add: s'(3) closed_slot_def)
  have "table_inv s'" using sock_invD(1) [OF s'(2)] by (simp add: table_ok_def)
  from release_empty [OF s'(1) this e, of zone_free zone_lookup z]
  show ?thesis using s'(2,3) e by (auto simp: udpdk_cleanup_def stop_poller_def Let_def)
qed

lemma udpdk_cleanup_releases_witness:
  "\<exists>z' s'. udpdk_cleanup (\<lambda>mz zs. remove1 mz zs) (\<lambda>_ _. None) [0] 77 True demo_sock [65536, 5] =
      Some ([Kill 77 SIGTERM, Waitpid 77, Dev_stop 0, Dev_close 0], [False, False, False, False], z', s') \<and> bindings s' = (\<lambda>_. []) \<and> used (slots s' 0) = 1"
proof -
  have "0 < NUM_SOCKETS_MAX" by (simp add: NUM_SOCKETS_MAX_def)
  then show ?thesis
    using udpdk_cleanup_releases [OF demo_sock_inv, of "\<lambda>mz zs. remove1 mz zs" "\<lambda>_ _. None" "[0]" 77 "[65536, 5]"]
    by (force simp: closed_def)
qed

subsection \<open>Rings\<close>

text \<open>
  C35: The poller finds the rings that the application created: when \<open>init_exchange_slots\<close>
  succeeds and the lookup knows every ring that was created, \<open>setup_exch_zone\<close> succeeds with the
  same two rings for each slot, and no two of the 2048 rings have the same name.
\<close>

theorem rings_shared:
  assumes "init_exchange_slots True create = (0, e)"
    and "\<And>name r. create name EXCH_RING_SIZE = Some r \<Longrightarrow> fetch name = Some r"
    and "zone_lookup ''UDPDK_exchange_desc'' \<noteq> None"
  shows "\<exists>e'. setup_exch_zone zone_lookup True fetch = (0, e') \<and>
    (\<forall>i < NUM_SOCKETS_MAX. rx_ring e' i = rx_ring e i \<and> tx_ring e' i = tx_ring e i \<and>
      rx_ring e i \<noteq> None \<and> tx_ring e i \<noteq> None) \<and>
    (\<forall>i j f g. get_exch_ring_name i f = get_exch_ring_name j g \<longrightarrow> i = j \<and> f = g)"
proof -
  let ?c = "\<lambda>name. create name EXCH_RING_SIZE"
  have c: "create_rings ?c NUM_SOCKETS_MAX 0 no_rings = (0, e)"
    using assms(1) by (simp add: init_exchange_slots_def)
  have look: "fetch (get_exch_ring_name (of_nat j) EXCH_RING_RX) = rx_ring e j \<and>
      fetch (get_exch_ring_name (of_nat j) EXCH_RING_TX) = tx_ring e j \<and>
      rx_ring e j \<noteq> None \<and> tx_ring e j \<noteq> None"
    if "j < NUM_SOCKETS_MAX" for j
  proof -
    note C = create_rings_all [OF c that]
    obtain r t where "rx_ring e j = Some r" "tx_ring e j = Some t" using C(2,4) by blast
    then show ?thesis using C(1,3) assms(2) by simp
  qed
  have L: "lookup_rings fetch NUM_SOCKETS_MAX 0 no_rings = create_rings fetch NUM_SOCKETS_MAX 0 no_rings \<and>
      fst (create_rings fetch NUM_SOCKETS_MAX 0 no_rings) = 0"
    by (rule lookup_rings_ok) (use look in auto)
  obtain e' where e': "create_rings fetch NUM_SOCKETS_MAX 0 no_rings = (0, e')"
    using L by (metis prod.collapse)
  have "rx_ring e' i = rx_ring e i \<and> tx_ring e' i = tx_ring e i \<and> rx_ring e i \<noteq> None \<and> tx_ring e i \<noteq> None"
    if "i < NUM_SOCKETS_MAX" for i
    using create_rings_all(1,3) [OF e' that] look [OF that] by simp
  moreover have "setup_exch_zone zone_lookup True fetch = (0, e')"
    using assms(3) L e' by (simp add: setup_exch_zone_def)
  ultimately show ?thesis using ring_name_inj by blast
qed

lemma demo_create: "fst (create_rings (\<lambda>name. Some (mk name)) n i e) = 0"
  by (induction n arbitrary: i e) (simp_all add: Let_def)

lemma rings_shared_witness:
  "\<exists>e'. setup_exch_zone (\<lambda>_. Some ()) True (\<lambda>name. Some name) = (0, e') \<and> rx_ring e' 7 \<noteq> None"
proof -
  obtain e where e: "init_exchange_slots True (\<lambda>name _. Some name) = (0, e)"
    using demo_create [of "\<lambda>name. name" NUM_SOCKETS_MAX 0 no_rings] by (simp add: init_exchange_slots_def) (metis prod.collapse)
  have "7 < NUM_SOCKETS_MAX" by (simp add: NUM_SOCKETS_MAX_def)
  with rings_shared [OF e, of "\<lambda>name. Some name" "\<lambda>_. Some ()"] show ?thesis by fastforce
qed

subsection \<open>Initialisation\<close>

text \<open>
  C20: When \<open>udpdk_init\<close> returns 0 in the application, all slots are closed, no socket is counted,
  no port has a binding, the four allocators are as \<open>udpdk_init_allocator\<close> makes them, and every
  slot has its two rings.
\<close>

theorem udpdk_init_establishes:
  assumes "udpdk_init_app ops s = Some (0, s')" "zones_ok (zone_reserve ops)"
  shows "booted (zone_reserve ops) s' \<and> slots s' = (\<lambda>_. zero_slot) \<and> n_zones_active s' = 0 \<and> zone_mapped s' \<and>
    (\<forall>i < NUM_SOCKETS_MAX. rx_ring (app_rings s') i \<noteq> None \<and> tx_ring (app_rings s') i \<noteq> None)"
  by (rule init_established [OF assms])

text \<open>An environment in which everything succeeds; \<open>mk\<close> makes the ring of a name.\<close>

definition demo_app :: "(string \<Rightarrow> 'r) \<Rightarrow> (nat, 'r, nat, nat, unit) app_ops" where
  "demo_app mk =
     \<lparr>eal_init_ok = True, zone_reserve = demo_reserve, ring_create = (\<lambda>name _. Some (mk name)),
      msg_pool_create = (\<lambda>_ n _. Some n), mbuf_pool_create = (\<lambda>_ _ n. (True, n + 1)), slots_malloc_ok = True,
      eth_calls = \<lparr>dev_is_valid_port = (\<lambda>_. True), dev_info_get = (\<lambda>_. (0, 1500)),
        dev_configure = (\<lambda>_ d. (0, d)), dev_adjust_nb_rx_tx_desc = (\<lambda>n d. (0, n, d)),
        rx_queue_setup = (\<lambda>_ d. (0, d)), tx_queue_setup = (\<lambda>_ d. (0, d)),
        promiscuous_enable = (\<lambda>d. (0, d)), dev_start = (\<lambda>d. (0, d))\<rparr>,
      ipc_calls = \<lparr>ipc_enqueue = (\<lambda>_ _. None), ipc_dequeue = (\<lambda>r. Some (0, r)),
        mempool_get = (\<lambda>k. Some (k, k)), mempool_put = (\<lambda>_ k. k)\<rparr>,
      ring_seen = (\<lambda>_. mk [])\<rparr>"

definition fresh_app :: "('r, nat, nat, unit) app" where
  "fresh_app =
     \<lparr>mem = (\<lambda>_. 0), list_alloc = None, node_alloc = None, iter_alloc = None, info_alloc = None,
      sock_bind_table = (\<lambda>_. 1), n_zones_active = 7, slots = (\<lambda>_. closed\<lparr>used := 1\<rparr>), errno = None,
      app_rings = no_rings, app_ipc = \<lparr>ipc_app_to_pol = None, ipc_pol_to_app = None, ipc_msg_pool = None\<rparr>,
      app_pools = 0, app_dev = (), zone_mapped = False\<rparr>"

lemma demo_init_runs: "\<exists>s'. udpdk_init_app (demo_app mk) fresh_app = Some (0, s')"
proof -
  obtain al where al: "udpdk_init_allocator demo_reserve (pool_name K) (of_nat (pool_size K)) (of_nat (sizeof K)) =
      Some (Some (al K))" for K using init_pool [OF demo_reserve_ok] by metis
  obtain e where e: "init_exchange_slots True (\<lambda>name _. Some (mk name)) = (0, e)"
    using demo_create [of mk NUM_SOCKETS_MAX 0 no_rings] by (simp add: init_exchange_slots_def) (metis prod.collapse)
  have z: "demo_reserve n l \<noteq> None" for n l by (simp add: demo_reserve_def)
  have w: "ipc_wait_loop (ipc_calls (demo_app mk)) (\<lambda>_. mk []) 0 = Some (0, mk [])"
    by (rule ipc_wait_got) (simp add: demo_app_def)
  show ?thesis
    using al [of ListObj] al [of NodeObj] al [of IterObj] al [of InfoObj] e z w
    by (auto simp: udpdk_init_app_def udpdk_list_init_def init_udp_bind_table_def init_exch_memzone_def
        btable_init_def init_mbuf_pools_def init_port_def init_ipc_channel_def ipc_notify_to_poller_def
        ipc_wait_for_poller_def demo_app_def fresh_app_def Let_def split: option.split)
qed

lemma demo_app_zones: "zones_ok (zone_reserve (demo_app mk))"
  using demo_reserve_ok by (simp add: demo_app_def)

lemma udpdk_init_establishes_witness:
  "\<exists>s'. udpdk_init_app (demo_app id) fresh_app = Some (0, s') \<and> slots s' = (\<lambda>_. zero_slot) \<and>
    sock_bind_table s' = (\<lambda>_. NULL)"
proof -
  obtain s' where s': "udpdk_init_app (demo_app id) fresh_app = Some (0, s')"
    using demo_init_runs [of id] by blast
  from udpdk_init_establishes [OF s' demo_app_zones] s' show ?thesis by (auto simp: booted_def)
qed

end
