(* ===== verification/System.thy ===== *)
theory System
  imports Poller_Tx Socket_Runs
begin

text \<open>
  The application and the poller together: a round of the poller keeps the table, the slots and
  the exchange buffers in order, so do the calls that send and receive, and with the socket calls
  they make up the steps of the whole system.
\<close>

subsection \<open>The invariant of the system\<close>

definition sys_inv :: "('r, 'm, 'f, 'n, 'a) pstate_scheme \<Rightarrow> bool" where
  "sys_inv s \<longleftrightarrow> sock_inv s \<and> (\<forall>k. exch_ok (exch_slots s k))"

text \<open>
  What every part of a round of the poller does: it keeps the table, the bindings, the slots and
  the bounds of the exchange buffers. It does not need that the slots agree with the table.
\<close>

definition pol_inv :: "('r, 'm, 'f, 'n, 'a) pstate_scheme \<Rightarrow> bool" where
  "pol_inv s \<longleftrightarrow> table_ok s \<and> (\<forall>k. exch_ok (exch_slots s k))"

definition keeps :: "('r, 'm, 'f, 'n, 'a) pstate_scheme \<Rightarrow> ('r, 'm, 'f, 'n, 'a) pstate_scheme \<Rightarrow> bool" where
  "keeps s s' \<longleftrightarrow> (pol_inv s \<longrightarrow> pol_inv s' \<and> bindings s' = bindings s \<and> slots s' = slots s)"

lemma keeps_refl [simp, intro]: "keeps s s"
  by (simp add: keeps_def)

lemma keeps_trans [trans]: "keeps s t \<Longrightarrow> keeps t u \<Longrightarrow> keeps s u"
  by (simp add: keeps_def)

lemma keeps_polD: "keeps s s' \<Longrightarrow> pol_inv s \<Longrightarrow> pol_inv s' \<and> bindings s' = bindings s \<and> slots s' = slots s"
  by (simp add: keeps_def)

lemma sys_inv_pol: "sys_inv s \<Longrightarrow> pol_inv s"
  by (simp add: sys_inv_def pol_inv_def sock_inv_def)

lemma keepsD:
  assumes "keeps s s'" "sys_inv s"
  shows "sys_inv s' \<and> bindings s' = bindings s \<and> slots s' = slots s"
  using keeps_polD [OF assms(1) sys_inv_pol [OF assms(2)]] assms(2)
  by (simp add: sys_inv_def pol_inv_def sock_inv_def)

lemma keepsI_table:
  assumes "table_ok s \<Longrightarrow> table_ok s' \<and> bindings s' = bindings s" "slots s' = slots s"
    and "(\<forall>k. exch_ok (exch_slots s k)) \<longrightarrow> (\<forall>k. exch_ok (exch_slots s' k))"
  shows "keeps s s'"
  unfolding keeps_def pol_inv_def using assms by auto

text \<open>A change of the rings, the pool of buffers, the fragment table or the card is not seen by the invariant.\<close>

lemma keeps_outside:
  assumes "mem s' = mem s" "\<And>K. alloc_of s' K = alloc_of s K" "sock_bind_table s' = sock_bind_table s"
    and "slots s' = slots s" "(\<forall>k. exch_ok (exch_slots s k)) \<longrightarrow> (\<forall>k. exch_ok (exch_slots s' k))"
  shows "keeps s s'"
  using table_cong [OF assms(1,2,3)] assms(4,5) by (intro keepsI_table) auto

lemma alloc_of_rest [simp]:
  "alloc_of (s\<lparr>tx_q := q\<rparr>) K = alloc_of s K" "alloc_of (s\<lparr>mbuf_pool := p\<rparr>) K = alloc_of s K"
  "alloc_of (t\<lparr>exch_slots := e\<rparr>) K = alloc_of (t :: ('r, 'm, 'f, 'n, 'a) pstate_scheme) K"
  "alloc_of (t\<lparr>frag_tbl := f\<rparr>) K = alloc_of (t :: ('r, 'm, 'f, 'n, 'a) pstate_scheme) K"
  "alloc_of (t\<lparr>nic := n\<rparr>) K = alloc_of (t :: ('r, 'm, 'f, 'n, 'a) pstate_scheme) K"
  by (cases K; simp)+

lemma keeps_upd [simp]:
  "keeps s (s\<lparr>tx_q := q\<rparr>)" "keeps s (s\<lparr>mbuf_pool := p\<rparr>)" "keeps s (s\<lparr>frag_tbl := f\<rparr>)" "keeps s (s\<lparr>nic := n\<rparr>)"
  by (rule keeps_outside; simp)+

lemma keeps_exch: "(\<And>k. exch_ok (exch_slots s k) \<Longrightarrow> exch_ok (e k)) \<Longrightarrow> keeps s (s\<lparr>exch_slots := e\<rparr>)"
  by (rule keeps_outside) auto

lemma keeps_mbuf_free [simp]: "keeps s (mbuf_free ops m s)"
  by (simp add: mbuf_free_eq)

lemma keeps_fold_free: "keeps s (fold (\<lambda>p. mbuf_free ops (Some p)) ps s)"
  by (induction ps arbitrary: s) (auto intro: keeps_trans [OF keeps_mbuf_free])

subsection \<open>Transmission\<close>

lemma flush_tx_keeps: "keeps s (flush_tx_table ops tbl s)"
  unfolding flush_tx_table_def
  by (auto split: prod.split intro: keeps_trans [OF keeps_upd(4) keeps_fold_free])

lemma tx_slot_loop_keeps:
  fixes ops :: "('r, 'm, 'f, 'n, 'z) poller_ops_scheme" and s :: "('r, 'm, 'f, 'n, 'a) pstate_scheme"
  shows "tx_slot_loop ops i tbl s = Some (tbl', s') \<Longrightarrow> keeps s s'"
proof -
  have "case y of (tbl', s') \<Rightarrow> keeps s s'" if "tx_slot_loop ops i tbl s = Some y" for y
    using that
  proof (rule tx_slot_loop.raw_induct [rotated])
    fix f :: "('r, 'm, 'f, 'n, 'z) poller_ops_scheme \<Rightarrow> nat \<Rightarrow> packet list \<Rightarrow> ('r, 'm, 'f, 'n, 'a) pstate_scheme \<Rightarrow>
      (packet list \<times> ('r, 'm, 'f, 'n, 'a) pstate_scheme) option"
    fix ops i tbl s y
    assume IH: "\<And>ops i tbl s y. f ops i tbl s = Some y \<Longrightarrow> case y of (tbl', s') \<Rightarrow> keeps s s'"
      and step: "(if BURST_SIZE \<le> length tbl then Some (tbl, s)
      else case ring_dequeue ops (tx_q s i) of
        None \<Rightarrow> Some (tbl, s)
      | Some (pkt, q) \<Rightarrow>
          (let s = s\<lparr>tx_q := (tx_q s)(i := q)\<rparr>
           in case pkt of
                [] \<Rightarrow> None
              | sg # segs \<Rightarrow>
                  if pkt_len sg \<le> IPV4_MTU_DEFAULT then f ops i (tbl @ [pkt]) s
                  else if length (data sg) < ETHER_HDR_LEN then None
                  else let old_eth_hdr = take ETHER_HDR_LEN (data sg);
                           pkt = pktmbuf_adj pkt;
                           (frags, pool) = ipv4_fragment ops pkt (TX_MBUF_TABLE_SIZE - length tbl) (mbuf_pool s);
                           s = s\<lparr>mbuf_pool := pktmbuf_free ops pkt pool\<rparr>
                       in case frags of
                            None \<Rightarrow> Some (tbl, s)
                          | Some fs \<Rightarrow>
                              (let (fs, ok) = attach_headers ops old_eth_hdr fs
                               in if ok then f ops i (tbl @ fs) s
                                  else f ops i tbl (fold (\<lambda>p. mbuf_free ops (Some p)) fs s)))) = Some y"
    have IH': "keeps t (snd z)" if "f ops i tb t = Some z" for tb t z
      using IH [OF that] by (simp add: case_prod_unfold)
    have K: "keeps s (s\<lparr>tx_q := q, mbuf_pool := p\<rparr>)" for q p
      by (rule keeps_outside) simp_all
    show "case y of (tbl', s') \<Rightarrow> keeps s s'"
      using step
      by (auto simp: Let_def case_prod_unfold split: if_splits option.splits prod.splits list.splits
          dest!: IH' intro: K keeps_upd keeps_trans [OF K] keeps_trans [OF keeps_upd(1)]
            keeps_trans [OF keeps_trans [OF K keeps_fold_free]])
  qed
  then show "tx_slot_loop ops i tbl s = Some (tbl', s') \<Longrightarrow> keeps s s'" by fastforce
qed

lemma tx_slots_keeps: "tx_slots ops n i tbl s = Some (tbl', s') \<Longrightarrow> keeps s s'"
proof (induction n arbitrary: i tbl s)
  case (Suc n)
  then show ?case
    by (auto split: if_splits Option.bind_splits dest!: tx_slot_loop_keeps Suc.IH
        intro: keeps_trans keeps_trans [OF keeps_trans [OF _ flush_tx_keeps]])
qed simp

lemma tx_round_keeps: "tx_round ops s = Some s' \<Longrightarrow> keeps s s'"
  unfolding tx_round_def
  by (auto split: Option.bind_splits if_splits dest!: tx_slots_keeps intro: keeps_trans [OF _ flush_tx_keeps])

subsection \<open>Reception\<close>

lemma put_packet_keeps:
  assumes "put_packet i m e = Some e'" "\<And>k. exch_ok (e k)"
  shows "exch_ok (e' k)"
proof -
  have "length (buffered (e (unat i))) < EXCH_BUF_SIZE"
    using assms(1) length_buffered [OF assms(2) [of "unat i"]] by (simp add: put_packet_def split: if_splits)
  from put_packet_ok [where e = e and i = i and m = m, OF assms(2) this] assms show ?thesis by auto
qed

lemma deliver_net_keeps:
  "deliver_net ops ip bs m dl e pool = Some (m', dl', e', pool') \<Longrightarrow> \<forall>k. exch_ok (e k) \<Longrightarrow> \<forall>k. exch_ok (e' k)"
proof (induction bs arbitrary: m dl e pool)
  case (Cons b bs)
  note IH = Cons.IH
  show ?case
  proof (cases "matches ip b")
    case True
    with Cons.prems obtain e1 where e1: "put_packet (ucast (bi_sockfd b)) m e = Some e1"
      by (auto split: Option.bind_splits)
    have "\<forall>k. exch_ok (e1 k)" using put_packet_keeps [OF e1] Cons.prems(2) by blast
    then show ?thesis
      using Cons.prems(1) True e1
      by (auto split: if_splits Option.bind_splits simp: case_prod_unfold Let_def dest!: IH)
  qed (use Cons in simp)
qed simp

text \<open>A packet for a port without bindings changes nothing: the table has no list for the port.\<close>

lemma no_list: "table_ok s \<Longrightarrow> bindings s port = [] \<Longrightarrow> sock_bind_table s port = NULL"
  using table_rel_nonempty [OF table_inv_rel, of s port]
  by (auto simp: table_ok_def bindings_eq [OF table_inv_rel])

lemma dispatch_unbound:
  assumes "table_ok s" "bindings s port = []"
    and "load8 (data sg) 23 = Some 17" "load16 (data sg) 36 = Some port" "load32 (data sg) 30 = Some ip"
  shows "dispatch ops (sg # segs) s = Some s"
  using assms(3-5) no_list [OF assms(1,2)]
  by (simp add: dispatch_simps hdr_lens IPPROTO_UDP_def btable_get_bindings_def)

lemma dispatch_keeps:
  assumes "dispatch ops m s = Some s'"
  shows "keeps s s'"
proof (cases "pol_inv s")
  case True
  then have ok: "table_ok s" by (simp add: pol_inv_def)
  obtain sg segs where m: "m = sg # segs" using assms by (auto simp: dispatch_simps split: list.splits)
  obtain p where p: "load8 (data sg) 23 = Some p"
    using assms by (auto simp: m dispatch_simps hdr_lens split: Option.bind_splits)
  show ?thesis
  proof (cases "ucast p = IPPROTO_UDP")
    case False
    then show ?thesis using assms p by (simp add: m dispatch_simps hdr_lens)
  next
    case True
    have "ucast (ucast p :: u32) = (17 :: u8)" unfolding True by (simp add: IPPROTO_UDP_def)
    then have p17: "p = 17" by (simp add: ucast_down_ucast_id is_down)
    then obtain port ip where h: "load16 (data sg) 36 = Some port" "load32 (data sg) 30 = Some ip"
      using assms True p by (auto simp: m dispatch_simps hdr_lens split: Option.bind_splits)
    show ?thesis
    proof (cases "bindings s port = []")
      case True
      then show ?thesis using dispatch_unbound [OF ok _ _ h, of ops segs] p p17 assms m by simp
    next
      case False
      obtain t where t: "iter_step s t" "dispatch ops m s =
          map_option (\<lambda>(m, dl, e, pool). t\<lparr>mbuf_pool := (if dl then pool else free_opt ops m pool), exch_slots := e\<rparr>)
            (deliver_net ops ip (bindings s port) (Some m) False (exch_slots s) (mbuf_pool s))"
        using dispatch_bound [OF ok False _ h, of ops segs] p p17 m by auto
      then obtain m' dl e pool where D: "deliver_net ops ip (bindings s port) (Some m) False (exch_slots s) (mbuf_pool s) =
            Some (m', dl, e, pool)" "s' = t\<lparr>mbuf_pool := (if dl then pool else free_opt ops m' pool), exch_slots := e\<rparr>"
        using assms unfolding t(2) by auto
      show ?thesis
        using iter_step_poller [OF ok t(1) D(2)] deliver_net_keeps [OF D(1)] by (intro keepsI_table) auto
    qed
  qed
qed (simp add: keeps_def)

lemma reassemble_keeps:
  assumes "reassemble ops tms m s = Some s'"
  shows "keeps s s'"
  using assms unfolding reassemble_def
  by (auto split: list.splits if_splits option.splits prod.splits simp: Let_def dest!: dispatch_keeps
      intro: keeps_trans [OF keeps_upd(3)])

lemma reassemble_all_keeps: "reassemble_all ops tms ms s = Some s' \<Longrightarrow> keeps s s'"
  by (induction ms arbitrary: s) (auto split: Option.bind_splits dest!: reassemble_keeps intro: keeps_trans)

lemma flush_rx_queue_keeps: "keeps s (flush_rx_queue ops i s)"
proof -
  obtain p e where f: "flush_rx_queue ops i s = s\<lparr>mbuf_pool := p, exch_slots := e\<rparr>"
      "\<forall>k. k \<noteq> i \<longrightarrow> e k = exch_slots s k"
    using flush_rx_queue_frame by metis
  have "e i = exch_slots (flush_rx_queue ops i s) i" using f(1) by simp
  then have "exch_ok (exch_slots s i) \<Longrightarrow> exch_ok (e i)"
    by (auto simp: flush_rx_queue_def Let_def exch_ok_def split: option.splits)
  then have "exch_ok (exch_slots s k) \<Longrightarrow> exch_ok (e k)" for k using f(2) by (cases "k = i") auto
  then show ?thesis unfolding f(1) by (intro keeps_outside) auto
qed

lemma flush_slots_keeps: "keeps s (flush_slots ops n i s)"
  by (induction n arbitrary: i s) (auto intro: keeps_trans [OF flush_rx_queue_keeps])

lemma rx_round_keeps:
  assumes "rx_round ops tms s = Some s'"
  shows "keeps s s'"
proof -
  obtain pkts n where b: "eth_rx_burst ops RX_MBUF_TABLE_SIZE (nic s) = (pkts, n)" by fastforce
  show ?thesis
  proof (cases "pkts = []")
    case True
    then show ?thesis using assms b by (auto simp: rx_round_def)
  next
    case False
    with assms b obtain s1 s2 where s: "reassemble_all ops tms (take (length pkts - PREFETCH_OFFSET) pkts) (s\<lparr>nic := n\<rparr>) = Some s1"
        "reassemble_all ops tms (drop (length pkts - PREFETCH_OFFSET) pkts) s1 = Some s2"
        "s' = (let s3 = flush_slots ops NUM_SOCKETS_MAX 0 s2;
                   (tbl, pool) = frag_free_death_row ops (frag_tbl s3) (mbuf_pool s3)
               in s3\<lparr>frag_tbl := tbl, mbuf_pool := pool\<rparr>)"
      by (auto simp: rx_round_def Let_def case_prod_unfold split: Option.bind_splits)
    let ?s3 = "flush_slots ops NUM_SOCKETS_MAX 0 s2"
    have "keeps s ?s3"
      by (rule keeps_trans [OF keeps_upd(4) keeps_trans [OF reassemble_all_keeps [OF s(1)]
            keeps_trans [OF reassemble_all_keeps [OF s(2)] flush_slots_keeps]]])
    moreover have "keeps ?s3 s'"
      unfolding s(3) Let_def by (auto split: prod.split intro: keeps_trans [OF keeps_upd(3) keeps_upd(2)])
    ultimately show ?thesis by (rule keeps_trans)
  qed
qed

subsection \<open>Sending and receiving\<close>

lemma sock_inv_cong:
  assumes "mem s' = mem s" "\<And>K. alloc_of s' K = alloc_of s K" "sock_bind_table s' = sock_bind_table s"
    and "slots s' = slots s"
  shows "sock_inv s' = sock_inv s"
  unfolding sock_inv_def table_cong [OF assms(1-3)] assms(4) ..

lemma sock_inv_rest [simp]:
  "sock_inv (s\<lparr>tx_q := q\<rparr>) = sock_inv s" "sock_inv (s\<lparr>mbuf_pool := p\<rparr>) = sock_inv s"
  "sock_inv (t\<lparr>exch_slots := e\<rparr>) = sock_inv (t :: ('r, 'm, 'f, 'n, 'a) pstate_scheme)"
  by (rule sock_inv_cong; simp)+

lemma dstate_rest:
  "sstate.more s' = sstate.more s \<Longrightarrow> tx_q s' = tx_q s \<and> mbuf_pool s' = mbuf_pool s \<and> dstate.more s' = dstate.more s"
  for s :: "('r, 'm, 'a) dstate_scheme"
  by (cases s; cases s') simp

lemma ensure_bound_keeps:
  assumes "sock_inv s" "unat fd < NUM_SOCKETS_MAX" "ensure_bound fd s = Some (r, s')"
  shows "sock_inv s' \<and> sstate.more s' = sstate.more s"
proof (cases "bound (slots s (unat fd)) = 0")
  case True
  then have "udpdk_bind fd (Some \<lparr>sin_family = ucast AF_INET, sin_port = of_int (btable_get_free_port s),
      sin_addr = INADDR_ANY\<rparr>) (of_nat sizeof_sockaddr_in) s = Some (r, s')"
    using assms(3) slot_at_in [OF assms(2), of s] by (simp add: ensure_bound_def)
  with bind_keeps [OF assms(1,2)] show ?thesis by (metis option.inject prod.inject)
next
  case False
  then show ?thesis using assms slot_at_in [OF assms(2), of s] by (simp add: ensure_bound_def)
qed

lemma udpdk_sendto_keeps:
  assumes inv: "sock_inv s" and fd: "unat fd < NUM_SOCKETS_MAX"
    and run: "udpdk_sendto ops cfg fd buf len flags dest addrlen s = Some (r, s')"
  shows "sock_inv s' \<and> dstate.more s' = dstate.more s"
proof -
  obtain v s1 where s1: "sendto_validate_args fd flags dest addrlen s = Some (v, s1)"
    using run by (auto simp: udpdk_sendto_def split: Option.bind_splits)
  then have k1: "sock_inv s1 \<and> sstate.more s1 = sstate.more s"
    using inv slot_at_in [OF fd, of s] by (auto simp: sendto_validate_args_def fail_def split: if_splits)
  show ?thesis
  proof (cases "v < 0")
    case True
    then show ?thesis using run s1 k1 dstate_rest [of s1 s] by (simp add: udpdk_sendto_def)
  next
    case False
    then obtain r2 s2 where s2: "ensure_bound fd s1 = Some (r2, s2)"
      using run s1 by (auto simp: udpdk_sendto_def split: Option.bind_splits)
    have "sock_inv s2 \<and> sstate.more s2 = sstate.more s1"
      using ensure_bound_keeps [OF _ fd s2] k1 by blast
    then have k2: "sock_inv s2" "dstate.more s2 = dstate.more s" using k1 dstate_rest [of s2 s] by auto
    show ?thesis
    proof (cases "r2 < 0 \<or> pktmbuf_alloc ops (mbuf_pool s2) = None")
      case True
      then show ?thesis using run s1 s2 False k2
        by (auto simp: udpdk_sendto_def fail_def split: if_splits)
    next
      case False
      then obtain pool where p: "pktmbuf_alloc ops (mbuf_pool s2) = Some pool" "\<not> r2 < 0" by auto
      then show ?thesis using run s1 s2 \<open>\<not> v < 0\<close> k2
        by (auto simp: udpdk_sendto_def Let_def split: if_splits Option.bind_splits option.splits)
    qed
  qed
qed

text \<open>
  A receive of the application, with the wait on the ring of its slot: nothing arrives in the
  ring during the call, so that it comes back when the ring has a packet or a signal arrives.
\<close>

definition app_recv ::
  "('r, 'm, 'f, 'n, 'z) poller_ops_scheme \<Rightarrow> (nat \<Rightarrow> bool) \<Rightarrow> u32 \<Rightarrow> u8 list option \<Rightarrow> u64 \<Rightarrow> u32 \<Rightarrow>
    u8 list option \<Rightarrow> u32 option \<Rightarrow> ('r, 'm, 'f, 'n, 'a) pstate_scheme \<Rightarrow>
    (int \<times> u8 list option \<times> u8 list option \<times> u32 option \<times> ('r, 'm, 'f, 'n, 'a) pstate_scheme) option" where
  "app_recv ops intr fd buf len flags src_addr addrlen s =
     (let i = unat fd; taken = ring_dequeue ops (rx_q (exch_slots s i))
      in do {
        (v, _) \<leftarrow> recvfrom_validate_args fd buf flags addrlen s;
        (r, buf', src', alen', s') \<leftarrow>
          udpdk_recvfrom ops intr (\<lambda>_. map_option fst taken) fd buf len flags src_addr addrlen s;
        Some (r, buf', src', alen',
          case taken of
            None \<Rightarrow> s'
          | Some (pkt, q) \<Rightarrow>
              if v < 0 \<or> intr 0 then s'
              else s'\<lparr>exch_slots := (exch_slots s')(i := (exch_slots s' i)\<lparr>rx_q := q\<rparr>)\<rparr>) })"

lemma udpdk_recvfrom_keeps:
  assumes inv: "sock_inv s" and fd: "unat fd < NUM_SOCKETS_MAX"
    and run: "udpdk_recvfrom ops intr deq fd buf len flags src_addr addrlen s = Some (r, buf', src', alen', s')"
  shows "sock_inv s' \<and> dstate.more s' = dstate.more s"
proof -
  obtain v s1 where s1: "recvfrom_validate_args fd buf flags addrlen s = Some (v, s1)"
    using run by (auto simp: udpdk_recvfrom_def split: Option.bind_splits)
  then have "sock_inv s1 \<and> sstate.more s1 = sstate.more s"
    using inv slot_at_in [OF fd, of s] by (auto simp: recvfrom_validate_args_def fail_def split: if_splits)
  then have k1: "sock_inv s1" "dstate.more s1 = dstate.more s" using dstate_rest [of s1 s] by auto
  show ?thesis
    using run s1 k1
    by (auto simp: udpdk_recvfrom_def Let_def split: if_splits Option.bind_splits option.splits list.splits)
qed

subsection \<open>Steps of the system\<close>

text \<open>
  A socket call, a send, a receive, the transmit half or the receive half of a round of the
  poller, or something that happens at the card. A call with no defined outcome has no step.
\<close>

inductive sys_step ::
  "('r, 'm, 'f, 'n, 'z) poller_ops_scheme \<Rightarrow> configuration \<Rightarrow> ('r, 'm, 'f, 'n, 'a) pstate_scheme \<Rightarrow>
    ('r, 'm, 'f, 'n, 'a) pstate_scheme \<Rightarrow> bool" for ops cfg where
  sys_call: "sock_step s s' \<Longrightarrow> sys_step ops cfg s s'"
| sys_send: "unat fd < NUM_SOCKETS_MAX \<Longrightarrow>
    udpdk_sendto ops cfg fd buf len flags dest addrlen s = Some (r, s') \<Longrightarrow> sys_step ops cfg s s'"
| sys_recv: "unat fd < NUM_SOCKETS_MAX \<Longrightarrow>
    app_recv ops intr fd buf len flags src_addr alen s = Some (r, buf', src', alen', s') \<Longrightarrow> sys_step ops cfg s s'"
| sys_tx: "tx_round ops s = Some s' \<Longrightarrow> sys_step ops cfg s s'"
| sys_rx: "rx_round ops tms s = Some s' \<Longrightarrow> sys_step ops cfg s s'"
| sys_wire: "sys_step ops cfg s (s\<lparr>nic := n\<rparr>)"

inductive_cases sys_stepE: "sys_step ops cfg s s'"

inductive sys_reach ::
  "('r, 'm, 'f, 'n, 'z) poller_ops_scheme \<Rightarrow> configuration \<Rightarrow> ('r, 'm, 'f, 'n, 'a) pstate_scheme \<Rightarrow>
    ('r, 'm, 'f, 'n, 'a) pstate_scheme \<Rightarrow> bool" for ops cfg where
  sys_start: "sys_reach ops cfg s s"
| sys_next: "sys_reach ops cfg s t \<Longrightarrow> sys_step ops cfg t u \<Longrightarrow> sys_reach ops cfg s u"

lemma exch_of_rest: "dstate.more s' = dstate.more s \<Longrightarrow> exch_slots s' = exch_slots s"
  for s :: "('r, 'm, 'f, 'n, 'a) pstate_scheme"
  by (cases s; cases s') simp

lemma nic_of_rest: "dstate.more s' = dstate.more s \<Longrightarrow> nic s' = nic s \<and> frag_tbl s' = frag_tbl s"
  for s :: "('r, 'm, 'f, 'n, 'a) pstate_scheme"
  by (cases s; cases s') simp

lemma sys_inv_same_rest:
  assumes "sys_inv s" "sock_inv s' \<and> dstate.more s' = dstate.more s"
  shows "sys_inv s'"
  using assms exch_of_rest [of s' s] by (simp add: sys_inv_def)

lemma app_recv_keeps:
  assumes "sys_inv s" "unat fd < NUM_SOCKETS_MAX"
    and "app_recv ops intr fd buf len flags src_addr alen s = Some (r, buf', src', alen', s')"
  shows "sys_inv s'"
proof -
  let ?i = "unat fd"
  obtain deq b s1 where r: "udpdk_recvfrom ops intr deq fd buf len flags src_addr alen s = Some (r, buf', src', alen', s1)"
    and s': "s' = s1 \<or> (\<exists>q. s' = s1\<lparr>exch_slots := (exch_slots s1)(?i := (exch_slots s1 ?i)\<lparr>rx_q := q\<rparr>)\<rparr>)"
    using assms(3) by (auto simp: app_recv_def Let_def split: Option.bind_splits option.splits if_splits prod.splits)
  have "sys_inv s1"
    by (rule sys_inv_same_rest [OF assms(1) udpdk_recvfrom_keeps [OF _ assms(2) r]])
      (use assms(1) in \<open>simp add: sys_inv_def\<close>)
  then show ?thesis using s' by (auto simp: sys_inv_def exch_ok_def)
qed

lemma sys_step_inv: "sys_step ops cfg s s' \<Longrightarrow> sys_inv s \<Longrightarrow> sys_inv s'"
proof (induction rule: sys_step.induct)
  case (sys_call s s')
  then have "sock_inv s' \<and> sstate.more s' = sstate.more s"
    unfolding sys_inv_def by (intro sock_step_keeps) simp_all
  then show ?case using sys_inv_same_rest [OF sys_call(2)] dstate_rest [of s' s] by blast
next
  case (sys_send fd buf len flags dest addrlen s r s')
  then show ?case using udpdk_sendto_keeps sys_inv_same_rest by (metis sys_inv_def)
next
  case sys_recv
  then show ?case using app_recv_keeps by blast
next
  case sys_tx
  then show ?case using tx_round_keeps keepsD by blast
next
  case sys_rx
  then show ?case using rx_round_keeps keepsD by blast
next
  case sys_wire
  then show ?case by (rule keepsD [OF keeps_upd(4), THEN conjunct1])
qed

lemma sys_reach_inv: "sys_reach ops cfg s t \<Longrightarrow> sys_inv s \<Longrightarrow> sys_inv t"
proof (induction rule: sys_reach.induct)
  case (sys_next t u)
  show ?case by (rule sys_step_inv [OF sys_next(2) sys_next(3) [OF sys_next(4)]])
qed

end
