(* ===== verification/Reception.thy ===== *)
theory Reception
  imports System
begin

text \<open>
  The receive half of a round as a whole: which packets of a burst end up in the ring of which
  socket. The exchange buffers are empty between two rounds, each socket has at most one binding
  per port, and so a burst of up to 128 packets always fits.
\<close>

subsection \<open>Whom a packet is for\<close>

text \<open>Port and address of a complete UDP packet (\<open>None\<close> for every other packet).\<close>

definition addressee :: "packet \<Rightarrow> (u16 \<times> u32) option" where
  "addressee m = (case m of
       [] \<Rightarrow> None
     | sg # _ \<Rightarrow>
         if packet_type sg AND RTE_PTYPE_L3_IPV4 \<noteq> 0 \<and> load8 (data sg) 23 = Some 17
         then (case (load16 (data sg) 36, load32 (data sg) 30) of
             (Some port, Some ip) \<Rightarrow> Some (port, ip)
           | _ \<Rightarrow> None)
         else None)"

text \<open>A packet that is not a fragment and has all headers, if it is an IPv4 packet at all.\<close>

definition whole :: "('r, 'm, 'f, 'n, 'z) poller_ops_scheme \<Rightarrow> packet \<Rightarrow> bool" where
  "whole ops m \<longleftrightarrow> (case m of
       [] \<Rightarrow> False
     | sg # _ \<Rightarrow>
         packet_type sg AND RTE_PTYPE_L3_IPV4 \<noteq> 0 \<longrightarrow>
           \<not> frag_is_fragmented ops (take 20 (drop 14 (data sg))) \<and> 38 \<le> length (data sg))"

definition sockets_for :: "(u16 \<Rightarrow> bind_info list) \<Rightarrow> packet \<Rightarrow> u32 list" where
  "sockets_for bs m = (case addressee m of None \<Rightarrow> [] | Some (port, ip) \<Rightarrow> recipients ip (bs port))"

definition copies :: "(u16 \<Rightarrow> bind_info list) \<Rightarrow> nat \<Rightarrow> packet \<Rightarrow> nat" where
  "copies bs k m = count_list (map rx_index (sockets_for bs m)) k"

lemma addressee_udp:
  assumes "whole ops m" "addressee m = Some (port, ip)"
  shows "udp_packet ops m port ip"
  using assms by (auto simp: addressee_def whole_def udp_packet_def split: list.splits if_splits option.splits)

lemma addressee_of_udp: "udp_packet ops m port ip \<Longrightarrow> addressee m = Some (port, ip)"
  by (auto simp: addressee_def udp_packet_def split: list.splits)

lemma recipients_matching: "fd \<in> set (recipients ip bs) \<Longrightarrow> \<exists>b \<in> set bs. fd = bi_sockfd b \<and> matches ip b"
  by (induction bs) (auto split: if_splits)

lemma recipients_sub: "set (recipients ip bs) \<subseteq> bi_sockfd ` set bs"
  using recipients_matching by blast

lemma distinct_recipients: "distinct (map bi_sockfd bs) \<Longrightarrow> distinct (recipients ip bs)"
  by (induction bs) (use recipients_sub in \<open>auto simp: image_iff\<close>)

text \<open>A packet without addressee is dropped: no state changes.\<close>

lemma reassemble_ignored:
  assumes m: "whole ops m" and a: "addressee m = None"
  shows "reassemble ops tms m s = Some s"
proof -
  obtain sg segs where sg: "m = sg # segs" using m by (auto simp: whole_def split: list.splits)
  show ?thesis
  proof (cases "packet_type sg AND RTE_PTYPE_L3_IPV4 = 0")
    case False
    have len: "38 \<le> length (data sg)" and nf: "\<not> frag_is_fragmented ops (take 20 (drop 14 (data sg)))"
      using m False by (simp_all add: sg whole_def)
    have ld: "load8 (data sg) 23 = Some (data sg ! 23)" "load16 (data sg) 36 \<noteq> None" "load32 (data sg) 30 \<noteq> None"
      using len by (simp_all add: load8_def load16_def load32_def)
    have "data sg ! 23 \<noteq> 17"
      using a False ld by (auto simp: sg addressee_def split: option.splits)
    have "ucast (data sg ! 23) \<noteq> IPPROTO_UDP"
    proof
      assume eq: "ucast (data sg ! 23) = IPPROTO_UDP"
      have "ucast (ucast (data sg ! 23) :: u32) = (17 :: u8)" unfolding eq by (simp add: IPPROTO_UDP_def)
      then show False using \<open>data sg ! 23 \<noteq> 17\<close> by (simp add: ucast_down_ucast_id is_down)
    qed
    then show ?thesis using False nf ld(1) by (simp add: sg reassemble_def dispatch_simps hdr_lens)
  qed (simp add: sg reassemble_def)
qed

lemma reassemble_unbound:
  assumes ok: "table_ok s" and bs: "bindings s port = []" and m: "udp_packet ops m port ip"
  shows "reassemble ops tms m s = Some s"
proof -
  obtain sg segs where sg: "m = sg # segs" and hdr: "load8 (data sg) 23 = Some 17"
      "load16 (data sg) 36 = Some port" "load32 (data sg) 30 = Some ip"
    using m by (auto simp: udp_packet_def split: list.splits)
  have "reassemble ops tms m s = dispatch ops m s"
    using m by (simp add: sg udp_packet_def reassemble_def hdr_lens)
  then show ?thesis using dispatch_unbound [OF ok bs hdr, of ops segs] by (simp add: sg)
qed

subsection \<open>One packet, and a burst\<close>

lemma reassemble_whole:
  assumes ok: "table_ok s" and m: "whole ops m" and laws: "pool_laws ops avail"
    and ex: "\<And>k. exch_ok (exch_slots s k)"
    and room: "\<And>k. length (buffered (exch_slots s k)) + copies (bindings s) k m \<le> EXCH_BUF_SIZE"
    and av: "length m * length (sockets_for (bindings s) m) \<le> avail (mbuf_pool s)"
  shows "\<exists>s'. reassemble ops tms m s = Some s' \<and> table_ok s' \<and> bindings s' = bindings s \<and>
    slots s' = slots s \<and> tx_q s' = tx_q s \<and> nic s' = nic s \<and>
    (\<forall>k. exch_ok (exch_slots s' k) \<and> rx_q (exch_slots s' k) = rx_q (exch_slots s k) \<and>
      buffered (exch_slots s' k) = buffered (exch_slots s k) @ replicate (copies (bindings s) k m) (Some m)) \<and>
    avail (mbuf_pool s) \<le> avail (mbuf_pool s') + length m * length (sockets_for (bindings s) m)"
proof (cases "addressee m")
  case None
  then show ?thesis
    using reassemble_ignored [OF m None, of tms s] ok ex by (simp add: copies_def sockets_for_def)
next
  case (Some a)
  obtain port ip where a: "addressee m = Some (port, ip)" using Some by (cases a) simp
  note u = addressee_udp [OF m a]
  have c: "copies (bindings s) k m = hits ip (bindings s port) k" for k
    by (simp add: copies_def sockets_for_def a hits_def)
  have sf: "sockets_for (bindings s) m = recipients ip (bindings s port)"
    by (simp add: sockets_for_def a)
  show ?thesis
  proof (cases "bindings s port = []")
    case True
    then show ?thesis using reassemble_unbound [OF ok True u, of tms] ok ex by (simp add: c sf)
  next
    case False
    obtain s' where s': "reassemble ops tms m s = Some s'" "table_ok s'" "bindings s' = bindings s"
        "slots s' = slots s" "tx_q s' = tx_q s"
        "\<forall>k. exch_ok (exch_slots s' k) \<and> rx_q (exch_slots s' k) = rx_q (exch_slots s k) \<and>
          buffered (exch_slots s' k) = buffered (exch_slots s k) @ replicate (hits ip (bindings s port) k) (Some m)"
        "avail (mbuf_pool s') + length m * length (recipients ip (bindings s port)) = avail (mbuf_pool s) + length m"
      using reassemble_done [OF ok False u laws ex, of tms] room av unfolding c sf by blast
    obtain t where t1: "iter_step s t" "Some s' =
        map_option (\<lambda>(m, dl, e, pool). t\<lparr>mbuf_pool := (if dl then pool else free_opt ops m pool), exch_slots := e\<rparr>)
          (deliver_net ops ip (bindings s port) (Some m) False (exch_slots s) (mbuf_pool s))"
      using reassemble_bound [OF ok False u, of tms] unfolding s'(1) by blast
    then obtain e p where t: "iter_step s t" "s' = t\<lparr>mbuf_pool := p, exch_slots := e\<rparr>"
      by (auto simp: eq_commute [of "Some _"])
    have "nic s' = nic s" using iter_step_poller(6) [OF ok t] .
    with s' show ?thesis unfolding c sf by (intro exI [of _ s']) simp
  qed
qed

text \<open>The references that a burst takes from the pool of buffers.\<close>

definition demand :: "(u16 \<Rightarrow> bind_info list) \<Rightarrow> packet list \<Rightarrow> nat" where
  "demand bs ms = (\<Sum>m \<leftarrow> ms. length m * length (sockets_for bs m))"

definition delivered :: "(u16 \<Rightarrow> bind_info list) \<Rightarrow> nat \<Rightarrow> packet list \<Rightarrow> packet option list" where
  "delivered bs k ms = concat (map (\<lambda>m. replicate (copies bs k m) (Some m)) ms)"

lemma delivered_simps [simp]:
  "delivered bs k [] = []"
  "delivered bs k (m # ms) = replicate (copies bs k m) (Some m) @ delivered bs k ms"
  by (simp_all add: delivered_def)

lemma delivered_append: "delivered bs k (ms @ ms') = delivered bs k ms @ delivered bs k ms'"
  by (simp add: delivered_def)

lemma reassemble_all_whole:
  assumes laws: "pool_laws ops avail"
    and "table_ok s" "\<forall>m \<in> set ms. whole ops m" "\<forall>k. exch_ok (exch_slots s k)"
    and "\<forall>k. length (buffered (exch_slots s k) @ delivered (bindings s) k ms) \<le> EXCH_BUF_SIZE"
    and "demand (bindings s) ms \<le> avail (mbuf_pool s)"
  shows "\<exists>s'. reassemble_all ops tms ms s = Some s' \<and> table_ok s' \<and> bindings s' = bindings s \<and>
    slots s' = slots s \<and> tx_q s' = tx_q s \<and> nic s' = nic s \<and>
    (\<forall>k. exch_ok (exch_slots s' k) \<and> rx_q (exch_slots s' k) = rx_q (exch_slots s k) \<and>
      buffered (exch_slots s' k) = buffered (exch_slots s k) @ delivered (bindings s) k ms) \<and>
    avail (mbuf_pool s) \<le> avail (mbuf_pool s') + demand (bindings s) ms"
  using assms(2-)
proof (induction ms arbitrary: s)
  case (Cons m ms)
  have "length (buffered (exch_slots s k)) + copies (bindings s) k m \<le> EXCH_BUF_SIZE" for k
    using Cons.prems(4) [rule_format, of k] by simp
  moreover have "length m * length (sockets_for (bindings s) m) \<le> avail (mbuf_pool s)"
    using Cons.prems(5) by (simp add: demand_def)
  moreover have "whole ops m" using Cons.prems(2) by simp
  ultimately obtain s1 where s1: "reassemble ops tms m s = Some s1" "table_ok s1" "bindings s1 = bindings s"
      "slots s1 = slots s" "tx_q s1 = tx_q s" "nic s1 = nic s"
      "\<forall>k. exch_ok (exch_slots s1 k) \<and> rx_q (exch_slots s1 k) = rx_q (exch_slots s k) \<and>
        buffered (exch_slots s1 k) = buffered (exch_slots s k) @ replicate (copies (bindings s) k m) (Some m)"
      "avail (mbuf_pool s) \<le> avail (mbuf_pool s1) + length m * length (sockets_for (bindings s) m)"
    using reassemble_whole [OF Cons.prems(1) _ laws, of m tms] Cons.prems(3) by blast
  have "\<forall>m \<in> set ms. whole ops m" using Cons.prems(2) by simp
  moreover have "\<forall>k. length (buffered (exch_slots s1 k) @ delivered (bindings s1) k ms) \<le> EXCH_BUF_SIZE"
    using Cons.prems(4) s1(3,7) by (simp add: add.assoc)
  moreover have "demand (bindings s1) ms \<le> avail (mbuf_pool s1)"
    using Cons.prems(5) s1(3,8) by (simp add: demand_def)
  ultimately obtain s2 where s2: "reassemble_all ops tms ms s1 = Some s2" "table_ok s2" "bindings s2 = bindings s1"
      "slots s2 = slots s1" "tx_q s2 = tx_q s1" "nic s2 = nic s1"
      "\<forall>k. exch_ok (exch_slots s2 k) \<and> rx_q (exch_slots s2 k) = rx_q (exch_slots s1 k) \<and>
        buffered (exch_slots s2 k) = buffered (exch_slots s1 k) @ delivered (bindings s1) k ms"
      "avail (mbuf_pool s1) \<le> avail (mbuf_pool s2) + demand (bindings s1) ms"
    using Cons.IH [of s1] s1(2,7) by blast
  show ?case
    using s1 s2 by (intro exI [of _ s2]) (simp add: demand_def)
qed (simp add: demand_def)

subsection \<open>At most one copy for each socket\<close>

text \<open>With 256 sockets or fewer no two of them share an exchange buffer.\<close>

definition few_sockets :: "('r, 'm, 'f, 'n, 'a) pstate_scheme \<Rightarrow> bool" where
  "few_sockets s \<longleftrightarrow> (\<forall>k < NUM_SOCKETS_MAX. used (slots s k) \<noteq> 0 \<longrightarrow> k < 256)"

lemma bound_socket:
  assumes "sock_inv s" "b \<in> set (bindings s port)"
  shows "unat (bi_sockfd b) < NUM_SOCKETS_MAX" "used (slots s (unat (bi_sockfd b))) \<noteq> 0"
    "owner_of (slots s) (bi_sockfd b) = Some (port, bi_ip b)"
proof -
  show o: "owner_of (slots s) (bi_sockfd b) = Some (port, bi_ip b)"
    using owners_okD(2) [OF sock_invD(2) [OF assms(1)] assms(2)] .
  then show u: "unat (bi_sockfd b) < NUM_SOCKETS_MAX" by (auto simp: owner_of_def split: if_splits)
  have "bound (slots s (unat (bi_sockfd b))) \<noteq> 0" using o by (auto simp: owner_of_def split: if_splits)
  then show "used (slots s (unat (bi_sockfd b))) \<noteq> 0"
    using sock_invD(3) [OF assms(1) u] by (simp add: slot_ok_def)
qed

lemma owner_slot:
  assumes "slot_ok (sl (unat fd))" "owner_of sl fd = Some (port, ip)"
  shows "bound (sl (unat fd)) \<noteq> 0 \<and> udp_port (sl (unat fd)) = ucast port \<and> ip_addr (sl (unat fd)) = ip"
proof -
  have o: "bound (sl (unat fd)) \<noteq> 0" "port = ucast (udp_port (sl (unat fd)))" "ip = ip_addr (sl (unat fd))"
    using assms(2) by (auto simp: owner_of_def split: if_splits)
  have "unat (udp_port (sl (unat fd))) < 2 ^ 16"
    using assms(1) o(1) by (simp add: slot_ok_def UDP_MAX_PORT_def)
  then have "unat (ucast port :: u32) = unat (udp_port (sl (unat fd)))"
    unfolding o(2) using unat_ucast_small [where 'b = 16 and w = "udp_port (sl (unat fd))"] by simp
  then show ?thesis using o by (simp add: word_unat_eq_iff)
qed

lemma owner_port:
  assumes "sock_inv s" "unat fd < NUM_SOCKETS_MAX" "owner_of (slots s) fd = Some (port, ip)"
  shows "bound (slots s (unat fd)) \<noteq> 0 \<and> udp_port (slots s (unat fd)) = ucast port \<and> ip_addr (slots s (unat fd)) = ip"
  by (rule owner_slot [OF sock_invD(3) [OF assms(1,2)] assms(3)])

lemma sockets_for_bound:
  assumes "sock_inv s" "fd \<in> set (sockets_for (bindings s) m)"
  shows "unat fd < NUM_SOCKETS_MAX" "used (slots s (unat fd)) \<noteq> 0"
proof -
  obtain port b where "b \<in> set (bindings s port)" "fd = bi_sockfd b"
    using assms(2) recipients_sub by (fastforce simp: sockets_for_def split: option.splits)
  with bound_socket(1,2) [OF assms(1)] show "unat fd < NUM_SOCKETS_MAX" "used (slots s (unat fd)) \<noteq> 0" by auto
qed

lemma distinct_sockets_for:
  assumes "sock_inv s"
  shows "distinct (sockets_for (bindings s) m)"
  using owners_okD(1) [OF sock_invD(2) [OF assms]] distinct_recipients
  by (auto simp: sockets_for_def split: option.split)

lemma rx_index_small: "unat fd < 256 \<Longrightarrow> rx_index fd = unat fd"
  by (simp add: rx_index_def unsigned_ucast_eq take_bit_nat_eq_self)

lemma copies_once:
  assumes inv: "sock_inv s" and few: "few_sockets s"
  shows "copies (bindings s) k m = of_bool (k \<in> unat ` set (sockets_for (bindings s) m))"
proof -
  let ?fs = "sockets_for (bindings s) m"
  have "rx_index fd = unat fd" if "fd \<in> set ?fs" for fd
    using sockets_for_bound [OF inv that] few by (intro rx_index_small) (auto simp: few_sockets_def)
  then have e: "map rx_index ?fs = map unat ?fs" by simp
  have "distinct (map (unat :: u32 \<Rightarrow> nat) ?fs)"
    using distinct_sockets_for [OF inv] by (auto simp: distinct_map inj_on_def word_unat_eq_iff)
  then show ?thesis unfolding copies_def e by (simp only: count_distinct list.set_map)
qed

text \<open>The packets of a burst for a socket, in their order.\<close>

definition packets_for :: "(u16 \<Rightarrow> bind_info list) \<Rightarrow> nat \<Rightarrow> packet list \<Rightarrow> packet list" where
  "packets_for bs k ms = filter (\<lambda>m. k \<in> unat ` set (sockets_for bs m)) ms"

lemma delivered_packets:
  assumes "sock_inv s" "few_sockets s"
  shows "delivered (bindings s) k ms = map Some (packets_for (bindings s) k ms)"
  by (induction ms) (simp_all add: packets_for_def copies_once [OF assms])

lemma packets_for_unused:
  assumes "sock_inv s" "used (slots s k) = 0"
  shows "packets_for (bindings s) k ms = []"
  using sockets_for_bound(2) [OF assms(1)] assms(2) by (auto simp: packets_for_def filter_empty_conv)

subsection \<open>Flushing all buffers\<close>

definition flushed :: "('r, 'm, 'f, 'n, 'z) poller_ops_scheme \<Rightarrow> 'r exch_slot \<Rightarrow> 'r exch_slot" where
  "flushed ops e = (if rx_count e = 0 then e
     else case ring_enqueue_bulk ops (buffered e) (rx_q e) of
       None \<Rightarrow> e\<lparr>rx_count := 0\<rparr>
     | Some q \<Rightarrow> e\<lparr>rx_q := q, rx_count := 0\<rparr>)"

lemma flush_rx_queue_eq:
  "\<exists>p. flush_rx_queue ops i s = s\<lparr>mbuf_pool := p, exch_slots := (exch_slots s)(i := flushed ops (exch_slots s i))\<rparr>"
proof (cases "rx_count (exch_slots s i) = 0")
  case True
  then show ?thesis by (intro exI [of _ "mbuf_pool s"]) (simp add: flush_rx_queue_def flushed_def)
next
  case False
  let ?e = "exch_slots s i"
  show ?thesis
  proof (cases "ring_enqueue_bulk ops (buffered ?e) (rx_q ?e)")
    case None
    then show ?thesis using False
      by (intro exI [of _ "fold (free_opt ops) (buffered ?e) (mbuf_pool s)"])
        (simp add: flush_rx_queue_def flushed_def Let_def fold_free_opt buffered_def)
  next
    case (Some q)
    then show ?thesis using False
      by (intro exI [of _ "mbuf_pool s"]) (simp add: flush_rx_queue_def flushed_def Let_def buffered_def)
  qed
qed

lemma flush_slots_eq:
  "\<exists>p. flush_slots ops n i s = s\<lparr>mbuf_pool := p, exch_slots := (\<lambda>k.
     if i \<le> k \<and> k < i + n \<and> used (slots s k) \<noteq> 0 then flushed ops (exch_slots s k) else exch_slots s k)\<rparr>"
proof (induction n arbitrary: i s)
  case 0
  have "(\<lambda>k. if i \<le> k \<and> k < i + 0 \<and> used (slots s k) \<noteq> 0 then flushed ops (exch_slots s k) else exch_slots s k) =
      exch_slots s" by (intro ext) auto
  then show ?case by (intro exI [of _ "mbuf_pool s"]) simp
next
  case (Suc n)
  show ?case
  proof (cases "used (slots s i) = 0")
    case True
    have "(\<lambda>k. if Suc i \<le> k \<and> k < Suc i + n \<and> used (slots s k) \<noteq> 0 then flushed ops (exch_slots s k) else exch_slots s k) =
        (\<lambda>k. if i \<le> k \<and> k < i + Suc n \<and> used (slots s k) \<noteq> 0 then flushed ops (exch_slots s k) else exch_slots s k)"
      using True by (intro ext) (auto simp: Suc_le_eq le_less)
    then show ?thesis using Suc.IH [of "Suc i" s] True by simp
  next
    case False
    obtain p where p: "flush_rx_queue ops i s =
        s\<lparr>mbuf_pool := p, exch_slots := (exch_slots s)(i := flushed ops (exch_slots s i))\<rparr>"
      using flush_rx_queue_eq [of ops i s] by (elim exE)
    let ?s = "flush_rx_queue ops i s"
    have "(\<lambda>k. if Suc i \<le> k \<and> k < Suc i + n \<and> used (slots ?s k) \<noteq> 0 then flushed ops (exch_slots ?s k) else exch_slots ?s k) =
        (\<lambda>k. if i \<le> k \<and> k < i + Suc n \<and> used (slots s k) \<noteq> 0 then flushed ops (exch_slots s k) else exch_slots s k)"
      using False by (intro ext) (auto simp: p Suc_le_eq le_less)
    then show ?thesis using Suc.IH [of "Suc i" ?s] False p by auto
  qed
qed

subsection \<open>The round\<close>

lemma reassemble_all_append:
  "reassemble_all ops tms (ms @ ms') s = do { s \<leftarrow> reassemble_all ops tms ms s; reassemble_all ops tms ms' s }"
  by (induction ms arbitrary: s) (auto split: Option.bind_splits)

text \<open>The burst is taken in two parts, because of the prefetch; that makes no difference.\<close>

lemma rx_round_eq:
  assumes "eth_rx_burst ops RX_MBUF_TABLE_SIZE (nic s) = (pkts, n)"
  shows "rx_round ops tms s = (if pkts = [] then Some (s\<lparr>nic := n\<rparr>)
    else do {
      s \<leftarrow> reassemble_all ops tms pkts (s\<lparr>nic := n\<rparr>);
      let s = flush_slots ops NUM_SOCKETS_MAX 0 s;
      let (tbl, pool) = frag_free_death_row ops (frag_tbl s) (mbuf_pool s);
      Some (s\<lparr>frag_tbl := tbl, mbuf_pool := pool\<rparr>) })"
proof -
  have parts: "reassemble_all ops tms pkts t = do {
      s \<leftarrow> reassemble_all ops tms (take (length pkts - PREFETCH_OFFSET) pkts) t;
      reassemble_all ops tms (drop (length pkts - PREFETCH_OFFSET) pkts) s }" for t
    unfolding reassemble_all_append [symmetric] append_take_drop_id ..
  show ?thesis unfolding rx_round_def assms by (simp add: Let_def case_prod_unfold parts Option.bind_assoc)
qed

lemma rx_round_done:
  assumes inv: "sys_inv s" and few: "few_sockets s" and e0: "\<forall>k. rx_count (exch_slots s k) = 0"
    and b: "eth_rx_burst ops RX_MBUF_TABLE_SIZE (nic s) = (pkts, n)" "length pkts \<le> RX_MBUF_TABLE_SIZE"
    and w: "\<forall>m \<in> set pkts. whole ops m" and laws: "pool_laws ops avail" and av: "demand (bindings s) pkts \<le> avail (mbuf_pool s)"
  shows "\<exists>s'. rx_round ops tms s = Some s' \<and> sys_inv s' \<and> bindings s' = bindings s \<and> slots s' = slots s \<and>
    tx_q s' = tx_q s \<and> nic s' = n \<and> (\<forall>k. rx_count (exch_slots s' k) = 0) \<and>
    (\<forall>k < NUM_SOCKETS_MAX. rx_q (exch_slots s' k) =
      (let new = map Some (packets_for (bindings s) k pkts)
       in if new = [] then rx_q (exch_slots s k)
          else case ring_enqueue_bulk ops new (rx_q (exch_slots s k)) of None \<Rightarrow> rx_q (exch_slots s k) | Some q \<Rightarrow> q))"
proof -
  have sk: "sock_inv s" and ok: "table_ok s" and ex: "\<forall>k. exch_ok (exch_slots s k)"
    using inv by (simp_all add: sys_inv_def sock_inv_def)
  have buf0: "buffered (exch_slots s k) = []" for k using e0 by (simp add: buffered_def)
  let ?s = "s\<lparr>nic := n\<rparr>"
  have same: "table_ok ?s = table_ok s" "bindings ?s = bindings s"
    by (rule table_cong; simp)+
  have fits: "\<forall>k. length (buffered (exch_slots ?s k) @ delivered (bindings ?s) k pkts) \<le> EXCH_BUF_SIZE"
    using b(2) unfolding same
    by (auto simp: buf0 delivered_packets [OF sk few] packets_for_def RX_MBUF_TABLE_SIZE_def EXCH_BUF_SIZE_def
        intro: le_trans [OF length_filter_le])
  obtain s2 where s2: "reassemble_all ops tms pkts ?s = Some s2" "table_ok s2" "bindings s2 = bindings s"
      "slots s2 = slots s" "tx_q s2 = tx_q s" "nic s2 = n"
      "\<forall>k. exch_ok (exch_slots s2 k) \<and> rx_q (exch_slots s2 k) = rx_q (exch_slots s k) \<and>
        buffered (exch_slots s2 k) = delivered (bindings s) k pkts"
    using reassemble_all_whole [OF laws, of ?s pkts tms] ok w ex fits av unfolding same by (auto simp: buf0)
  note dp = delivered_packets [OF sk few]
  show ?thesis
  proof (cases "pkts = []")
    case True
    have "sys_inv ?s" using keepsD [OF keeps_upd(4) inv] by blast
    then show ?thesis using True e0 same(2) by (simp add: rx_round_eq [OF b(1)] packets_for_def)
  next
    case False
    obtain p where p: "flush_slots ops NUM_SOCKETS_MAX 0 s2 = s2\<lparr>mbuf_pool := p, exch_slots := (\<lambda>k.
        if k < NUM_SOCKETS_MAX \<and> used (slots s2 k) \<noteq> 0 then flushed ops (exch_slots s2 k) else exch_slots s2 k)\<rparr>"
      using flush_slots_eq [of ops NUM_SOCKETS_MAX 0 s2] by auto
    let ?s3 = "flush_slots ops NUM_SOCKETS_MAX 0 s2"
    obtain tbl pool where f: "frag_free_death_row ops (frag_tbl ?s3) (mbuf_pool ?s3) = (tbl, pool)" by fastforce
    let ?s4 = "?s3\<lparr>frag_tbl := tbl, mbuf_pool := pool\<rparr>"
    have run: "rx_round ops tms s = Some ?s4"
      using False s2(1) f by (simp add: rx_round_eq [OF b(1)])
    note K = keepsD [OF rx_round_keeps [OF run] inv]
    have c2: "rx_count (exch_slots s2 k) = 0 \<longleftrightarrow> packets_for (bindings s) k pkts = []" for k
      using s2(7) [rule_format, of k] length_buffered [of "exch_slots s2 k"]
      by (auto simp: dp unat_eq_zero)
    have none: "packets_for (bindings s) k pkts = []" if "\<not> (k < NUM_SOCKETS_MAX \<and> used (slots s k) \<noteq> 0)" for k
      using that sockets_for_bound [OF sk] by (auto simp: packets_for_def filter_empty_conv)
    have cnt: "rx_count (exch_slots ?s4 k) = 0" for k
      using none [of k] c2 [of k] s2(4) by (auto simp: p flushed_def split: option.split)
    have q: "rx_q (exch_slots ?s4 k) =
        (let new = map Some (packets_for (bindings s) k pkts)
         in if new = [] then rx_q (exch_slots s k)
            else case ring_enqueue_bulk ops new (rx_q (exch_slots s k)) of None \<Rightarrow> rx_q (exch_slots s k) | Some q \<Rightarrow> q)"
      for k
      using none [of k] c2 [of k] s2(4) s2(7) [rule_format, of k]
      by (auto simp: p flushed_def dp Let_def split: option.split)
    have "tx_q ?s4 = tx_q s" "nic ?s4 = n" using s2(5,6) by (simp_all add: p)
    with run K cnt q show ?thesis by blast
  qed
qed

end
