(* ===== verification/End_To_End.thy ===== *)
theory End_To_End
  imports Reception
begin

text \<open>
  A datagram on its whole way: \<open>udpdk_sendto\<close> of one socket, the transmit half of a round, the wire,
  the receive half of a round, and \<open>udpdk_recvfrom\<close> of another socket.
\<close>

subsection \<open>Rings\<close>

text \<open>What is put in a ring stands behind what was there.\<close>

definition ring_appends :: "('r, 'm, 'f, 'n, 'z) poller_ops_scheme \<Rightarrow> ('r \<Rightarrow> packet list) \<Rightarrow> bool" where
  "ring_appends ops contents \<longleftrightarrow>
     (\<forall>p q q'. ring_enqueue ops p q = Some q' \<longrightarrow> contents q' = contents q @ [p]) \<and>
     (\<forall>ps q q'. ring_enqueue_bulk ops (map Some ps) q = Some q' \<longrightarrow> contents q' = contents q @ ps)"

lemma ring_appendsD:
  assumes "ring_appends ops contents"
  shows "ring_enqueue ops p q = Some q' \<Longrightarrow> contents q' = contents q @ [p]"
    and "ring_enqueue_bulk ops (map Some ps) q = Some q' \<Longrightarrow> contents q' = contents q @ ps"
  using assms by (simp_all add: ring_appends_def)

subsection \<open>The sender's half\<close>

lemma built_small:
  assumes "unat len + 42 \<le> 1500"
  shows "small [build_packet ops cfg sl dest len payload]"
proof -
  have e: "len + of_nat ETHER_HDR_LEN + of_nat IPV4_HDR_LEN + of_nat UDP_HDR_LEN = len + 42"
    by (simp add: hdr_lens add.assoc)
  have "unat (len + 42) = unat len + 42" using assms by (simp add: unat_word_ariths)
  then have "unat (ucast (len + 42) :: u32) = unat len + 42"
    using unat_ucast_small [where w = "len + 42" and 'b = 32] assms by simp
  then have "ucast (len + 42) \<le> (1500 :: u32)" using assms by (simp add: word_le_nat_alt)
  then show ?thesis by (simp add: small_def build_packet_def Let_def e IPV4_MTU_DEFAULT_def)
qed

text \<open>A packet put in an empty transmit ring is sent, and nothing else is.\<close>

lemma tx_round_one:
  assumes laws: "fifo ops contents" "card_takes_all ops sent"
    and i: "i < NUM_SOCKETS_MAX" "used (slots s i) \<noteq> 0" and c: "contents (tx_q s i) = [p]" "small p"
    and others: "\<And>j. j \<noteq> i \<Longrightarrow> used (slots s j) \<noteq> 0 \<Longrightarrow> contents (tx_q s j) = []"
  shows "\<exists>rings n'. tx_round ops s = Some (s\<lparr>tx_q := rings, nic := n'\<rparr>) \<and> sent n' = sent (nic s) @ [p]"
proof -
  let ?U = "used_from 0 NUM_SOCKETS_MAX s"
  have rest: "concat (map (\<lambda>j. contents (tx_q s j)) (filter (\<lambda>j. used (slots s j) \<noteq> 0) [a..<b])) = []" if "i \<notin> {a..<b}" for a b
    using that by (auto intro!: others)
  have r: "[0..<0 + NUM_SOCKETS_MAX] = [0..<i] @ i # [Suc i..<NUM_SOCKETS_MAX]"
    using i(1) by (metis add_0 le_add1 upt_add_eq_append upt_conv_Cons less_imp_le_nat add_diff_inverse_nat leD)
  have "concat (map (\<lambda>j. contents (tx_q s j)) ?U) = [] @ contents (tx_q s i) @ []"
    unfolding used_from_def r filter_append map_append concat_append filter.simps
    using i(2) by (simp only: rest [of 0 i, simplified atLeastLessThan_iff] if_True list.map concat.simps not_False_eq_True
      rest [of "Suc i" NUM_SOCKETS_MAX, simplified atLeastLessThan_iff] Suc_n_not_le_n less_irrefl simp_thms append_Nil append_Nil2)
  then have all: "concat (map (\<lambda>j. contents (tx_q s j)) ?U) = [p]" using c(1) by simp
  have sm: "\<forall>j \<in> set ?U. \<forall>p \<in> set (contents (tx_q s j)). small p"
  proof (intro ballI)
    fix j x
    assume "j \<in> set ?U" "x \<in> set (contents (tx_q s j))"
    then show "small x" using c others [of j] by (cases "j = i") (auto simp: used_from_def)
  qed
  show ?thesis
    using tx_round_small [OF laws sm] unfolding all by (auto simp: BURST_SIZE_def)
qed

subsection \<open>The receiver's half\<close>

text \<open>A single packet for a socket whose ring is empty and has room is then all that its ring has.\<close>

lemma rx_round_one:
  assumes "sys_inv s" "few_sockets s" "\<forall>k. rx_count (exch_slots s k) = 0"
    and "eth_rx_burst ops RX_MBUF_TABLE_SIZE (nic s) = ([m], n)" "whole ops m" "pool_laws ops avail"
    and "length m * length (sockets_for (bindings s) m) \<le> avail (mbuf_pool s)" and laws: "ring_appends ops contents"
    and fd: "fd \<in> set (sockets_for (bindings s) m)"
    and q: "contents (rx_q (exch_slots s (unat fd))) = []" "ring_enqueue_bulk ops [Some m] (rx_q (exch_slots s (unat fd))) \<noteq> None"
  shows "\<exists>s'. rx_round ops tms s = Some s' \<and> sys_inv s' \<and> bindings s' = bindings s \<and> slots s' = slots s \<and>
    contents (rx_q (exch_slots s' (unat fd))) = [m]"
proof -
  have k: "unat fd < NUM_SOCKETS_MAX"
    using sockets_for_bound(1) [OF _ fd] assms(1) by (simp add: sys_inv_def)
  have pf: "packets_for (bindings s) (unat fd) [m] = [m]"
    using fd by (simp add: packets_for_def)
  obtain s' where s': "rx_round ops tms s = Some s'" "sys_inv s'" "bindings s' = bindings s" "slots s' = slots s"
      "\<forall>k < NUM_SOCKETS_MAX. rx_q (exch_slots s' k) =
        (let new = map Some (packets_for (bindings s) k [m])
         in if new = [] then rx_q (exch_slots s k)
            else case ring_enqueue_bulk ops new (rx_q (exch_slots s k)) of None \<Rightarrow> rx_q (exch_slots s k) | Some q \<Rightarrow> q)"
    using rx_round_done [OF assms(1-4) _ _ assms(6), of tms] assms(5,7)
    by (auto simp: demand_def RX_MBUF_TABLE_SIZE_def BURST_SIZE_def)
  obtain q' where q': "ring_enqueue_bulk ops [Some m] (rx_q (exch_slots s (unat fd))) = Some q'" using q(2) by blast
  have "rx_q (exch_slots s' (unat fd)) = q'"
    using s'(5) k q' by (simp add: pf)
  moreover have "contents q' = [m]"
    using ring_appendsD(2) [OF laws, of "[m]" "rx_q (exch_slots s (unat fd))" q'] q' q(1) by simp
  ultimately show ?thesis using s'(1-4) by blast
qed

lemma app_recv_one:
  assumes mac: "macs_ok cfg" and len: "length payload = unat len" "42 + unat len < 2 ^ 16"
    and fd: "unat fd < NUM_SOCKETS_MAX" "used (slots s (unat fd)) \<noteq> 0"
    and q: "fifo ops contents" "contents (rx_q (exch_slots s (unat fd))) = [[build_packet ops cfg sl dest len payload]]"
    and buf: "unat n < 2 ^ 32" "unat n \<le> length b" and src: "16 \<le> length sb" "16 \<le> al"
  shows "\<exists>s'. app_recv ops (\<lambda>_. False) fd (Some b) n 0 (Some sb) (Some al) s =
    Some (int (min (unat n) (unat len)), Some (take (unat n) payload @ drop (min (unat n) (unat len)) b),
      Some (sockaddr_bytes (ucast (udp_port sl)) (packet_src cfg sl) @ drop 16 sb), Some 16, s') \<and>
    contents (rx_q (exch_slots s' (unat fd))) = []"
proof -
  let ?p = "[build_packet ops cfg sl dest len payload]"
  obtain q' where q': "ring_dequeue ops (rx_q (exch_slots s (unat fd))) = Some (?p, q')" "contents q' = []"
    using fifo_cons [OF q] .
  have "\<And>j. j < (0 :: nat) \<Longrightarrow> \<not> False \<and> Some ?p = None" by simp
  note R = recv_built [where ops = ops and intr = "\<lambda>_. False" and deq = "\<lambda>_. Some ?p" and k = 0,
      OF mac len fd this _ refl _ buf src, simplified]
  show ?thesis
    unfolding app_recv_def Let_def q'(1) recvfrom_valid [OF fd]
    using q'(2) R by (auto simp: case_prod_unfold)
qed

subsection \<open>The whole way\<close>

lemma send_to_receive:
  assumes inv: "sys_inv s" and few: "few_sockets s" and e0: "\<forall>k. rx_count (exch_slots s k) = 0"
    and laws: "fifo ops contents" "ring_appends ops contents" "card_takes_all ops sent" "pool_laws ops avail"
    and nf: "\<And>hdr. hdr ! 6 = 0 \<Longrightarrow> hdr ! 7 = 0 \<Longrightarrow> \<not> frag_is_fragmented ops hdr"
    and mac: "macs_ok cfg" and fd: "unat fd < NUM_SOCKETS_MAX" "used (slots s (unat fd)) \<noteq> 0" "bound (slots s (unat fd)) \<noteq> 0"
    and len: "unat len \<le> length msg" "42 + unat len \<le> data_room ops" "42 + unat len \<le> 1500" "addrlen \<noteq> 0"
    and pkt: "pkt = [build_packet ops cfg (slots s (unat fd)) dest len (take (unat len) msg)]"
    and tx: "\<forall>j. used (slots s j) \<noteq> 0 \<longrightarrow> contents (tx_q s j) = []" "ring_enqueue ops pkt (tx_q s (unat fd)) \<noteq> None"
    and pool: "pktmbuf_alloc ops (mbuf_pool s) = Some pool" "length (recipients (sin_addr dest) (bindings s (sin_port dest))) \<le> avail pool"
    and rcv: "rfd \<in> set (recipients (sin_addr dest) (bindings s (sin_port dest)))"
    and rx: "contents (rx_q (exch_slots s (unat rfd))) = []" "ring_enqueue_bulk ops [Some pkt] (rx_q (exch_slots s (unat rfd))) \<noteq> None"
    and wire: "eth_rx_burst ops RX_MBUF_TABLE_SIZE wire = ([pkt], wire')"
    and buf: "unat n < 2 ^ 32" "unat n \<le> length b" and src: "16 \<le> length sb" "16 \<le> al"
  shows "\<exists>s1 s2 s3 s4. udpdk_sendto ops cfg fd msg len 0 (Some dest) addrlen s = Some (int (unat len), s1) \<and>
    tx_round ops s1 = Some s2 \<and> sent (nic s2) = sent (nic s) @ [pkt] \<and>
    rx_round ops tms (s2\<lparr>nic := wire\<rparr>) = Some s3 \<and>
    app_recv ops (\<lambda>_. False) rfd (Some b) n 0 (Some sb) (Some al) s3 =
      Some (int (min (unat n) (unat len)), Some (take (unat n) (take (unat len) msg) @ drop (min (unat n) (unat len)) b),
        Some (sockaddr_bytes (ucast (udp_port (slots s (unat fd)))) (packet_src cfg (slots s (unat fd))) @ drop 16 sb),
        Some 16, s4)"
proof -
  let ?i = "unat fd" and ?r = "unat rfd"
  obtain q where q: "ring_enqueue ops pkt (tx_q s ?i) = Some q" using tx(2) by blast
  let ?s1 = "s\<lparr>mbuf_pool := pool, tx_q := (tx_q s)(?i := q)\<rparr>"
  have "unat len < 2 ^ 63" using len(3) by simp
  then have "sint len = int (unat len)" by (rule sint_small64)
  then have send: "udpdk_sendto ops cfg fd msg len 0 (Some dest) addrlen s = Some (int (unat len), ?s1)"
    using udpdk_sendto_bound [OF fd len(4,1,2) pkt] pool(1) q by simp
  have c1: "contents (tx_q ?s1 ?i) = [pkt]"
    using ring_appendsD(1) [OF laws(2) q] tx(1) fd(2) by simp
  have sm: "small pkt" unfolding pkt using len(3) by (intro built_small) simp
  obtain rings n1 where t: "tx_round ops ?s1 = Some (?s1\<lparr>tx_q := rings, nic := n1\<rparr>)" "sent n1 = sent (nic s) @ [pkt]"
    using tx_round_one [OF laws(1,3) fd(1) _ c1 sm] fd(2) tx(1) by auto
  let ?s2 = "?s1\<lparr>tx_q := rings, nic := n1\<rparr>"
  let ?w = "?s2\<lparr>nic := wire\<rparr>"
  have kp: "keeps s ?w" by (rule keeps_outside) auto
  note K = keepsD [OF kp inv]
  have up: "udp_packet ops pkt (sin_port dest) (sin_addr dest)"
    unfolding pkt by (rule built_udp_packet [OF mac nf])
  have l: "length pkt = 1" by (simp add: pkt)
  have d: "38 \<le> length (data (build_packet ops cfg (slots s ?i) dest len (take (unat len) msg)))"
    unfolding build_layout(7) [OF mac] by simp
  have w: "whole ops pkt" using up d by (simp add: whole_def udp_packet_def pkt)
  have ad: "addressee pkt = Some (sin_port dest, sin_addr dest)"
    by (rule addressee_of_udp [OF up])
  have sf: "sockets_for (bindings s) pkt = recipients (sin_addr dest) (bindings s (sin_port dest))"
    by (simp add: sockets_for_def ad)
  have sb: "sockets_for (bindings ?w) pkt = recipients (sin_addr dest) (bindings s (sin_port dest))"
    using K sf by simp
  obtain s3 where s3: "rx_round ops tms ?w = Some s3" "slots s3 = slots s" "contents (rx_q (exch_slots s3 ?r)) = [pkt]"
    using rx_round_one [of ?w ops pkt wire' avail contents rfd tms] K few e0 wire w laws(2,4) pool(2) l sb rcv rx
    by (auto simp: few_sockets_def)
  have rb: "unat rfd < NUM_SOCKETS_MAX" "used (slots s3 ?r) \<noteq> 0"
    using sockets_for_bound [of s rfd pkt] inv rcv sf s3(2) by (simp_all add: sys_inv_def)
  have lm: "length (take (unat len) msg) = unat len" using len(1) by simp
  obtain s4 where "app_recv ops (\<lambda>_. False) rfd (Some b) n 0 (Some sb) (Some al) s3 =
      Some (int (min (unat n) (unat len)), Some (take (unat n) (take (unat len) msg) @ drop (min (unat n) (unat len)) b),
        Some (sockaddr_bytes (ucast (udp_port (slots s ?i))) (packet_src cfg (slots s ?i)) @ drop 16 sb), Some 16, s4)"
    using app_recv_one [OF mac lm _ rb laws(1) s3(3) [unfolded pkt] buf src] len(3) by auto
  with send t s3(1) show ?thesis by auto
qed

end
