(* ===== verification/Properties_System.thy ===== *)
theory Properties_System
  imports Properties_Poller End_To_End
begin

text \<open>
  Properties of the application and the poller together, each with an instance.
\<close>

subsection \<open>Instances\<close>

text \<open>A card that receives what was sent, and two open sockets that are then bound.\<close>

definition demo_loop :: "(packet list, nat, unit, packet list) poller_ops" where
  "demo_loop = demo_poller\<lparr>eth_rx_burst := (\<lambda>k n. (take k n, drop k n))\<rparr>"

definition demo_two :: "(packet list, nat, unit, packet list) pstate" where
  "demo_two = demo_poll\<lparr>slots := (\<lambda>_. closed)(0 := closed\<lparr>used := 1\<rparr>, 1 := closed\<lparr>used := 1, slot_sockfd := 1\<rparr>)\<rparr>"

definition other_addr :: sockaddr_in where
  "other_addr = \<lparr>sin_family = 2, sin_port = 7, sin_addr = 0\<rparr>"

lemma demo_loop_laws:
  "fifo demo_loop (\<lambda>q. q)" "card_takes_all demo_loop (\<lambda>n. n)" "pool_laws demo_loop (\<lambda>n. n)"
  "hdr ! 6 = 0 \<Longrightarrow> hdr ! 7 = 0 \<Longrightarrow> \<not> frag_is_fragmented demo_loop hdr"
  by (simp_all add: demo_loop_def demo_poller_def fifo_def card_takes_all_def pool_laws_def split: list.split)

lemma demo_loop_frag: "frag_is_fragmented demo_loop = frag_is_fragmented demo_poller"
  by (simp add: demo_loop_def)

lemma demo_loop_appends: "ring_appends demo_loop (\<lambda>q. q)"
  by (auto simp: ring_appends_def demo_loop_def demo_poller_def comp_def split: if_splits)

lemma demo_two_inv: "sock_inv demo_two" "bindings demo_two = (\<lambda>_. [])"
proof -
  have st: "demo_state demo_two" by (rule demo_stateI) (simp_all add: demo_two_def demo_poll_def)
  note D = demo_ok [OF st]
  show "bindings demo_two = (\<lambda>_. [])" by (rule D(2))
  show "sock_inv demo_two"
  proof (rule sock_invI)
    have "owner_of (slots demo_two) = Map.empty"
      by (rule ext) (simp add: demo_two_def owner_of_def closed_def)
    then show "owners_ok (owner_of (slots demo_two)) (bindings demo_two)"
      by (simp add: owners_ok_def D(2))
  qed (use D(1) in \<open>simp_all add: demo_two_def slot_ok_def closed_def\<close>)
qed

lemma demo_pair:
  obtains s1 s where
    "udpdk_bind 0 (Some demo_addr) 16 demo_two = Some (0, s1)" "udpdk_bind 1 (Some other_addr) 16 s1 = Some (0, s)"
    "sys_inv s" "sstate.more s = sstate.more demo_two"
    "bindings s = (\<lambda>_. [])(20480 := [new_info 0 167772161 0], 7 := [new_info 1 0 0])"
    "slots s = (\<lambda>_. closed)(0 := bound_slot demo_addr (closed\<lparr>used := 1\<rparr>),
       1 := bound_slot other_addr (closed\<lparr>used := 1, slot_sockfd := 1\<rparr>))"
proof -
  have fd: "unat (0 :: u32) < NUM_SOCKETS_MAX" "unat (1 :: u32) < NUM_SOCKETS_MAX" by (simp_all add: NUM_SOCKETS_MAX_def)
  have a: "good_addr demo_addr 16" "good_addr other_addr 16"
    by (simp_all add: good_addr_def demo_addr_def other_addr_def AF_INET_def sizeof_sockaddr_in_def)
  have sl: "slots demo_two 0 = closed\<lparr>used := 1\<rparr>" "slots demo_two 1 = closed\<lparr>used := 1, slot_sockfd := 1\<rparr>"
    by (simp_all add: demo_two_def)
  obtain s1 where s1: "udpdk_bind 0 (Some demo_addr) 16 demo_two = Some (0, s1)" "sock_inv s1"
      "slots s1 = (slots demo_two)(0 := bound_slot demo_addr (closed\<lparr>used := 1\<rparr>))" "sstate.more s1 = sstate.more demo_two"
      "bindings s1 = (\<lambda>_. [])(20480 := [new_info 0 167772161 0])"
    using udpdk_bind_done [OF demo_two_inv(1) fd(1) _ _ a(1)]
    by (auto simp: demo_two_inv(2) sl closed_def demo_addr_def insert_binding_def INADDR_ANY_def)
  have c: "slots s1 (unat (1 :: u32)) = closed\<lparr>used := 1, slot_sockfd := 1\<rparr>" using s1(3) sl(2) by simp
  obtain s where s: "udpdk_bind 1 (Some other_addr) 16 s1 = Some (0, s)" "sock_inv s"
      "slots s = (slots s1)(1 := bound_slot other_addr (closed\<lparr>used := 1, slot_sockfd := 1\<rparr>))" "sstate.more s = sstate.more s1"
      "bindings s = (bindings s1)(7 := [new_info 1 0 0])"
    using udpdk_bind_done [OF s1(2) fd(2) _ _ a(2)] unfolding c
    by (auto simp: s1(5) closed_def other_addr_def insert_binding_def INADDR_ANY_def)
  have "exch_slots s = exch_slots demo_two"
    using exch_of_rest [of s demo_two] dstate_rest [of s demo_two] s(4) s1(4) by simp
  then have "sys_inv s" using s(2) by (simp add: sys_inv_def demo_two_def demo_poll_def)
  moreover have "slots demo_two = (\<lambda>_. closed)(0 := closed\<lparr>used := 1\<rparr>, 1 := closed\<lparr>used := 1, slot_sockfd := 1\<rparr>)"
    by (simp add: demo_two_def)
  ultimately show thesis using that [OF s1(1) s(1)] s(3-5) s1(3-5) by simp
qed

lemma demo_pkt_whole: "whole demo_poller demo_pkt"
proof -
  obtain sg where sg: "demo_pkt = [sg]" "42 \<le> length (data sg)"
    unfolding demo_pkt_def using build_layout(7) [OF demo_macs, of demo_poller bound_example demo_addr 3 "[7, 8, 9]"] by simp
  then show ?thesis using demo_pkt_udp by (auto simp: sg(1) whole_def udp_packet_def)
qed

subsection \<open>The invariant of the system\<close>


text \<open>
  Socket 1 sends three bytes to the address of socket 0, both being bound: every condition of a
  delivery holds, and with a card that receives what it sent a round of the poller follows.
\<close>

abbreviation demo_sent :: "('r, 'm, 'f, 'n, 'a) pstate_scheme \<Rightarrow> packet" where
  "demo_sent s \<equiv> [build_packet demo_loop demo_cfg (slots s (unat (1 :: u32))) demo_addr 3 (take (unat (3 :: u64)) [7, 8, 9])]"

lemma demo_ready:
  obtains s where "sys_reach demo_loop demo_cfg demo_two s" "sys_inv s" "few_sockets s"
    "\<forall>k. rx_count (exch_slots s k) = 0" "used (slots s (unat (1 :: u32))) \<noteq> 0" "bound (slots s (unat (1 :: u32))) \<noteq> 0"
    "\<forall>j. used (slots s j) \<noteq> 0 \<longrightarrow> tx_q s j = []" "ring_enqueue demo_loop (demo_sent s) (tx_q s (unat (1 :: u32))) \<noteq> None"
    "pktmbuf_alloc demo_loop (mbuf_pool s) = Some 3"
    "recipients (sin_addr demo_addr) (bindings s (sin_port demo_addr)) = [0]"
    "rx_q (exch_slots s (unat (0 :: u32))) = []" "ring_enqueue_bulk demo_loop [Some (demo_sent s)] (rx_q (exch_slots s (unat (0 :: u32)))) \<noteq> None"
    "udp_port (slots s (unat (1 :: u32))) = 7" "ip_addr (slots s (unat (1 :: u32))) = 0" "nic s = []"
proof -
  have fd: "unat (0 :: u32) < NUM_SOCKETS_MAX" "unat (1 :: u32) < NUM_SOCKETS_MAX" by (simp_all add: NUM_SOCKETS_MAX_def)
  obtain s0 s where s: "udpdk_bind 0 (Some demo_addr) 16 demo_two = Some (0, s0)"
      "udpdk_bind 1 (Some other_addr) 16 s0 = Some (0, s)" "sys_inv s" "sstate.more s = sstate.more demo_two"
      "bindings s = (\<lambda>_. [])(20480 := [new_info 0 167772161 0], 7 := [new_info 1 0 0])"
      "slots s = (\<lambda>_. closed)(0 := bound_slot demo_addr (closed\<lparr>used := 1\<rparr>),
         1 := bound_slot other_addr (closed\<lparr>used := 1, slot_sockfd := 1\<rparr>))" by (rule demo_pair)
  have r: "sys_reach demo_loop demo_cfg demo_two s"
    by (rule sys_next [OF sys_next [OF sys_start sys_call [OF sock_bind [OF fd(1) s(1)]]] sys_call [OF sock_bind [OF fd(2) s(2)]]])
  have e: "exch_slots s = (\<lambda>_. empty_exch)" "mbuf_pool s = 4" "tx_q s = (\<lambda>_. [])" "nic s = []"
    using s(4) exch_of_rest [of s demo_two] dstate_rest [of s demo_two] nic_of_rest [of s demo_two]
    by (simp_all add: demo_two_def demo_poll_def)
  show thesis
    by (rule that [OF r s(3)])
      (auto simp: s(5,6) e few_sockets_def closed_def bound_slot_def other_addr_def demo_addr_def empty_exch_def
        demo_loop_def demo_poller_def matches_def shares_def new_info_def)
qed





subsection \<open>From one socket to the other\<close>

text \<open>
  C2: A datagram on its whole way. A bound socket sends \<open>len\<close> bytes; the next transmit half of a
  round puts the packet on the wire, and nothing else; when a card receives it, the receive half
  puts it in the ring of every socket that is bound to its destination, and \<open>udpdk_recvfrom\<close> there
  returns the bytes that were sent, cut to the size of the buffer, with the address and port of
  the sender. This needs rings with room, that nothing else is waiting, and what DPDK
  documents of rings, buffers and the card.
\<close>

theorem datagram_end_to_end:
  assumes "sys_inv s" "few_sockets s" "\<forall>k. rx_count (exch_slots s k) = 0"
    and "fifo ops contents" "ring_appends ops contents" "card_takes_all ops sent" "pool_laws ops avail"
    and "\<And>hdr. hdr ! 6 = 0 \<Longrightarrow> hdr ! 7 = 0 \<Longrightarrow> \<not> frag_is_fragmented ops hdr"
    and "macs_ok cfg" "unat fd < NUM_SOCKETS_MAX" "used (slots s (unat fd)) \<noteq> 0" "bound (slots s (unat fd)) \<noteq> 0"
    and "unat len \<le> length msg" "42 + unat len \<le> data_room ops" "42 + unat len \<le> 1500" "addrlen \<noteq> 0"
    and "pkt = [build_packet ops cfg (slots s (unat fd)) dest len (take (unat len) msg)]"
    and "\<forall>j. used (slots s j) \<noteq> 0 \<longrightarrow> contents (tx_q s j) = []" "ring_enqueue ops pkt (tx_q s (unat fd)) \<noteq> None"
    and "pktmbuf_alloc ops (mbuf_pool s) = Some pool" "length (recipients (sin_addr dest) (bindings s (sin_port dest))) \<le> avail pool"
    and "rfd \<in> set (recipients (sin_addr dest) (bindings s (sin_port dest)))"
    and "contents (rx_q (exch_slots s (unat rfd))) = []" "ring_enqueue_bulk ops [Some pkt] (rx_q (exch_slots s (unat rfd))) \<noteq> None"
    and "eth_rx_burst ops RX_MBUF_TABLE_SIZE wire = ([pkt], wire')"
    and "unat n < 2 ^ 32" "unat n \<le> length b" and "16 \<le> length sb" "16 \<le> al"
  shows "\<exists>s1 s2 s3 s4. udpdk_sendto ops cfg fd msg len 0 (Some dest) addrlen s = Some (int (unat len), s1) \<and>
    tx_round ops s1 = Some s2 \<and> sent (nic s2) = sent (nic s) @ [pkt] \<and>
    rx_round ops tms (s2\<lparr>nic := wire\<rparr>) = Some s3 \<and>
    app_recv ops (\<lambda>_. False) rfd (Some b) n 0 (Some sb) (Some al) s3 =
      Some (int (min (unat n) (unat len)), Some (take (unat n) (take (unat len) msg) @ drop (min (unat n) (unat len)) b),
        Some (sockaddr_bytes (ucast (udp_port (slots s (unat fd)))) (packet_src cfg (slots s (unat fd))) @ drop 16 sb),
        Some 16, s4)"
  by (rule send_to_receive [OF assms])

lemma datagram_end_to_end_witness:
  "\<exists>(s :: (packet list, nat, unit, packet list) pstate) s1 s2 s3 s4.
    udpdk_sendto demo_loop demo_cfg 1 [7, 8, 9] 3 0 (Some demo_addr) 16 s = Some (3, s1) \<and>
    tx_round demo_loop s1 = Some s2 \<and> rx_round demo_loop 0 s2 = Some s3 \<and>
    app_recv demo_loop (\<lambda>_. False) 0 (Some [0, 0]) 2 0 (Some (replicate 16 0)) (Some 16) s3 =
      Some (2, Some [7, 8], Some (sockaddr_bytes 7 (src_ip_addr demo_cfg)), Some 16, s4)"
proof -
  obtain s :: "(packet list, nat, unit, packet list) pstate" where s: "sys_inv s" "few_sockets s"
    "\<forall>k. rx_count (exch_slots s k) = 0" "used (slots s (unat (1 :: u32))) \<noteq> 0" "bound (slots s (unat (1 :: u32))) \<noteq> 0"
    "\<forall>j. used (slots s j) \<noteq> 0 \<longrightarrow> tx_q s j = []" "ring_enqueue demo_loop (demo_sent s) (tx_q s (unat (1 :: u32))) \<noteq> None"
    "pktmbuf_alloc demo_loop (mbuf_pool s) = Some 3"
    "recipients (sin_addr demo_addr) (bindings s (sin_port demo_addr)) = [0]"
    "rx_q (exch_slots s (unat (0 :: u32))) = []" "ring_enqueue_bulk demo_loop [Some (demo_sent s)] (rx_q (exch_slots s (unat (0 :: u32)))) \<noteq> None"
    "udp_port (slots s (unat (1 :: u32))) = 7" "ip_addr (slots s (unat (1 :: u32))) = 0" "nic s = []" by (rule demo_ready)
  have fd: "unat (1 :: u32) < NUM_SOCKETS_MAX" by (simp add: NUM_SOCKETS_MAX_def)
  have wire: "eth_rx_burst demo_loop RX_MBUF_TABLE_SIZE [demo_sent s] = ([demo_sent s], [])"
    by (simp add: demo_loop_def RX_MBUF_TABLE_SIZE_def BURST_SIZE_def)
  have src: "packet_src demo_cfg (slots s (unat (1 :: u32))) = src_ip_addr demo_cfg"
    using s(13) by (simp add: packet_src_def INADDR_ANY_def)
  have len: "unat (3 :: u64) \<le> length [7 :: u8, 8, 9]" "42 + unat (3 :: u64) \<le> data_room demo_loop"
      "42 + unat (3 :: u64) \<le> 1500" "(16 :: u32) \<noteq> 0"
    by (simp_all add: demo_loop_def demo_poller_def)
  have rcv: "length (recipients (sin_addr demo_addr) (bindings s (sin_port demo_addr))) \<le> 3"
      "0 \<in> set (recipients (sin_addr demo_addr) (bindings s (sin_port demo_addr)))"
    by (simp_all add: s(9))
  have buf: "unat (2 :: u64) < 2 ^ 32" "unat (2 :: u64) \<le> length [0 :: u8, 0]" "16 \<le> length (replicate 16 (0 :: u8))"
      "(16 :: u32) \<le> 16"
    by simp_all
  have val: "int (unat (3 :: u64)) = 3" "int (min (unat (2 :: u64)) (unat (3 :: u64))) = 2"
      "take (unat (2 :: u64)) (take (unat (3 :: u64)) [7 :: u8, 8, 9]) @ drop (min (unat (2 :: u64)) (unat (3 :: u64))) [0, 0] = [7, 8]"
      "xs @ drop 16 (replicate 16 (0 :: u8)) = xs" "nic s @ [demo_sent s] = [demo_sent s]" for xs
    by (simp_all add: s(14))
  have port: "ucast (udp_port (slots s (unat (1 :: u32)))) = (7 :: u16)" unfolding s(12) by simp
  have "\<exists>s1 s2 s3 s4. udpdk_sendto demo_loop demo_cfg 1 [7, 8, 9] 3 0 (Some demo_addr) 16 s = Some (3, s1) \<and>
      tx_round demo_loop s1 = Some s2 \<and> nic s2 = [demo_sent s] \<and>
      rx_round demo_loop 0 (s2\<lparr>nic := [demo_sent s]\<rparr>) = Some s3 \<and>
      app_recv demo_loop (\<lambda>_. False) 0 (Some [0, 0]) 2 0 (Some (replicate 16 0)) (Some 16) s3 =
        Some (2, Some [7, 8], Some (sockaddr_bytes 7 (src_ip_addr demo_cfg)), Some 16, s4)"
    by (rule datagram_end_to_end [where contents = "\<lambda>q. q" and sent = "\<lambda>n. n" and avail = "\<lambda>n. n" and tms = 0,
        OF s(1-3) demo_loop_laws(1) demo_loop_appends demo_loop_laws(2,3,4) demo_macs fd s(4,5) len refl
        s(6,7,8) rcv s(10,11) wire buf, unfolded val port src])
  then obtain s1 s2 s3 s4 where R: "udpdk_sendto demo_loop demo_cfg 1 [7, 8, 9] 3 0 (Some demo_addr) 16 s = Some (3, s1)"
      "tx_round demo_loop s1 = Some s2" "nic s2 = [demo_sent s]" "rx_round demo_loop 0 (s2\<lparr>nic := [demo_sent s]\<rparr>) = Some s3"
      "app_recv demo_loop (\<lambda>_. False) 0 (Some [0, 0]) 2 0 (Some (replicate 16 0)) (Some 16) s3 =
        Some (2, Some [7, 8], Some (sockaddr_bytes 7 (src_ip_addr demo_cfg)), Some 16, s4)"
    by (elim exE conjE)
  have "s2\<lparr>nic := [demo_sent s]\<rparr> = s2" using R(3) by simp
  then have "rx_round demo_loop 0 s2 = Some s3" using R(4) by simp
  with R(1,2,5) show ?thesis by blast
qed

subsection \<open>Reception\<close>

text \<open>
  C7: The receive half of a round, for at most 256 sockets and with empty exchange buffers: for
  any burst of complete packets the round returns, each socket's ring gets the packets for it
  (those to its port and address, taking account of shared ports) in the order of their arrival
  and in one piece, or none of them when the ring has no room; no other ring changes. The buffers
  are empty again afterwards and the invariant, the table and the slots are kept.
\<close>

theorem rx_round_correct:
  assumes "sys_inv s" "few_sockets s" "\<forall>k. rx_count (exch_slots s k) = 0"
    and "eth_rx_burst ops RX_MBUF_TABLE_SIZE (nic s) = (pkts, n)" "length pkts \<le> RX_MBUF_TABLE_SIZE"
    and "\<forall>m \<in> set pkts. whole ops m" "pool_laws ops avail" "demand (bindings s) pkts \<le> avail (mbuf_pool s)"
  shows "\<exists>s'. rx_round ops tms s = Some s' \<and> sys_inv s' \<and> bindings s' = bindings s \<and> slots s' = slots s \<and>
    tx_q s' = tx_q s \<and> nic s' = n \<and> (\<forall>k. rx_count (exch_slots s' k) = 0) \<and>
    (\<forall>k < NUM_SOCKETS_MAX. rx_q (exch_slots s' k) =
      (let new = map Some (packets_for (bindings s) k pkts)
       in if new = [] then rx_q (exch_slots s k)
          else case ring_enqueue_bulk ops new (rx_q (exch_slots s k)) of None \<Rightarrow> rx_q (exch_slots s k) | Some q \<Rightarrow> q))"
  by (rule rx_round_done [OF assms])

lemma rx_round_correct_witness:
  "\<exists>(s :: (packet list, nat, unit, packet list) pstate) s'. bindings s 20480 = [new_info 0 167772161 0] \<and>
    nic s = [demo_pkt, demo_pkt] \<and> rx_round demo_loop 0 s = Some s' \<and>
    rx_q (exch_slots s' 0) = [demo_pkt, demo_pkt] \<and> rx_q (exch_slots s' 1) = [] \<and> nic s' = []"
proof -
  obtain s0 where s0: "sys_inv s0" "sstate.more s0 = sstate.more demo_two"
      "bindings s0 = (\<lambda>_. [])(20480 := [new_info 0 167772161 0], 7 := [new_info 1 0 0])"
      "slots s0 = (\<lambda>_. closed)(0 := bound_slot demo_addr (closed\<lparr>used := 1\<rparr>),
         1 := bound_slot other_addr (closed\<lparr>used := 1, slot_sockfd := 1\<rparr>))"
    by (rule demo_pair)
  let ?s = "s0\<lparr>nic := [demo_pkt, demo_pkt]\<rparr>"
  have K: "sys_inv ?s" "bindings ?s = bindings s0" using keepsD [OF keeps_upd(4) s0(1)] by blast+
  have e: "exch_slots s0 = (\<lambda>_. empty_exch)" "mbuf_pool s0 = 4"
    using s0(2) exch_of_rest [of s0 demo_two] dstate_rest [of s0 demo_two] by (simp_all add: demo_two_def demo_poll_def)
  have few: "few_sockets ?s" by (auto simp: few_sockets_def s0(4) closed_def)
  have b: "eth_rx_burst demo_loop RX_MBUF_TABLE_SIZE (nic ?s) = ([demo_pkt, demo_pkt], [])"
    by (simp add: demo_loop_def RX_MBUF_TABLE_SIZE_def BURST_SIZE_def)
  have a: "addressee demo_pkt = Some (20480, 167772161)" by (rule addressee_of_udp [OF demo_pkt_udp])
  have t: "sockets_for (bindings s0) demo_pkt = [0]"
    by (simp add: sockets_for_def a s0(3) matches_def shares_def new_info_def)
  have w: "whole demo_loop demo_pkt"
    using demo_pkt_whole unfolding whole_def demo_loop_frag .
  have l: "length demo_pkt = 1" by (simp add: demo_pkt_def)
  have p: "packets_for (bindings s0) k [demo_pkt, demo_pkt] = (if k = 0 then [demo_pkt, demo_pkt] else [])" for k
    by (simp add: packets_for_def t)
  obtain s' where s': "rx_round demo_loop 0 ?s = Some s'" "nic s' = []"
      "\<forall>k < NUM_SOCKETS_MAX. rx_q (exch_slots s' k) =
        (let new = map Some (packets_for (bindings ?s) k [demo_pkt, demo_pkt])
         in if new = [] then rx_q (exch_slots ?s k)
            else case ring_enqueue_bulk demo_loop new (rx_q (exch_slots ?s k)) of None \<Rightarrow> rx_q (exch_slots ?s k) | Some q \<Rightarrow> q)"
    using rx_round_correct [OF K(1) few _ b _ _ demo_loop_laws(3), of 0] w
    by (auto simp: K(2) e demand_def t l RX_MBUF_TABLE_SIZE_def BURST_SIZE_def)
  have "rx_q (exch_slots s' 0) = [demo_pkt, demo_pkt]" "rx_q (exch_slots s' 1) = []"
    using s'(3) unfolding K(2) p
    by (simp_all add: e NUM_SOCKETS_MAX_def empty_exch_def demo_loop_def demo_poller_def)
  then show ?thesis using s'(1,2) K(2) s0(3) by (intro exI [of _ ?s] exI [of _ s']) simp
qed

subsection \<open>What a closed socket leaves behind\<close>

text \<open>
  C26: Closing a socket does not empty its ring. When the descriptor is given out again and bound
  to whatever address, the first receive returns the packet that was waiting for the old
  socket, with the port and the address of its sender.
\<close>

theorem closed_socket_leaks_packets:
  assumes "sock_inv s" "unat fd < NUM_SOCKETS_MAX" "fifo ops contents"
    and "contents (rx_q (exch_slots s (unat fd))) = [[build_packet ops cfg sl dest len payload]]"
    and "macs_ok cfg" "length payload = unat len" "42 + unat len < 2 ^ 16"
    and "udpdk_close fd s = Some (0, s1)" "udpdk_socket AF_INET SOCK_DGRAM 0 s1 = (int (unat fd), s2)"
    and "udpdk_bind fd (Some a) addrlen s2 = Some (0, s3)"
    and "unat n < 2 ^ 32" "unat n \<le> length b" "16 \<le> length sb" "16 \<le> al"
  shows "udp_port (slots s3 (unat fd)) = ucast (sin_port a) \<and> ip_addr (slots s3 (unat fd)) = sin_addr a \<and>
    (\<exists>s4. app_recv ops (\<lambda>_. False) fd (Some b) n 0 (Some sb) (Some al) s3 =
      Some (int (min (unat n) (unat len)), Some (take (unat n) payload @ drop (min (unat n) (unat len)) b),
        Some (sockaddr_bytes (ucast (udp_port sl)) (packet_src cfg sl) @ drop 16 sb), Some 16, s4))"
proof -
  have r: "sock_step s s1" "sock_step s1 s2" by (rule sock_close [OF assms(2,8)], rule sock_open [OF assms(9)])
  have k1: "sock_inv s1 \<and> sstate.more s1 = sstate.more s" by (rule sock_step_keeps [OF r(1) assms(1)])
  have k2: "sock_inv s2 \<and> sstate.more s2 = sstate.more s1" by (rule sock_step_keeps [OF r(2)]) (use k1 in simp)
  have k3: "used (slots s2 (unat fd)) \<noteq> 0" "sock_inv s3" "sstate.more s3 = sstate.more s2"
      "slots s3 = (slots s2)(unat fd := bound_slot a (slots s2 (unat fd)))"
    using bind_succeeded [OF _ assms(2,10)] k2 by auto
  have "sstate.more s3 = sstate.more s" using k1 k2 k3(3) by simp
  then have e: "exch_slots s3 = exch_slots s" using dstate_rest [of s3 s] exch_of_rest [of s3 s] by simp
  have u: "used (slots s3 (unat fd)) \<noteq> 0" using k3(1) by (simp add: k3(4) bound_slot_def)
  show ?thesis
    using app_recv_one [OF assms(5-7,2) u assms(3) assms(4) [folded e] assms(11-14)] by (auto simp: k3(4) bound_slot_def)
qed

text \<open>A packet for port 20480 waits for socket 0, which is closed, opened again and bound to port 7.\<close>

lemma closed_socket_leaks_packets_witness:
  "\<exists>(s1 :: (packet list, nat, unit, packet list) pstate) s2 (s3 :: (packet list, nat, unit, packet list) pstate) s4.
    udpdk_close 0 s1 = Some (0, s2) \<and> udpdk_bind 0 (Some other_addr) 16 s3 = Some (0, s4) \<and> udp_port (slots s4 0) = 7 \<and>
    (\<exists>sb s5. app_recv demo_loop (\<lambda>_. False) 0 (Some [0, 0, 0]) 3 0 (Some (replicate 16 0)) (Some 16) s4 =
      Some (3, Some [7, 8, 9], sb, Some 16, s5))"
proof -
  let ?p = "[build_packet demo_loop demo_cfg bound_example demo_addr 3 [7, 8, 9]]"
  let ?s = "demo_two\<lparr>exch_slots := (exch_slots demo_two)(0 := empty_exch\<lparr>rx_q := [?p]\<rparr>)\<rparr>"
  have fd: "unat (0 :: u32) < NUM_SOCKETS_MAX" by (simp add: NUM_SOCKETS_MAX_def)
  have inv: "sock_inv ?s" using demo_two_inv(1) by simp
  have u: "used (slots ?s (unat (0 :: u32))) \<noteq> 0" "owner_of (slots ?s) 0 = None"
    by (simp_all add: demo_two_def owner_of_def closed_def)
  have b0: "bindings ?s = (\<lambda>_. [])" by (subst table_cong(2) [where s = demo_two]) (simp_all add: demo_two_inv(2))
  obtain s1 where s1: "udpdk_close 0 ?s = Some (0, s1)" "sock_inv s1" "slots s1 = (slots ?s)(0 := closed_slot (slots ?s 0))"
      "n_zones_active s1 = n_zones_active ?s + 1" "bindings s1 = (\<lambda>_. [])"
    using udpdk_close_done [OF inv fd u(1)] unfolding u(2) b0 by auto
  have n: "n_zones_active s1 \<le> of_nat NUM_SOCKETS_MAX"
    by (simp add: s1(4) demo_two_def demo_poll_def NUM_SOCKETS_MAX_def)
  have free: "used (slots s1 0) = 0" by (simp add: s1(3) closed_slot_def)
  then have "\<exists>i < NUM_SOCKETS_MAX. used (slots s1 i) = 0" using fd by (intro exI [of _ 0]) simp
  then obtain i where i: "udpdk_socket AF_INET SOCK_DGRAM 0 s1 = (int i, s1\<lparr>slots := (slots s1)(i := open_slot i (slots s1 i)),
           n_zones_active := n_zones_active s1 + 1\<rparr>)" "used (slots s1 i) = 0" "\<forall>j < i. used (slots s1 j) \<noteq> 0"
    using udpdk_socket_cases [OF refl refl disjI1 [OF refl] n] by auto
  have "i = 0" using i(3) free by (cases i) auto
  define s2 where "s2 = s1\<lparr>slots := (slots s1)(0 := open_slot 0 (slots s1 0)), n_zones_active := n_zones_active s1 + 1\<rparr>"
  have s2: "udpdk_socket AF_INET SOCK_DGRAM 0 s1 = (int (unat (0 :: u32)), s2)" "sock_inv s2"
    using i(1) sock_inv_open [OF s1(2) _ free] fd by (simp_all add: s2_def \<open>i = 0\<close>)
  have sl: "used (slots s2 (unat (0 :: u32))) \<noteq> 0" "bound (slots s2 (unat (0 :: u32))) = 0" "bindings s2 = (\<lambda>_. [])"
    using s1(5) by (simp_all add: s2_def open_slot_def s1(3) closed_slot_def)
  have a: "good_addr other_addr 16" by (simp add: good_addr_def other_addr_def AF_INET_def sizeof_sockaddr_in_def)
  obtain s3 where s3: "udpdk_bind 0 (Some other_addr) 16 s2 = Some (0, s3)"
    using udpdk_bind_done [OF s2(2) fd sl(1,2) a] sl(3) by auto
  have c: "(rx_q (exch_slots ?s (unat (0 :: u32)))) = [?p]" by simp
  have "udp_port (slots s3 0) = 7 \<and> (\<exists>sb s4. app_recv demo_loop (\<lambda>_. False) 0 (Some [0, 0, 0]) 3 0 (Some (replicate 16 0)) (Some 16) s3 =
      Some (3, Some [7, 8, 9], sb, Some 16, s4))"
    using closed_socket_leaks_packets [where contents = "\<lambda>q. q" and n = 3 and b = "[0, 0, 0]" and sb = "replicate 16 0" and al = 16,
        OF inv fd demo_loop_laws(1) c demo_macs _ _ s1(1) s2(1) s3] by (auto simp: other_addr_def)
  then show ?thesis using s1(1) s3 by (intro exI [of _ ?s] exI [of _ s1] exI [of _ s2] exI [of _ s3] conjI) simp_all
qed

end
