(* ===== verification/Timespec.thy ===== *)
theory Timespec
  imports Prelude
begin

text \<open>
  Times of the example applications (\<open>struct timespec\<close>; \<open>timespec_add\<close>, \<open>timespec_sub\<close> and \<open>wait_time\<close>
  of \<open>apps/pktgen/main.c\<close>): seconds and nanoseconds are signed 64-bit numbers. The readings of the
  clock are a parameter.
\<close>

subsection \<open>Signed arithmetic without overflow\<close>

definition s64 :: "int \<Rightarrow> bool" where
  "s64 x \<longleftrightarrow> - (2 ^ 63) \<le> x \<and> x < 2 ^ 63"

lemma s64_self: "s64 x \<Longrightarrow> signed_take_bit 63 x = x"
  by (simp add: s64_def signed_take_bit_int_eq_self)

lemma sint_add: "s64 (sint a + sint b) \<Longrightarrow> sint (a + b) = sint a + sint b" for a b :: "64 word"
  using s64_self by (simp add: sint_word_ariths(1))

lemma sint_sub: "s64 (sint a - sint b) \<Longrightarrow> sint (a - b) = sint a - sint b" for a b :: "64 word"
  using s64_self by (simp add: sint_word_ariths(2))

lemma s64_mid: "- (2 ^ 62) - 2 \<le> x \<Longrightarrow> x \<le> 2 ^ 62 + 2 \<Longrightarrow> s64 x"
  by (simp add: s64_def)

subsection \<open>Times\<close>

record timespec =
  tv_sec :: u64
  tv_nsec :: u64

definition timespec_add :: "timespec \<Rightarrow> timespec \<Rightarrow> timespec" where
  "timespec_add a b =
     (let ret = \<lparr>tv_sec = tv_sec a + tv_sec b, tv_nsec = tv_nsec a + tv_nsec b\<rparr>
      in if 1000000000 \<le> sint (tv_nsec ret)
         then \<lparr>tv_sec = tv_sec ret + 1, tv_nsec = tv_nsec ret - 1000000000\<rparr> else ret)"

definition timespec_sub :: "timespec \<Rightarrow> timespec \<Rightarrow> timespec" where
  "timespec_sub a b =
     (let ret = \<lparr>tv_sec = tv_sec a - tv_sec b, tv_nsec = tv_nsec a - tv_nsec b\<rparr>
      in if sint (tv_nsec ret) < 0
         then \<lparr>tv_sec = tv_sec ret - 1, tv_nsec = tv_nsec ret + 1000000000\<rparr> else ret)"

text \<open>
  The busy wait: \<open>clock k\<close> is the \<open>k\<close>-th reading. The result is the reading that ended the wait
  and the number of the next one.
\<close>

partial_function (option) wait_time ::
  "(nat \<Rightarrow> timespec) \<Rightarrow> timespec \<Rightarrow> nat \<Rightarrow> (timespec \<times> nat) option" where
  "wait_time clock ts k =
     (let cur = clock k; w = timespec_sub ts cur
      in if sint (tv_sec w) < 0 then Some (cur, Suc k) else wait_time clock ts (Suc k))"

subsection \<open>Times as numbers of nanoseconds\<close>

definition nanos :: "timespec \<Rightarrow> int" where
  "nanos t = sint (tv_sec t) * 1000000000 + sint (tv_nsec t)"

text \<open>A normal time: less than a second of nanoseconds, and seconds far from overflow.\<close>

definition normal :: "timespec \<Rightarrow> bool" where
  "normal t \<longleftrightarrow> 0 \<le> sint (tv_nsec t) \<and> sint (tv_nsec t) < 1000000000"

definition in_range :: "timespec \<Rightarrow> bool" where
  "in_range t \<longleftrightarrow> - (2 ^ 61) \<le> sint (tv_sec t) \<and> sint (tv_sec t) \<le> 2 ^ 61"

lemma sint_eq_iff: "a = b \<longleftrightarrow> sint a = sint b" for a b :: "64 word"
  by (rule word_eq_iff_signed)

text \<open>Times are ordered by their seconds, then by their nanoseconds.\<close>

instantiation timespec_ext :: (linorder) linorder
begin

definition less_timespec_ext :: "'a timespec_ext \<Rightarrow> 'a timespec_ext \<Rightarrow> bool" where
  "less_timespec_ext s t \<longleftrightarrow> sint (tv_sec s) < sint (tv_sec t) \<or> tv_sec s = tv_sec t \<and>
     (sint (tv_nsec s) < sint (tv_nsec t) \<or> tv_nsec s = tv_nsec t \<and> timespec.more s < timespec.more t)"

definition less_eq_timespec_ext :: "'a timespec_ext \<Rightarrow> 'a timespec_ext \<Rightarrow> bool" where
  "less_eq_timespec_ext s t \<longleftrightarrow> s < t \<or> s = t"

instance
proof
  fix r s t :: "'a timespec_ext"
  show "s < t \<longleftrightarrow> s \<le> t \<and> \<not> t \<le> s" "s \<le> s"
    by (auto simp: less_timespec_ext_def less_eq_timespec_ext_def)
  show "r \<le> s \<Longrightarrow> s \<le> t \<Longrightarrow> r \<le> t" "s \<le> t \<Longrightarrow> t \<le> s \<Longrightarrow> s = t"
    by (auto simp: less_timespec_ext_def less_eq_timespec_ext_def)
  show "s \<le> t \<or> t \<le> s"
    by (cases s; cases t) (auto simp: less_timespec_ext_def less_eq_timespec_ext_def sint_eq_iff)
qed

end

text \<open>On normal times it is the order of the nanoseconds.\<close>

lemma less_nanos: "normal s \<Longrightarrow> normal t \<Longrightarrow> s < t \<longleftrightarrow> nanos s < nanos t" for s t :: timespec
  by (auto simp: less_timespec_ext_def normal_def nanos_def sint_eq_iff)

lemma le_nanos: "normal s \<Longrightarrow> normal t \<Longrightarrow> s \<le> t \<longleftrightarrow> nanos s \<le> nanos t" for s t :: timespec
  using less_nanos [of t s] by (simp add: not_less [symmetric])

lemma sint_second [simp]: "sint (1000000000 :: 64 word) = 1000000000" "sint (1 :: 64 word) = 1"
  by simp_all

lemma timespec_add_ok:
  assumes "normal a" "in_range a" "normal b" "in_range b"
  shows "normal (timespec_add a b)" "nanos (timespec_add a b) = nanos a + nanos b"
proof -
  let ?s = "tv_sec a + tv_sec b" and ?n = "tv_nsec a + tv_nsec b"
  have n: "sint ?n = sint (tv_nsec a) + sint (tv_nsec b)"
    using assms by (intro sint_add s64_mid) (auto simp: normal_def)
  have s: "sint ?s = sint (tv_sec a) + sint (tv_sec b)"
    using assms by (intro sint_add s64_mid) (auto simp: in_range_def)
  have s1: "sint (?s + 1) = sint ?s + 1"
    using assms unfolding s by (subst sint_add) (auto simp: s in_range_def intro: s64_mid)
  have n1: "sint (?n - 1000000000) = sint ?n - 1000000000"
    using assms by (subst sint_sub) (auto simp: n normal_def intro: s64_mid)
  show "normal (timespec_add a b)"
    using assms n1 n by (auto simp: timespec_add_def Let_def normal_def)
  show "nanos (timespec_add a b) = nanos a + nanos b"
    using s s1 n n1 by (auto simp: timespec_add_def Let_def nanos_def algebra_simps)
qed

lemma timespec_sub_ok:
  assumes "normal a" "in_range a" "normal b" "in_range b"
  shows "normal (timespec_sub a b)" "nanos (timespec_sub a b) = nanos a - nanos b"
proof -
  let ?s = "tv_sec a - tv_sec b" and ?n = "tv_nsec a - tv_nsec b"
  have n: "sint ?n = sint (tv_nsec a) - sint (tv_nsec b)"
    using assms by (intro sint_sub s64_mid) (auto simp: normal_def)
  have s: "sint ?s = sint (tv_sec a) - sint (tv_sec b)"
    using assms by (intro sint_sub s64_mid) (auto simp: in_range_def)
  have s1: "sint (?s - 1) = sint ?s - 1"
    using assms unfolding s by (subst sint_sub) (auto simp: s in_range_def intro: s64_mid)
  have n1: "sint (?n + 1000000000) = sint ?n + 1000000000"
    using assms by (subst sint_add) (auto simp: n normal_def intro: s64_mid)
  show "normal (timespec_sub a b)"
    using assms n1 n by (auto simp: timespec_sub_def Let_def normal_def)
  show "nanos (timespec_sub a b) = nanos a - nanos b"
    using s s1 n n1 by (auto simp: timespec_sub_def Let_def nanos_def algebra_simps)
qed

lemma normal_negative: "normal t \<Longrightarrow> sint (tv_sec t) < 0 \<longleftrightarrow> nanos t < 0"
  by (auto simp: normal_def nanos_def)

subsection \<open>The busy wait\<close>

text \<open>The wait ends at the first reading that is later than the given time, and only there.\<close>

lemma wait_time_step:
  assumes "normal ts" "in_range ts" "normal (clock k)" "in_range (clock k)"
  shows "wait_time clock ts k =
    (if nanos ts < nanos (clock k) then Some (clock k, Suc k) else wait_time clock ts (Suc k))"
proof -
  have "sint (tv_sec (timespec_sub ts (clock k))) < 0 \<longleftrightarrow> nanos ts < nanos (clock k)"
    using timespec_sub_ok [OF assms] normal_negative by fastforce
  then show ?thesis by (subst wait_time.simps) (simp add: Let_def)
qed

lemma wait_time_until:
  assumes "normal ts" "in_range ts" "\<And>k. normal (clock k) \<and> in_range (clock k)"
    and "\<And>j. i \<le> j \<Longrightarrow> j < i + n \<Longrightarrow> nanos (clock j) \<le> nanos ts"
  shows "wait_time clock ts i = wait_time clock ts (i + n)"
  using assms(4)
proof (induction n arbitrary: i)
  case (Suc n)
  have "wait_time clock ts i = wait_time clock ts (Suc i)"
    using Suc.prems [of i] wait_time_step [OF assms(1,2)] assms(3) by simp
  also have "\<dots> = wait_time clock ts (Suc i + n)"
    by (rule Suc.IH) (use Suc.prems in simp)
  finally show ?case by simp
qed simp

lemma wait_time_least:
  assumes "normal ts" "in_range ts" "\<And>k. normal (clock k) \<and> in_range (clock k)"
    and "i \<le> j" "nanos ts < nanos (clock j)" "\<And>k. i \<le> k \<Longrightarrow> k < j \<Longrightarrow> nanos (clock k) \<le> nanos ts"
  shows "wait_time clock ts i = Some (clock j, Suc j)"
proof -
  have "wait_time clock ts i = wait_time clock ts (i + (j - i))"
    by (rule wait_time_until [OF assms(1-3)]) (use assms(4,6) in auto)
  then show ?thesis
    using wait_time_step [OF assms(1,2)] assms(3-5) by simp
qed

lemma wait_time_never:
  assumes "normal ts" "in_range ts" "\<And>k. normal (clock k) \<and> in_range (clock k)"
    and "\<And>j. i \<le> j \<Longrightarrow> nanos (clock j) \<le> nanos ts"
  shows "wait_time clock ts i = None"
proof (rule ccontr)
  assume "wait_time clock ts i \<noteq> None"
  then obtain y where "wait_time clock ts i = Some y" by blast
  then have "\<exists>j \<ge> i. sint (tv_sec (timespec_sub ts (clock j))) < 0"
  proof (rule wait_time.raw_induct [rotated])
    fix f :: "(nat \<Rightarrow> timespec) \<Rightarrow> timespec \<Rightarrow> nat \<Rightarrow> (timespec \<times> nat) option"
    fix clock ts k y
    assume IH: "\<And>clock ts k y. f clock ts k = Some y \<Longrightarrow> \<exists>j \<ge> k. sint (tv_sec (timespec_sub ts (clock j))) < 0"
      and step: "(let cur = clock k; w = timespec_sub ts cur
        in if sint (tv_sec w) < 0 then Some (cur, Suc k) else f clock ts (Suc k)) = Some y"
    show "\<exists>j \<ge> k. sint (tv_sec (timespec_sub ts (clock j))) < 0"
    proof (cases "sint (tv_sec (timespec_sub ts (clock k))) < 0")
      case False
      then have "f clock ts (Suc k) = Some y" using step by (simp add: Let_def)
      from IH [OF this] show ?thesis using Suc_leD by blast
    qed blast
  qed
  then obtain j where j: "i \<le> j" "sint (tv_sec (timespec_sub ts (clock j))) < 0" by blast
  have "nanos ts < nanos (clock j)"
    using j(2) timespec_sub_ok [OF assms(1,2)] normal_negative assms(3) by fastforce
  then show False using assms(4) [OF j(1)] by simp
qed

lemma wait_time_first:
  assumes "normal ts" "in_range ts" "\<And>k. normal (clock k) \<and> in_range (clock k)"
    and ex: "\<exists>j \<ge> i. nanos ts < nanos (clock j)"
  shows "\<exists>j \<ge> i. wait_time clock ts i = Some (clock j, Suc j) \<and> nanos ts < nanos (clock j) \<and>
    (\<forall>k. i \<le> k \<and> k < j \<longrightarrow> nanos (clock k) \<le> nanos ts)"
proof -
  define j where "j = (LEAST j. i \<le> j \<and> nanos ts < nanos (clock j))"
  have j: "i \<le> j \<and> nanos ts < nanos (clock j)" unfolding j_def by (rule LeastI_ex) (use ex in blast)
  have least: "nanos (clock k) \<le> nanos ts" if "i \<le> k" "k < j" for k
    using not_less_Least [OF that(2) [unfolded j_def]] that(1) by force
  then show ?thesis
    using wait_time_least [OF assms(1-3), of i j] j by (intro exI [of _ j]) simp
qed

lemma wait_time_ends:
  assumes "normal ts" "in_range ts" "\<And>k. normal (clock k) \<and> in_range (clock k)"
  shows "wait_time clock ts i \<noteq> None \<longleftrightarrow> (\<exists>j \<ge> i. nanos ts < nanos (clock j))"
proof
  assume ret: "wait_time clock ts i \<noteq> None"
  show "\<exists>j \<ge> i. nanos ts < nanos (clock j)"
  proof (rule ccontr)
    assume "\<not> (\<exists>j \<ge> i. nanos ts < nanos (clock j))"
    then have "nanos (clock j) \<le> nanos ts" if "i \<le> j" for j using that not_le by blast
    then show False using wait_time_never [OF assms] ret by simp
  qed
next
  assume "\<exists>j \<ge> i. nanos ts < nanos (clock j)"
  from wait_time_first [OF assms this] show "wait_time clock ts i \<noteq> None" by force
qed

text \<open>A clock whose readings are all normal and far from an overflow.\<close>

definition readable :: "(nat \<Rightarrow> timespec) \<Rightarrow> bool" where
  "readable clock \<longleftrightarrow> (\<forall>k. normal (clock k) \<and> in_range (clock k))"

end
