(* ===== verification/Apps.thy ===== *)
theory Apps
  imports Socket_Runs Timespec Decimal
begin

text \<open>
  What the two example applications share: opening and binding a socket, addresses as bytes in
  memory, and the conversions of C between integers. The applications' globals are records; what
  the environment yields (the flag \<open>app_alive\<close>, the clock, the packets and signals that a
  \<open>udpdk_recvfrom\<close> sees) is a parameter indexed by the number of the reading.
\<close>

subsection \<open>Integers and addresses\<close>

text \<open>Conversion of a 64-bit result to \<open>int\<close>, and the range of \<open>int\<close>.\<close>

definition to_int :: "int \<Rightarrow> int" where
  "to_int r = signed_take_bit 31 r"

definition int_range :: "int \<Rightarrow> bool" where
  "int_range x \<longleftrightarrow> - (2 ^ 31) \<le> x \<and> x < 2 ^ 31"

lemma to_int_self: "int_range r \<Longrightarrow> to_int r = r"
  by (simp add: to_int_def int_range_def signed_take_bit_int_eq_self)

text \<open>\<open>inet_addr("172.31.100.1")\<close> on a little-endian machine, and a \<open>struct sockaddr_in\<close> read back.\<close>

definition IP_PEER :: u32 where "IP_PEER = word32 [172, 31, 100, 1]"

definition sockaddr_of :: "u8 list \<Rightarrow> sockaddr_in" where
  "sockaddr_of xs = \<lparr>sin_family = word16 xs, sin_port = word16 (drop 2 xs), sin_addr = word32 (drop 4 xs)\<rparr>"

definition peer :: "u16 \<Rightarrow> sockaddr_in" where
  "peer port = \<lparr>sin_family = ucast AF_INET, sin_port = bswap16 port, sin_addr = IP_PEER\<rparr>"

subsection \<open>Opening a socket\<close>

text \<open>\<open>None\<close> as the descriptor: the socket could not be created or bound, and the body returns.\<close>

definition app_socket :: "u16 \<Rightarrow> 'a sstate_scheme \<Rightarrow> (u32 option \<times> 'a sstate_scheme) option" where
  "app_socket port s =
     (let (sock, s) = udpdk_socket AF_INET SOCK_DGRAM 0 s
      in if sock < 0 then Some (None, s)
         else do {
           (r, s) \<leftarrow> udpdk_bind (of_int sock)
             (Some \<lparr>sin_family = ucast AF_INET, sin_port = bswap16 port, sin_addr = INADDR_ANY\<rparr>)
             (of_nat sizeof_sockaddr_in) s;
           Some (if r < 0 then None else Some (of_int sock), s) })"

subsection \<open>The loop of a body\<close>

text \<open>
  \<open>while (app_alive)\<close>: \<open>alive i\<close> is the \<open>i\<close>-th reading of the flag, \<open>body i\<close> what is done after it.
  The bodies of the applications are loops of this form.
\<close>

partial_function (option) app_loop ::
  "(nat \<Rightarrow> bool) \<Rightarrow> (nat \<Rightarrow> 's \<Rightarrow> 's option) \<Rightarrow> nat \<Rightarrow> 's \<Rightarrow> 's option" where
  "app_loop alive body i z =
     (if \<not> alive i then Some z
      else do {
        z \<leftarrow> body i z;
        app_loop alive body (Suc i) z })"

lemma app_loop_dead: "\<not> alive i \<Longrightarrow> app_loop alive body i x = Some x"
  by (subst app_loop.simps) simp

lemma app_loop_alive: "alive i \<Longrightarrow> app_loop alive body i x = body i x \<bind> app_loop alive body (Suc i)"
  by (subst app_loop.simps) simp

text \<open>What every round keeps holds when the loop ends.\<close>

lemma app_loop_invariant:
  fixes P :: "'s \<Rightarrow> bool"
  assumes loop: "app_loop alive body i x = Some x'" and "P x"
    and keep: "\<And>j x x'. P x \<Longrightarrow> body j x = Some x' \<Longrightarrow> P x'"
  shows "P x'"
proof -
  from loop have "(\<forall>j x x'. P x \<longrightarrow> body j x = Some x' \<longrightarrow> P x') \<longrightarrow> P x \<longrightarrow> P x'"
  proof (rule app_loop.raw_induct [rotated])
    fix f :: "(nat \<Rightarrow> bool) \<Rightarrow> (nat \<Rightarrow> 's \<Rightarrow> 's option) \<Rightarrow> nat \<Rightarrow> 's \<Rightarrow> 's option" and alive body i x y
    assume IH: "\<And>alive body i x y. f alive body i x = Some y \<Longrightarrow> (\<forall>j x x'. P x \<longrightarrow> body j x = Some x' \<longrightarrow> P x') \<longrightarrow> P x \<longrightarrow> P y"
      and step: "(if \<not> alive i then Some x else do { x \<leftarrow> body i x; f alive body (Suc i) x }) = Some y"
    show "(\<forall>j x x'. P x \<longrightarrow> body j x = Some x' \<longrightarrow> P x') \<longrightarrow> P x \<longrightarrow> P y"
    proof (cases "alive i")
      case True
      then obtain x1 where "body i x = Some x1" "f alive body (Suc i) x1 = Some y"
        using step by (auto simp: bind_eq_Some_conv)
      then show ?thesis using IH [of alive body "Suc i" x1 y] by blast
    qed (use step in simp)
  qed
  then show ?thesis using assms(2) keep by blast
qed

subsection \<open>Properties of the shared parts\<close>

lemma sockaddr_of_bytes: "sockaddr_of (sockaddr_bytes port addr) = \<lparr>sin_family = ucast AF_INET, sin_port = port, sin_addr = addr\<rparr>"
  by (simp add: sockaddr_of_def sockaddr_bytes_def length_bytes)

text \<open>The socket that the applications open: the lowest free one, bound to the wildcard.\<close>

lemma app_socket_done:
  assumes inv: "sock_inv s" and n: "n_zones_active s \<le> of_nat NUM_SOCKETS_MAX"
    and free: "i < NUM_SOCKETS_MAX" "used (slots s i) = 0" "\<And>j. j < i \<Longrightarrow> used (slots s j) \<noteq> 0"
    and c: "list_all (compatible INADDR_ANY 0) (bindings s (bswap16 port))"
  shows "\<exists>s'. app_socket port s = Some (Some (of_nat i), s') \<and> sock_inv s' \<and>
    used (slots s' i) = 1 \<and> bound (slots s' i) = 1 \<and> udp_port (slots s' i) = ucast (bswap16 port) \<and>
    ip_addr (slots s' i) = INADDR_ANY \<and> (\<forall>j. j \<noteq> i \<longrightarrow> slots s' j = slots s j) \<and> sstate.more s' = sstate.more s \<and>
    bindings s' = (bindings s)(bswap16 port := insert_binding (new_info (of_nat i) INADDR_ANY 0) (bindings s (bswap16 port)))"
proof -
  let ?a = "\<lparr>sin_family = ucast AF_INET, sin_port = bswap16 port, sin_addr = INADDR_ANY\<rparr>"
  have "\<exists>i < NUM_SOCKETS_MAX. used (slots s i) = 0" using free(1,2) by blast
  then obtain k where k: "udpdk_socket AF_INET SOCK_DGRAM 0 s = (int k, s\<lparr>slots := (slots s)(k := open_slot k (slots s k)),
      n_zones_active := n_zones_active s + 1\<rparr>)" "used (slots s k) = 0" "\<forall>j < k. used (slots s j) \<noteq> 0"
    using udpdk_socket_cases [where protocol = 0, OF refl refl _ n] by auto
  have ki: "k = i" using k(2,3) free(2,3) by (meson linorder_neqE_nat)
  let ?s = "s\<lparr>slots := (slots s)(i := open_slot i (slots s i)), n_zones_active := n_zones_active s + 1\<rparr>"
  have inv1: "sock_inv ?s" using sock_inv_open [OF inv free(1,2)] by simp
  have u: "unat (of_nat i :: u32) = i" using free(1) by (simp add: NUM_SOCKETS_MAX_def unat_of_nat)
  have fd: "unat (of_nat i :: u32) < NUM_SOCKETS_MAX" using free(1) u by simp
  have sl: "slots ?s (unat (of_nat i :: u32)) = open_slot i (slots s i)" unfolding u by simp
  have ga: "good_addr ?a (of_nat sizeof_sockaddr_in)" by (simp add: good_addr_def AF_INET_def)
  have "list_all (compatible (sin_addr ?a) (so_options (slots ?s (unat (of_nat i :: u32))))) (bindings ?s (sin_port ?a))"
    unfolding sl using c by (simp add: open_slot_def)
  then obtain s' where s': "udpdk_bind (of_nat i) (Some ?a) (of_nat sizeof_sockaddr_in) ?s = Some (0, s')" "sock_inv s'"
      "slots s' = (slots ?s)(i := bound_slot ?a (open_slot i (slots s i)))" "sstate.more s' = sstate.more ?s"
      "bindings s' = (bindings ?s)(sin_port ?a := insert_binding (new_info (of_nat i) (sin_addr ?a) 0) (bindings ?s (sin_port ?a)))"
    using udpdk_bind_done [OF inv1 fd _ _ ga] unfolding sl unfolding u by (auto simp: open_slot_def)
  have "app_socket port s = Some (Some (of_nat i), s')"
    using k(1) s'(1) by (simp add: app_socket_def ki)
  then show ?thesis using s'(2-5) by (intro exI [of _ s']) (simp add: bound_slot_def open_slot_def)
qed

end
