(* ===== verification/Pktgen.thy ===== *)
theory Pktgen
  imports Apps
begin

text \<open>
  The packet generator (\<open>apps/pktgen/main.c\<close>): its arguments, the bodies of the sender and the
  receiver, and the statistics. Log messages are left out. \<open>None\<close> is an outcome that is not
  defined, or a loop that does not end.
\<close>

subsection \<open>State\<close>

record stats_t =
  pkts_sent :: u64
  pkts_recv :: u64
  pkts_sent_prev :: u64
  pkts_recv_prev :: u64
  bytes_sent :: u64
  bytes_recv :: u64
  bytes_sent_prev :: u64
  bytes_recv_prev :: u64

datatype pktgen_mode = SEND | RECV

text \<open>The globals; \<open>log_open\<close> is whether \<open>log\<close> is not \<open>NULL\<close>.\<close>

record pktgen =
  mode :: pktgen_mode
  pktlen :: u32
  hdr_stats :: bool
  dump :: bool
  tx_rate :: u64
  log_enabled :: bool
  log_file :: string
  log_open :: bool

definition pktgen_globals :: pktgen where
  "pktgen_globals = \<lparr>mode = SEND, pktlen = 64, hdr_stats = False, dump = False, tx_rate = 0,
     log_enabled = False, log_file = [], log_open = False\<rparr>"

definition PORT_SEND :: u16 where "PORT_SEND = 10000"
definition PORT_RECV :: u16 where "PORT_RECV = 10001"
definition HDR_BYTES :: u64 where "HDR_BYTES = 14 + 20 + 8"

text \<open>The payload: an array of 2048 characters, with zeros behind the text if it is shorter.\<close>

definition mydata_text :: string where
  "mydata_text =
     ''Lorem ipsum dolor sit amet, consectetur adipiscing elit. Aliquam varius semper faucibus.'' @
     '' Vivamus consectetur pharetra massa. Nam at tellus semper, eleifend tellus elementum, pu'' @
     ''lvinar odio. Ut accumsan ligula ac ex rhoncus, nec pretium urna pharetra. Suspendisse po'' @
     ''tenti. Duis vel enim vel tellus dictum vehicula eu vitae elit. Etiam at lacus varius dia'' @
     ''m rutrum accumsan quis sed velit. Nulla tortor mi, congue sit amet malesuada sit amet, p'' @
     ''ellentesque ac mi. Nunc feugiat mi vitae turpis elementum maximus. Sed malesuada mi ac r'' @
     ''honcus condimentum. Nunc venenatis, libero a pharetra molestie, risus orci tempus arcu, '' @
     ''sit amet molestie ipsum purus ac urna. Nunc nec ligula massa. Aenean ut libero ut erat t'' @
     ''incidunt aliquet.Praesent consequat, dui nec pellentesque dapibus, lorem orci placerat s'' @
     ''em, consectetur egestas metus lacus eu purus. Sed scelerisque, lorem nec euismod laoreet'' @
     '', sem tellus tincidunt lorem, eu faucibus tortor massa at sapien. Maecenas commodo conse'' @
     ''ctetur leo, non rhoncus sem ullamcorper ut. Proin in purus quis ante posuere rutrum sed '' @
     ''ut nisl. Etiam pretium egestas purus sed egestas. Vivamus ut suscipit neque. Donec eleif'' @
     ''end magna ut mauris pellentesque, ut lobortis neque pharetra. Phasellus vel erat condime'' @
     ''ntum diam vulputate rhoncus nec eu lacus. Suspendisse condimentum, magna eu pulvinar por'' @
     ''ta, nisi ligula accumsan urna, a suscipit turpis ex a elit. Proin ipsum dolor, ultrices '' @
     ''at luctus eu, sagittis ac ligula.Etiam faucibus mauris et efficitur maximus. Proin fring'' @
     ''illa fringilla volutpat. Lorem ipsum dolor sit amet, consectetur adipiscing elit. Morbi '' @
     ''velit elit, convallis et maximus a, placerat non nisl. Duis porttitor convallis odio. In'' @
     ''teger aliquam aliquam tortor non blandit. Duis nec tortor suscipit, viverra felis nec, l'' @
     ''aoreet ex. Lorem ipsum dolor sit amet, consectetur adipiscing elit. Fusce viverra nulla '' @
     ''ut interdum dapibus. Cras vulputate luctus tellus, ut elementum quam gravida ut. Donec p'' @
     ''ulvinar nunc molestie turpis ullamcorper, at interdum magna molestie. Aenean pellentesqu'' @
     ''e felis quis blandit in.''"

definition mydata :: "u8 list" where
  "mydata = take 2048 (map of_char mydata_text @ replicate 2048 0)"

subsection \<open>Arguments\<close>

text \<open>
  The results of \<open>getopt\<close> before its end are a list of an option and its argument; \<open>fopen\<close> tells
  whether the file can be opened.
\<close>

definition pktgen_option :: "(string \<Rightarrow> bool) \<Rightarrow> char \<Rightarrow> string \<Rightarrow> pktgen \<Rightarrow> (int \<times> pktgen) option" where
  "pktgen_option fopen c optarg a =
     (if c = CHR ''c'' then Some (0, a)
      else if c = CHR ''f'' then
        Some (if optarg = ''send'' then (0, a\<lparr>mode := SEND\<rparr>)
              else if optarg = ''recv'' then (0, a\<lparr>mode := RECV\<rparr>) else (-1, a))
      else if c = CHR ''r'' then do { v \<leftarrow> atoi optarg; Some (0, a\<lparr>tx_rate := word_of_int v\<rparr>) }
      else if c = CHR ''s'' then do { v \<leftarrow> atoi optarg; Some (0, a\<lparr>pktlen := word_of_int v\<rparr>) }
      else if c = CHR ''l'' then Some (0, a\<lparr>log_enabled := True, log_file := optarg, log_open := fopen optarg\<rparr>)
      else if c = CHR ''h'' then Some (0, a\<lparr>hdr_stats := True\<rparr>)
      else if c = CHR ''d'' then Some (0, a\<lparr>dump := True\<rparr>)
      else Some (-1, a))"

fun pktgen_args :: "(string \<Rightarrow> bool) \<Rightarrow> (char \<times> string) list \<Rightarrow> pktgen \<Rightarrow> (int \<times> pktgen) option" where
  "pktgen_args fopen [] a = Some (0, a)"
| "pktgen_args fopen ((c, optarg) # os) a = do {
     (r, a) \<leftarrow> pktgen_option fopen c optarg a;
     if r < 0 then Some (-1, a) else pktgen_args fopen os a }"

subsection \<open>The sender\<close>

text \<open>The quotient is at most a second, so that the signed divisions that follow it are these.\<close>

definition tx_period :: "pktgen \<Rightarrow> timespec" where
  "tx_period a =
     (if 0 < tx_rate a
      then let x = 1000000000 div tx_rate a
           in \<lparr>tv_sec = x div 1000000000, tv_nsec = x mod 1000000000\<rparr>
      else \<lparr>tv_sec = 0, tv_nsec = 0\<rparr>)"

definition count_sent :: "pktgen \<Rightarrow> int \<Rightarrow> stats_t \<Rightarrow> stats_t" where
  "count_sent a ret cnt =
     (if 0 < ret
      then let cnt = cnt\<lparr>pkts_sent := pkts_sent cnt + 1, bytes_sent := bytes_sent cnt + of_int ret\<rparr>
           in if hdr_stats a then cnt\<lparr>bytes_sent := bytes_sent cnt + HDR_BYTES\<rparr> else cnt
      else cnt)"

text \<open>
  One round: \<open>k\<close> counts the readings of the clock. The length is converted from \<open>int\<close> to \<open>size_t\<close>, the
  result of \<open>udpdk_sendto\<close> to \<open>int\<close>.
\<close>

definition send_round ::
  "('r, 'm, 'z) dpdk_scheme \<Rightarrow> configuration \<Rightarrow> (nat \<Rightarrow> timespec) \<Rightarrow> pktgen \<Rightarrow> u32 \<Rightarrow>
    nat \<times> timespec \<times> stats_t \<times> ('r, 'm, 'a) dstate_scheme \<Rightarrow>
    (nat \<times> timespec \<times> stats_t \<times> ('r, 'm, 'a) dstate_scheme) option" where
  "send_round ops cfg clock a sock = (\<lambda>(k, t_next, cnt, s). do {
     (t_next, k) \<leftarrow> (if 0 < tx_rate a then do {
         let t = timespec_add t_next (tx_period a);
         (_, k) \<leftarrow> wait_time clock t k;
         Some (t, k) }
       else Some (t_next, k));
     (ret, s) \<leftarrow> udpdk_sendto ops cfg sock mydata (scast (pktlen a)) 0 (Some (peer PORT_RECV))
       (of_nat sizeof_sockaddr_in) s;
     Some (k, t_next, count_sent a (to_int ret) cnt, s) })"

definition send_loop ::
  "('r, 'm, 'z) dpdk_scheme \<Rightarrow> configuration \<Rightarrow> (nat \<Rightarrow> bool) \<Rightarrow> (nat \<Rightarrow> timespec) \<Rightarrow> pktgen \<Rightarrow> u32 \<Rightarrow>
    nat \<Rightarrow> nat \<Rightarrow> timespec \<Rightarrow> stats_t \<Rightarrow> ('r, 'm, 'a) dstate_scheme \<Rightarrow> (stats_t \<times> ('r, 'm, 'a) dstate_scheme) option" where
  "send_loop ops cfg alive clock a sock i k t_next cnt s = do {
     (_, _, cnt, s) \<leftarrow> app_loop alive (\<lambda>_. send_round ops cfg clock a sock) i (k, t_next, cnt, s);
     Some (cnt, s) }"

text \<open>Without a rate the time of the next packet is not read.\<close>

definition send_body ::
  "('r, 'm, 'z) dpdk_scheme \<Rightarrow> configuration \<Rightarrow> (nat \<Rightarrow> bool) \<Rightarrow> (nat \<Rightarrow> timespec) \<Rightarrow> pktgen \<Rightarrow>
    stats_t \<Rightarrow> ('r, 'm, 'a) dstate_scheme \<Rightarrow> (stats_t \<times> ('r, 'm, 'a) dstate_scheme) option" where
  "send_body ops cfg alive clock a cnt s = do {
     (sock, s) \<leftarrow> app_socket PORT_SEND s;
     case sock of
       None \<Rightarrow> Some (cnt, s)
     | Some sock \<Rightarrow> send_loop ops cfg alive clock a sock 0 (if 0 < tx_rate a then 1 else 0) (clock 0) cnt s }"

subsection \<open>The receiver\<close>

definition count_recv :: "pktgen \<Rightarrow> int \<Rightarrow> stats_t \<Rightarrow> stats_t" where
  "count_recv a n cnt =
     (let cnt = cnt\<lparr>pkts_recv := pkts_recv cnt + 1, bytes_recv := bytes_recv cnt + of_int n\<rparr>
      in if hdr_stats a then cnt\<lparr>bytes_recv := bytes_recv cnt + HDR_BYTES\<rparr> else cnt)"

text \<open>
  One round of the loop; \<open>buf\<close> and \<open>cliaddr\<close> are the bytes of the local variables. Dumping ends the
  payload with a zero, which is behind the array when the payload fills it.
\<close>

definition recv_round ::
  "('r, 'm, 'z) dpdk_scheme \<Rightarrow> (nat \<Rightarrow> bool) \<Rightarrow> (nat \<Rightarrow> packet option) \<Rightarrow> pktgen \<Rightarrow> u32 \<Rightarrow> u8 list \<Rightarrow> u8 list \<Rightarrow>
    stats_t \<Rightarrow> ('r, 'm, 'a) dstate_scheme \<Rightarrow> (u8 list \<times> u8 list \<times> stats_t \<times> ('r, 'm, 'a) dstate_scheme) option" where
  "recv_round ops intr deq a sock buf cliaddr cnt s = do {
     (n, buf, cliaddr, _, s) \<leftarrow> udpdk_recvfrom ops intr deq sock (Some buf) 2048 0 (Some cliaddr)
       (Some (of_nat sizeof_sockaddr_in)) s;
     buf \<leftarrow> buf;
     cliaddr \<leftarrow> cliaddr;
     let n = to_int n;
     if 0 < n then do {
       let cnt = count_recv a n cnt;
       if dump a then (if nat n < length buf then Some (buf[nat n := 0], cliaddr, cnt, s) else None)
       else Some (buf, cliaddr, cnt, s) }
     else Some (buf, cliaddr, cnt, s) }"

text \<open>\<open>env i\<close> is what the \<open>i\<close>-th \<open>udpdk_recvfrom\<close> sees of signals and of its ring.\<close>

definition recv_loop ::
  "('r, 'm, 'z) dpdk_scheme \<Rightarrow> (nat \<Rightarrow> bool) \<Rightarrow> (nat \<Rightarrow> (nat \<Rightarrow> bool) \<times> (nat \<Rightarrow> packet option)) \<Rightarrow> pktgen \<Rightarrow> u32 \<Rightarrow>
    nat \<Rightarrow> u8 list \<Rightarrow> u8 list \<Rightarrow> stats_t \<Rightarrow> ('r, 'm, 'a) dstate_scheme \<Rightarrow> (stats_t \<times> ('r, 'm, 'a) dstate_scheme) option" where
  "recv_loop ops alive env a sock i buf cliaddr cnt s = do {
     (_, _, cnt, s) \<leftarrow> app_loop alive
       (\<lambda>i (buf, cliaddr, cnt, s). recv_round ops (fst (env i)) (snd (env i)) a sock buf cliaddr cnt s)
       i (buf, cliaddr, cnt, s);
     Some (cnt, s) }"

text \<open>\<open>junk\<close> are the 2048 bytes that \<open>buf\<close> holds before it is written.\<close>

definition recv_body ::
  "('r, 'm, 'z) dpdk_scheme \<Rightarrow> (nat \<Rightarrow> bool) \<Rightarrow> (nat \<Rightarrow> (nat \<Rightarrow> bool) \<times> (nat \<Rightarrow> packet option)) \<Rightarrow> pktgen \<Rightarrow>
    u8 list \<Rightarrow> stats_t \<Rightarrow> ('r, 'm, 'a) dstate_scheme \<Rightarrow> (stats_t \<times> ('r, 'm, 'a) dstate_scheme) option" where
  "recv_body ops alive env a junk cnt s = do {
     (sock, s) \<leftarrow> app_socket PORT_RECV s;
     case sock of
       None \<Rightarrow> Some (cnt, s)
     | Some sock \<Rightarrow> recv_loop ops alive env a sock 0 junk (replicate 16 0) cnt s }"

subsection \<open>Statistics\<close>

definition reset_stats :: "stats_t \<Rightarrow> stats_t" where
  "reset_stats cnt = cnt\<lparr>pkts_sent := 0, pkts_recv := 0, pkts_sent_prev := 0, pkts_recv_prev := 0,
     bytes_sent := 0, bytes_recv := 0, bytes_sent_prev := 0, bytes_recv_prev := 0\<rparr>"

text \<open>
  One round of the thread: the eight numbers of the line, in their order, and the statistics
  afterwards. Printing to a log that is not open is undefined.
\<close>

definition stats_round :: "pktgen \<Rightarrow> stats_t \<Rightarrow> (u64 list \<times> stats_t) option" where
  "stats_round a cnt =
     (let tx_pps = pkts_sent cnt - pkts_sent_prev cnt;
          rx_pps = pkts_recv cnt - pkts_recv_prev cnt;
          tx_bps = (bytes_sent cnt - bytes_sent_prev cnt) * 8;
          rx_bps = (bytes_recv cnt - bytes_recv_prev cnt) * 8
      in if log_enabled a \<and> \<not> log_open a then None
         else Some ([pkts_sent cnt, tx_pps, bytes_sent cnt, tx_bps, pkts_recv cnt, rx_pps, bytes_recv cnt, rx_bps],
           cnt\<lparr>pkts_sent_prev := pkts_sent cnt, pkts_recv_prev := pkts_recv cnt,
              bytes_sent_prev := bytes_sent cnt, bytes_recv_prev := bytes_recv cnt\<rparr>))"

end
