(* ===== verification/Apps_Props.thy ===== *)
theory Apps_Props
  imports Apps
begin

text \<open>
  Lemmas that the properties of both applications share: what a call on an open and bound socket
  does, whether its packet is sent or not, and what is received of a packet that
  \<open>udpdk_sendto\<close> built.
\<close>

subsection \<open>The conversions of a length\<close>

lemma unat_small_int:
  fixes w :: u32
  assumes "0 < sint w"
  shows "unat (scast w :: u64) = nat (sint w)" "sint (scast w :: u64) = sint w"
proof -
  have s: "sint w < 2 ^ 31" using sint_lt [of w] by simp
  show i: "sint (scast w :: u64) = sint w"
    by (rule sint_up_scast) (simp add: is_up)
  have "uint (scast w :: u64) = take_bit 64 (sint w)"
    using uint_sint [of "scast w :: u64"] i by simp
  then have "uint (scast w :: u64) = sint w"
    using assms s by (simp add: take_bit_int_eq_self)
  then show "unat (scast w :: u64) = nat (sint w)"
    by (simp add: unsigned_of_int [symmetric] flip: nat_uint_eq)
qed

subsection \<open>One packet\<close>

text \<open>An open and bound socket.\<close>

definition ready_sock :: "u32 \<Rightarrow> 'a sstate_scheme \<Rightarrow> bool" where
  "ready_sock fd s \<longleftrightarrow> unat fd < NUM_SOCKETS_MAX \<and> used (slots s (unat fd)) \<noteq> 0 \<and> bound (slots s (unat fd)) \<noteq> 0"

lemma ready_same_slots: "slots s' = slots s \<Longrightarrow> ready_sock fd s' = ready_sock fd s"
  by (simp add: ready_sock_def)

text \<open>A transmit ring that takes a packet keeps its contents and puts the packet behind them.\<close>

definition tx_appends :: "('r, 'm, 'z) dpdk_scheme \<Rightarrow> ('r \<Rightarrow> packet list) \<Rightarrow> bool" where
  "tx_appends ops contents \<longleftrightarrow> (\<forall>p q q'. ring_enqueue ops p q = Some q' \<longrightarrow> contents q' = contents q @ [p])"

lemma tx_appendsD: "tx_appends ops contents \<Longrightarrow> ring_enqueue ops p q = Some q' \<Longrightarrow> contents q' = contents q @ [p]"
  by (simp add: tx_appends_def)

text \<open>A packet is sent and its length returned, or nothing is sent and the result is \<open>-1\<close>.\<close>

lemma sendto_outcome:
  assumes r: "ready_sock fd s" and al: "addrlen \<noteq> 0" and len: "unat len \<le> length buf" "42 + unat len \<le> data_room ops"
    and app: "tx_appends ops contents"
  shows "\<exists>r s'. udpdk_sendto ops cfg fd buf len 0 (Some dest) addrlen s = Some (r, s') \<and> slots s' = slots s \<and>
    (r = -1 \<and> tx_q s' = tx_q s \<or>
     r = sint len \<and> contents (tx_q s' (unat fd)) = contents (tx_q s (unat fd)) @
       [[build_packet ops cfg (slots s (unat fd)) dest len (take (unat len) buf)]])"
proof -
  have fd: "unat fd < NUM_SOCKETS_MAX" "used (slots s (unat fd)) \<noteq> 0" "bound (slots s (unat fd)) \<noteq> 0"
    using r by (simp_all add: ready_sock_def)
  show ?thesis
    unfolding udpdk_sendto_bound [OF fd al len refl]
    using tx_appendsD [OF app] by (auto split: option.split)
qed

subsection \<open>Receiving\<close>

text \<open>What a call of \<open>udpdk_recvfrom\<close> sees when the packet for a payload is the next of its ring.\<close>

definition delivers ::
  "('r, 'm, 'z) dpdk_scheme \<Rightarrow> configuration \<Rightarrow> slot_info \<Rightarrow> sockaddr_in \<Rightarrow> u8 list \<Rightarrow> (nat \<Rightarrow> bool) \<times> (nat \<Rightarrow> packet option) \<Rightarrow> bool" where
  "delivers ops cfg sl dest payload e \<longleftrightarrow> (\<exists>k. (\<forall>j < k. \<not> fst e j \<and> snd e j = None) \<and> \<not> fst e k \<and>
     snd e k = Some [build_packet ops cfg sl dest (of_nat (length payload)) payload] \<and> \<not> fst e (Suc k))"

lemma recv_built_plain:
  assumes mac: "macs_ok cfg" and len: "42 + length payload < 2 ^ 16"
    and fd: "unat fd < NUM_SOCKETS_MAX" "used (slots s (unat fd)) \<noteq> 0"
    and env: "delivers ops cfg sl dest payload e" and buf: "unat n < 2 ^ 32" "unat n \<le> length b"
  shows "udpdk_recvfrom ops (fst e) (snd e) fd (Some b) n 0 None al s =
    Some (int (min (unat n) (length payload)), Some (take (unat n) payload @ drop (min (unat n) (length payload)) b), None, al,
      s\<lparr>mbuf_pool := pktmbuf_free ops [build_packet ops cfg sl dest (of_nat (length payload)) payload] (mbuf_pool s)\<rparr>)"
proof -
  let ?len = "of_nat (length payload) :: u64"
  let ?p = "build_packet ops cfg sl dest ?len payload"
  have u: "length payload = unat ?len" using len by (simp add: unat_of_nat)
  have l16: "42 + unat ?len < 2 ^ 16" using len u by simp
  note B = build_layout [OF mac, of ops sl dest ?len payload] and P = built_payload [OF mac u l16, of ops sl dest]
  obtain k where e: "\<And>j. j < k \<Longrightarrow> \<not> fst e j \<and> snd e j = None" "\<not> fst e k" "snd e k = Some [?p]" "\<not> fst e (Suc k)"
    using env unfolding delivers_def by blast
  have w: "write_src ?p None al = Some (None, al)" by (simp add: write_src_def)
  have nb: "nb_segs ?p = of_nat (length [?p])" using B(8) by simp
  have l: "length (take (unat n) payload) = min (unat n) (length payload)" by (simp add: min.commute)
  show ?thesis
    using udpdk_recvfrom_segs [where ops = ops and intr = "fst e" and deq = "snd e",
        OF fd e P(1) nb _ B(3) w buf refl] unfolding P(2) l by simp
qed

lemma delivers_recv:
  assumes mac: "macs_ok cfg" and len: "42 + length payload < 2 ^ 16"
    and fd: "unat fd < NUM_SOCKETS_MAX" "used (slots s (unat fd)) \<noteq> 0"
    and env: "delivers ops cfg sl dest payload e" and buf: "unat n < 2 ^ 32" "unat n \<le> length b" "length sb = 16"
  shows "udpdk_recvfrom ops (fst e) (snd e) fd (Some b) n 0 (Some sb) (Some 16) s =
    Some (int (min (unat n) (length payload)), Some (take (unat n) payload @ drop (min (unat n) (length payload)) b),
      Some (sockaddr_bytes (ucast (udp_port sl)) (packet_src cfg sl)), Some 16,
      s\<lparr>mbuf_pool := pktmbuf_free ops [build_packet ops cfg sl dest (of_nat (length payload)) payload] (mbuf_pool s)\<rparr>)"
proof -
  have u: "unat (of_nat (length payload) :: u64) = length payload" using len by (simp add: unat_of_nat)
  obtain k where e: "\<forall>j < k. \<not> fst e j \<and> snd e j = None" "\<not> fst e k"
      "snd e k = Some [build_packet ops cfg sl dest (of_nat (length payload)) payload]" "\<not> fst e (Suc k)"
    using env unfolding delivers_def by blast
  show ?thesis
    using recv_built [of cfg payload "of_nat (length payload)" fd s k "fst e" "snd e" ops sl dest n b sb 16] mac len fd e buf
    by (simp add: u)
qed

subsection \<open>What sending and receiving leave alone\<close>

text \<open>The shared memory, the allocators, the table and the slots are as they were.\<close>

definition same_shared :: "'a sstate_scheme \<Rightarrow> 'a sstate_scheme \<Rightarrow> bool" where
  "same_shared s s' \<longleftrightarrow> mem s' = mem s \<and> (\<forall>K. alloc_of s' K = alloc_of s K) \<and> sock_bind_table s' = sock_bind_table s \<and>
     slots s' = slots s \<and> n_zones_active s' = n_zones_active s"

lemma same_shared_refl [simp, intro]: "same_shared s s"
  by (simp add: same_shared_def)

lemma same_shared_trans [trans]: "same_shared s t \<Longrightarrow> same_shared t u \<Longrightarrow> same_shared s u"
  by (simp add: same_shared_def)

lemma same_shared_ready: "same_shared s s' \<Longrightarrow> ready_sock fd s' = ready_sock fd s"
  by (simp add: same_shared_def ready_sock_def)

lemma same_shared_rest [simp]:
  fixes t :: "('r, 'm, 'a) dstate_scheme"
  shows "same_shared s (s\<lparr>errno := e\<rparr>)" "same_shared t (t\<lparr>mbuf_pool := p\<rparr>)" "same_shared t (t\<lparr>tx_q := q\<rparr>)"
    "same_shared t (t\<lparr>errno := e, mbuf_pool := p\<rparr>)" "same_shared t (t\<lparr>mbuf_pool := p, tx_q := q\<rparr>)"
    "same_shared t (t\<lparr>mbuf_pool := p, errno := e\<rparr>)"
proof -
  have "alloc_of (s\<lparr>errno := e\<rparr>) K = alloc_of s K" "alloc_of (t\<lparr>mbuf_pool := p\<rparr>) K = alloc_of t K"
    "alloc_of (t\<lparr>tx_q := q\<rparr>) K = alloc_of t K" "alloc_of (t\<lparr>errno := e, mbuf_pool := p\<rparr>) K = alloc_of t K"
    "alloc_of (t\<lparr>mbuf_pool := p, tx_q := q\<rparr>) K = alloc_of t K" "alloc_of (t\<lparr>mbuf_pool := p, errno := e\<rparr>) K = alloc_of t K" for K
    by (cases K; simp)+
  then show "same_shared s (s\<lparr>errno := e\<rparr>)" "same_shared t (t\<lparr>mbuf_pool := p\<rparr>)" "same_shared t (t\<lparr>tx_q := q\<rparr>)"
    "same_shared t (t\<lparr>errno := e, mbuf_pool := p\<rparr>)" "same_shared t (t\<lparr>mbuf_pool := p, tx_q := q\<rparr>)"
    "same_shared t (t\<lparr>mbuf_pool := p, errno := e\<rparr>)"
    by (simp_all add: same_shared_def)
qed

lemma sendto_shared:
  assumes "ready_sock fd s" "udpdk_sendto ops cfg fd buf len 0 (Some dest) addrlen s = Some (r, s')"
  shows "same_shared s s'"
proof -
  have fd: "unat fd < NUM_SOCKETS_MAX" and sl: "used (slots s (unat fd)) \<noteq> 0" "bound (slots s (unat fd)) \<noteq> 0"
    using assms(1) by (simp_all add: ready_sock_def)
  show ?thesis
  proof (cases "addrlen = 0")
    case True
    then have "s' = s\<lparr>errno := Some EINVAL\<rparr>"
      using assms(2) sl(1) sint_fd [OF fd] slot_at_in [OF fd, of s]
      by (simp add: udpdk_sendto_def sendto_validate_args_def fail_def)
    then show ?thesis by simp
  next
    case False
    have eb: "ensure_bound fd s = Some (0, s)"
      using sl slot_at_in [OF fd, of s] by (simp add: ensure_bound_def)
    show ?thesis
      using assms(2) unfolding udpdk_sendto_def sendto_valid [OF fd sl(1) False]
      using eb slot_at_in [OF fd, of "s\<lparr>mbuf_pool := x\<rparr>" for x]
      by (auto simp: fail_def Let_def split: option.splits if_splits)
  qed
qed

lemma recvfrom_shared:
  assumes "ready_sock fd s" "udpdk_recvfrom ops intr deq fd (Some b) len 0 src al s = Some (r, b', src', al', s')"
  shows "same_shared s s'"
proof -
  have fd: "unat fd < NUM_SOCKETS_MAX" "used (slots s (unat fd)) \<noteq> 0" using assms(1) by (simp_all add: ready_sock_def)
  have R: "udpdk_recvfrom ops intr deq fd (Some b) len 0 src al s \<noteq> None" using assms(2) by simp
  obtain pkt i where w: "recv_wait intr deq 0 = Some (pkt, i)"
    using R by (cases "recv_wait intr deq 0") (auto simp: udpdk_recvfrom_def recvfrom_valid [OF fd])
  show ?thesis
  proof (cases "intr i")
    case True
    then show ?thesis using assms(2) w by (auto simp: udpdk_recvfrom_def recvfrom_valid [OF fd])
  next
    case False
    then obtain sg segs where "pkt = Some (sg # segs)"
      using R w by (auto simp: udpdk_recvfrom_def recvfrom_valid [OF fd] split: list.splits option.splits)
    then show ?thesis
      using assms(2) w False
      by (auto simp: udpdk_recvfrom_def recvfrom_valid [OF fd] Let_def bind_eq_Some_conv)
  qed
qed

end
