(* ===== verification/Pktgen_Props.thy ===== *)
theory Pktgen_Props
  imports Pktgen Apps_Props
begin

text \<open>
  Properties of the packet generator: what the sender counts and when it sends, what the
  receiver counts, and what the statistics report.
\<close>

lemma length_mydata: "length mydata = 2048"
  by (simp add: mydata_def)

subsection \<open>The sender\<close>

abbreviation hdr_bytes :: "pktgen \<Rightarrow> u64" where
  "hdr_bytes a \<equiv> (if hdr_stats a then HDR_BYTES else 0)"

text \<open>The counters after \<open>n\<close> packets of \<open>bytes\<close> bytes of payload in all.\<close>

definition sent_more :: "pktgen \<Rightarrow> nat \<Rightarrow> u64 \<Rightarrow> stats_t \<Rightarrow> stats_t" where
  "sent_more a n bytes cnt =
     cnt\<lparr>pkts_sent := pkts_sent cnt + of_nat n, bytes_sent := bytes_sent cnt + bytes + of_nat n * hdr_bytes a\<rparr>"

lemma sent_more_0 [simp]: "sent_more a 0 0 cnt = cnt"
  by (simp add: sent_more_def)

lemma sent_more_add: "sent_more a n b (sent_more a n' b' cnt) = sent_more a (n' + n) (b' + b) cnt"
  by (simp add: sent_more_def algebra_simps)

lemma count_sent_pos: "0 < ret \<Longrightarrow> count_sent a ret cnt = sent_more a 1 (of_int ret) cnt"
  by (simp add: count_sent_def sent_more_def)

lemma count_sent_neg: "ret \<le> 0 \<Longrightarrow> count_sent a ret cnt = cnt"
  by (simp add: count_sent_def)

lemma unat_second: "unat (1000000000 :: u64) = 1000000000"
  by simp

lemma tx_period_ok:
  assumes "0 < tx_rate a"
  shows "normal (tx_period a)" "nanos (tx_period a) = 1000000000 div int (unat (tx_rate a))" "in_range (tx_period a)"
proof -
  let ?x = "1000000000 div tx_rate a"
  have ux: "unat ?x = 1000000000 div unat (tx_rate a)" by (simp add: unat_div)
  then have le: "unat ?x \<le> 1000000000" by simp
  have s: "sint (?x div 1000000000) = int (unat ?x div 1000000000)" "sint (?x mod 1000000000) = int (unat ?x mod 1000000000)"
  proof -
    have "unat ?x div 1000000000 < 2 ^ 63" "unat ?x mod 1000000000 < 2 ^ 63"
      using le by (auto intro: le_less_trans [OF div_le_dividend] le_less_trans [OF mod_less_eq_dividend])
    then show "sint (?x div 1000000000) = int (unat ?x div 1000000000)" "sint (?x mod 1000000000) = int (unat ?x mod 1000000000)"
      using sint_small64 [of "?x div 1000000000"] sint_small64 [of "?x mod 1000000000"]
      by (simp_all only: unat_div unat_mod unat_second)
  qed
  have e: "tx_period a = \<lparr>tv_sec = ?x div 1000000000, tv_nsec = ?x mod 1000000000\<rparr>"
    using assms by (simp add: tx_period_def Let_def)
  show "normal (tx_period a)" unfolding e normal_def by (simp add: s)
  have "int (unat ?x div 1000000000 * 1000000000 + unat ?x mod 1000000000) = int (unat ?x)"
    by (simp only: div_mult_mod_eq)
  then have "nanos (tx_period a) = int (unat ?x)"
    unfolding e nanos_def timespec.simps s by (simp only: of_nat_add of_nat_mult of_nat_numeral)
  also have "\<dots> = 1000000000 div int (unat (tx_rate a))"
    unfolding ux by (simp only: zdiv_int of_nat_numeral)
  finally show "nanos (tx_period a) = 1000000000 div int (unat (tx_rate a))" .
  have "unat ?x div 1000000000 \<le> 1" using div_le_mono [OF le, of 1000000000] by simp
  then show "in_range (tx_period a)" unfolding e in_range_def by (simp add: s)
qed

text \<open>The period in nanoseconds.\<close>

definition period :: "pktgen \<Rightarrow> int" where
  "period a = 1000000000 div int (unat (tx_rate a))"

lemma period_nonneg: "0 \<le> period a"
  unfolding period_def by (simp only: div_int_pos_iff of_nat_0_le_iff) simp

text \<open>
  A clock that can pace \<open>m\<close> packets after the time \<open>t\<close>: its readings are normal and pass the last
  deadline again and again.
\<close>

definition paced :: "(nat \<Rightarrow> timespec) \<Rightarrow> pktgen \<Rightarrow> timespec \<Rightarrow> nat \<Rightarrow> bool" where
  "paced clock a t m \<longleftrightarrow> readable clock \<and> normal t \<and> 0 \<le> nanos t \<and>
     nanos t + int m * period a \<le> 2 ^ 61 * 1000000000 \<and> (\<forall>k. \<exists>j \<ge> k. nanos t + int m * period a < nanos (clock j))"

lemma in_range_nanos:
  assumes "normal t" "0 \<le> nanos t" "nanos t \<le> 2 ^ 61 * 1000000000"
  shows "in_range t"
proof -
  have "0 \<le> sint (tv_sec t)" using assms(1,2) normal_negative [OF assms(1)] by linarith
  moreover have "sint (tv_sec t) * 1000000000 \<le> 2 ^ 61 * 1000000000"
    using assms(1,3) by (simp add: normal_def nanos_def)
  ultimately show ?thesis by (simp add: in_range_def)
qed

text \<open>The deadline of the next packet.\<close>

lemma deadline:
  assumes rate: "0 < tx_rate a" and t: "normal t" "0 \<le> nanos t" "nanos t + period a \<le> 2 ^ 61 * 1000000000"
  shows "normal (timespec_add t (tx_period a))" "nanos (timespec_add t (tx_period a)) = nanos t + period a"
    "in_range (timespec_add t (tx_period a))"
proof -
  have "in_range t" using in_range_nanos [OF t(1,2)] t(3) period_nonneg [of a] by linarith
  note A = timespec_add_ok [OF t(1) this tx_period_ok(1) [OF rate] tx_period_ok(3) [OF rate]]
  show n: "normal (timespec_add t (tx_period a))" by (rule A(1))
  show d: "nanos (timespec_add t (tx_period a)) = nanos t + period a"
    using A(2) tx_period_ok(2) [OF rate] by (simp add: period_def)
  show "in_range (timespec_add t (tx_period a))"
    using in_range_nanos [OF n] d t(2,3) period_nonneg [of a] by linarith
qed

lemma paced_step:
  assumes rate: "0 < tx_rate a" and p: "paced clock a t (Suc m)"
  shows "\<exists>c k'. wait_time clock (timespec_add t (tx_period a)) k = Some (c, k') \<and> paced clock a (timespec_add t (tx_period a)) m"
proof -
  let ?t = "timespec_add t (tx_period a)"
  have P: "0 \<le> int m * period a" using period_nonneg [of a] by simp
  have e: "nanos t + int (Suc m) * period a = nanos t + period a + int m * period a" by (simp add: algebra_simps)
  note D = deadline [OF rate, of t]
  have h: "readable clock" "normal t" "0 \<le> nanos t" "nanos t + period a + int m * period a \<le> 2 ^ 61 * 1000000000"
    "\<And>k. \<exists>j \<ge> k. nanos t + period a + int m * period a < nanos (clock j)"
    using p unfolding paced_def e by blast+
  have t': "normal ?t" "nanos ?t = nanos t + period a" "in_range ?t" using D h(2-4) P by linarith+
  have "paced clock a ?t m"
    unfolding paced_def t'(2) using h t'(1) period_nonneg [of a] by (intro conjI allI) simp_all
  moreover have "\<exists>j \<ge> k. nanos ?t < nanos (clock j)"
    using h(5) [of k] P t'(2) by (auto intro: order.strict_trans1)
  then have "wait_time clock ?t k \<noteq> None"
    using wait_time_ends [OF t'(1,3), of clock k] h(1) by (simp add: readable_def)
  ultimately show ?thesis by auto
qed

lemma send_loop_simps:
  "send_loop ops cfg alive clock a sock i k t_next cnt s =
     (if \<not> alive i then Some (cnt, s)
      else do {
        (t_next, k) \<leftarrow> (if 0 < tx_rate a then do {
            let t = timespec_add t_next (tx_period a);
            (_, k) \<leftarrow> wait_time clock t k;
            Some (t, k) }
          else Some (t_next, k));
        (ret, s) \<leftarrow> udpdk_sendto ops cfg sock mydata (scast (pktlen a)) 0 (Some (peer PORT_RECV))
          (of_nat sizeof_sockaddr_in) s;
        send_loop ops cfg alive clock a sock (Suc i) k t_next (count_sent a (to_int ret) cnt) s })"
  by (cases "alive i") (auto simp: send_loop_def app_loop_dead app_loop_alive send_round_def Let_def split: bind_split)

lemma send_loop_dead: "\<not> alive i \<Longrightarrow> send_loop ops cfg alive clock a sock i k t cnt s = Some (cnt, s)"
  by (subst send_loop_simps) simp

lemma send_loop_step:
  assumes "alive i"
    and "0 < tx_rate a \<Longrightarrow> wait_time clock (timespec_add t (tx_period a)) k = Some (c, k') \<and> t' = timespec_add t (tx_period a)"
    and "\<not> 0 < tx_rate a \<Longrightarrow> k' = k \<and> t' = t"
    and "udpdk_sendto ops cfg sock mydata (scast (pktlen a)) 0 (Some (peer PORT_RECV)) (of_nat sizeof_sockaddr_in) s = Some (r, s')"
  shows "send_loop ops cfg alive clock a sock i k t cnt s =
    send_loop ops cfg alive clock a sock (Suc i) k' t' (count_sent a (to_int r) cnt) s'"
  using assms by (subst send_loop_simps) (cases "0 < tx_rate a"; simp add: Let_def)

text \<open>The parameters with which the sender works: a positive length that the payload and a buffer have.\<close>

definition good_length :: "('r, 'm, 'z) dpdk_scheme \<Rightarrow> pktgen \<Rightarrow> bool" where
  "good_length ops a \<longleftrightarrow> 0 < sint (pktlen a) \<and> sint (pktlen a) \<le> 2048 \<and> 42 + sint (pktlen a) \<le> int (data_room ops)"

definition sent_packet :: "('r, 'm, 'z) dpdk_scheme \<Rightarrow> configuration \<Rightarrow> pktgen \<Rightarrow> slot_info \<Rightarrow> packet" where
  "sent_packet ops cfg a sl =
     [build_packet ops cfg sl (peer PORT_RECV) (scast (pktlen a)) (take (nat (sint (pktlen a))) mydata)]"

text \<open>Pools and rings in which there is always room.\<close>

definition never_full :: "('r, 'm, 'z) dpdk_scheme \<Rightarrow> bool" where
  "never_full ops \<longleftrightarrow> (\<forall>m. pktmbuf_alloc ops m \<noteq> None) \<and> (\<forall>p q. ring_enqueue ops p q \<noteq> None)"

lemma sendto_never_full:
  assumes "never_full ops" "ready_sock fd s" "addrlen \<noteq> 0" "unat len \<le> length buf" "42 + unat len \<le> data_room ops"
  shows "\<exists>s'. udpdk_sendto ops cfg fd buf len 0 (Some dest) addrlen s = Some (sint len, s')"
proof -
  have fd: "unat fd < NUM_SOCKETS_MAX" "used (slots s (unat fd)) \<noteq> 0" "bound (slots s (unat fd)) \<noteq> 0"
    using assms(2) by (simp_all add: ready_sock_def)
  obtain pool where p: "pktmbuf_alloc ops (mbuf_pool s) = Some pool" using assms(1) unfolding never_full_def by blast
  obtain q where q: "ring_enqueue ops [build_packet ops cfg (slots s (unat fd)) dest len (take (unat len) buf)] (tx_q s (unat fd)) = Some q"
    using assms(1) unfolding never_full_def by blast
  show ?thesis
    unfolding udpdk_sendto_bound [OF fd assms(3-5) refl] p by (simp add: q)
qed

lemma send_one:
  assumes len: "good_length ops a" and r: "ready_sock fd s" and app: "tx_appends ops contents"
  shows "\<exists>r s' n. udpdk_sendto ops cfg fd mydata (scast (pktlen a)) 0 (Some (peer PORT_RECV)) (of_nat sizeof_sockaddr_in) s =
      Some (r, s') \<and> slots s' = slots s \<and> n \<le> 1 \<and> (never_full ops \<longrightarrow> n = 1) \<and> count_sent a (to_int r) cnt = sent_more a n (of_nat n * of_int (sint (pktlen a))) cnt \<and>
      contents (tx_q s' (unat fd)) = contents (tx_q s (unat fd)) @ replicate n (sent_packet ops cfg a (slots s (unat fd)))"
proof -
  have L: "0 < sint (pktlen a)" "sint (pktlen a) \<le> 2048" "42 + sint (pktlen a) \<le> int (data_room ops)"
    using len by (simp_all add: good_length_def)
  note U = unat_small_int [OF L(1)]
  have l: "unat (scast (pktlen a) :: u64) \<le> length mydata" "42 + unat (scast (pktlen a) :: u64) \<le> data_room ops"
    using L unfolding U(1) length_mydata by linarith+
  have al: "(of_nat sizeof_sockaddr_in :: u32) \<noteq> 0" by (simp add: sizeof_sockaddr_in_def)
  obtain r s' where S: "udpdk_sendto ops cfg fd mydata (scast (pktlen a)) 0 (Some (peer PORT_RECV)) (of_nat sizeof_sockaddr_in) s = Some (r, s')"
      "slots s' = slots s"
      "r = -1 \<and> tx_q s' = tx_q s \<or> r = sint (pktlen a) \<and> contents (tx_q s' (unat fd)) = contents (tx_q s (unat fd)) @
        [sent_packet ops cfg a (slots s (unat fd))]"
    using sendto_outcome [OF r al l app, of cfg "peer PORT_RECV"] unfolding U sent_packet_def by blast
  from S(3) show ?thesis
  proof
    assume m: "r = -1 \<and> tx_q s' = tx_q s"
    then have "to_int r = -1" by (simp add: to_int_def)
    moreover have "\<not> never_full ops" using sendto_never_full [OF _ r al l, of cfg "peer PORT_RECV"] S(1) m L(1) U(2) by auto
    ultimately show ?thesis using S(1,2) m by (intro exI [of _ r] exI [of _ s'] exI [of _ 0]) (simp add: count_sent_neg)
  next
    assume m: "r = sint (pktlen a) \<and> contents (tx_q s' (unat fd)) = contents (tx_q s (unat fd)) @
        [sent_packet ops cfg a (slots s (unat fd))]"
    then have "to_int r = sint (pktlen a)" using L by (simp add: to_int_self int_range_def)
    then show ?thesis using S(1,2) m L(1) by (intro exI [of _ r] exI [of _ s'] exI [of _ 1]) (simp add: count_sent_pos)
  qed
qed

lemma send_loop_run:
  assumes len: "good_length ops a" and app: "tx_appends ops contents"
  shows "\<lbrakk>ready_sock fd s; \<And>j. j < m \<Longrightarrow> alive (i + j); \<not> alive (i + m); 0 < tx_rate a \<Longrightarrow> paced clock a t m\<rbrakk> \<Longrightarrow>
    \<exists>n s'. n \<le> m \<and> (never_full ops \<longrightarrow> n = m) \<and> send_loop ops cfg alive clock a fd i k t cnt s = Some (sent_more a n (of_nat n * of_int (sint (pktlen a))) cnt, s') \<and>
      slots s' = slots s \<and>
      contents (tx_q s' (unat fd)) = contents (tx_q s (unat fd)) @ replicate n (sent_packet ops cfg a (slots s (unat fd)))"
proof (induction m arbitrary: i k t cnt s)
  case 0
  then show ?case using send_loop_dead [of alive i] by (intro exI [of _ 0] exI [of _ s]) simp
next
  case (Suc m)
  have al: "alive i" using Suc.prems(2) [of 0] by simp
  obtain r s1 n1 where S: "udpdk_sendto ops cfg fd mydata (scast (pktlen a)) 0 (Some (peer PORT_RECV)) (of_nat sizeof_sockaddr_in) s = Some (r, s1)"
      "slots s1 = slots s" "n1 \<le> 1 \<and> (never_full ops \<longrightarrow> n1 = 1)" "count_sent a (to_int r) cnt = sent_more a n1 (of_nat n1 * of_int (sint (pktlen a))) cnt"
      "contents (tx_q s1 (unat fd)) = contents (tx_q s (unat fd)) @ replicate n1 (sent_packet ops cfg a (slots s (unat fd)))"
    using send_one [OF len Suc.prems(1) app, of cfg cnt] by blast
  obtain c k' t' where W: "0 < tx_rate a \<Longrightarrow> wait_time clock (timespec_add t (tx_period a)) k = Some (c, k') \<and> t' = timespec_add t (tx_period a)"
      "\<not> 0 < tx_rate a \<Longrightarrow> k' = k \<and> t' = t" "0 < tx_rate a \<Longrightarrow> paced clock a t' m"
    using paced_step [OF _ Suc.prems(4), of k] by metis
  note step = send_loop_step [where alive = alive and clock = clock and i = i and k = k, OF al W(1,2) S(1), of cnt, unfolded S(4)]
  obtain n2 s2 where R: "n2 \<le> m \<and> (never_full ops \<longrightarrow> n2 = m)" "send_loop ops cfg alive clock a fd (Suc i) k' t' (sent_more a n1 (of_nat n1 * of_int (sint (pktlen a))) cnt) s1 =
        Some (sent_more a n2 (of_nat n2 * of_int (sint (pktlen a))) (sent_more a n1 (of_nat n1 * of_int (sint (pktlen a))) cnt), s2)"
      "slots s2 = slots s1"
      "contents (tx_q s2 (unat fd)) = contents (tx_q s1 (unat fd)) @ replicate n2 (sent_packet ops cfg a (slots s1 (unat fd)))"
    using Suc.IH [of s1 "Suc i" t' k' "sent_more a n1 (of_nat n1 * of_int (sint (pktlen a))) cnt"]
      Suc.prems(1) Suc.prems(2) [of "Suc _"] Suc.prems(3) W(3) ready_same_slots [OF S(2)] by auto
  show ?case
    using step R S(2,3,5)
    by (intro exI [of _ "n1 + n2"] exI [of _ s2]) (auto simp: sent_more_add algebra_simps replicate_add)
qed

text \<open>It never runs ahead of its rate: after \<open>m\<close> rounds the clock has passed the \<open>m\<close>-th deadline.\<close>

lemma send_loop_paced:
  assumes rate: "0 < tx_rate a" and clk: "readable clock"
  shows "\<lbrakk>send_loop ops cfg alive clock a fd i k t cnt s \<noteq> None; \<And>j. j \<le> m \<Longrightarrow> alive (i + j); normal t; 0 \<le> nanos t;
      nanos t + int (Suc m) * period a \<le> 2 ^ 61 * 1000000000\<rbrakk> \<Longrightarrow>
    \<exists>j \<ge> k. nanos t + int (Suc m) * period a < nanos (clock j)"
proof (induction m arbitrary: i k t cnt s)
  case (0 i k t cnt s)
  have al: "alive i" using 0(2) [of 0] by simp
  note D = deadline [OF rate 0(3,4)]
  have d: "normal (timespec_add t (tx_period a))" "nanos (timespec_add t (tx_period a)) = nanos t + period a"
    "in_range (timespec_add t (tx_period a))" using D 0(5) by simp_all
  have "wait_time clock (timespec_add t (tx_period a)) k \<noteq> None"
    using 0(1) al rate by (subst (asm) send_loop_simps) (auto simp: Let_def bind_eq_Some_conv)
  then show ?case
    using wait_time_ends [OF d(1,3), of clock k] clk d(2) by (simp add: readable_def)
next
  case (Suc m i k t cnt s)
  have al: "alive i" using Suc.prems(2) [of 0] by simp
  have e: "nanos t + int (Suc (Suc m)) * period a = nanos t + period a + int (Suc m) * period a" by (simp add: algebra_simps)
  have P: "0 \<le> int (Suc m) * period a" using period_nonneg [of a] by simp
  have "nanos t + period a \<le> 2 ^ 61 * 1000000000" using Suc.prems(5) e P by linarith
  note d = deadline [OF rate Suc.prems(3,4) this]
  obtain c k' where w: "wait_time clock (timespec_add t (tx_period a)) k = Some (c, k')"
    using Suc.prems(1) al rate by (subst (asm) send_loop_simps) (auto simp: Let_def bind_eq_Some_conv)
  obtain r s' where S: "udpdk_sendto ops cfg fd mydata (scast (pktlen a)) 0 (Some (peer PORT_RECV)) (of_nat sizeof_sockaddr_in) s = Some (r, s')"
    using Suc.prems(1) al rate w by (subst (asm) send_loop_simps) (auto simp: Let_def bind_eq_Some_conv)
  have "send_loop ops cfg alive clock a fd (Suc i) k' (timespec_add t (tx_period a)) (count_sent a (to_int r) cnt) s' \<noteq> None"
    using Suc.prems(1) send_loop_step [where alive = alive and clock = clock and i = i and k = k and k' = k' and a = a, OF al _ _ S, of t c "timespec_add t (tx_period a)"] w rate
    by simp
  then have "\<exists>j \<ge> k'. nanos (timespec_add t (tx_period a)) + int (Suc m) * period a < nanos (clock j)"
    using Suc.prems(2) [of "Suc _"] Suc.prems(4,5) e d period_nonneg [of a]
    by (intro Suc.IH) (simp_all only: d, auto)
  moreover have "k \<le> k'"
    using wait_time_first [OF d(1,3), of clock k] wait_time_ends [OF d(1,3), of clock k] w clk
    by (auto simp: readable_def)
  ultimately show ?case unfolding d(2) e using order.trans by blast
qed

subsection \<open>The receiver\<close>

text \<open>The counters after \<open>n\<close> more packets were received.\<close>

definition recv_more :: "pktgen \<Rightarrow> nat \<Rightarrow> u64 \<Rightarrow> stats_t \<Rightarrow> stats_t" where
  "recv_more a n bytes cnt =
     cnt\<lparr>pkts_recv := pkts_recv cnt + of_nat n, bytes_recv := bytes_recv cnt + bytes + of_nat n * hdr_bytes a\<rparr>"

lemma recv_more_0 [simp]: "recv_more a 0 0 cnt = cnt"
  by (simp add: recv_more_def)

lemma recv_more_add: "recv_more a n b (recv_more a n' b' cnt) = recv_more a (n' + n) (b' + b) cnt"
  by (simp add: recv_more_def algebra_simps)

lemma count_recv_more: "count_recv a n cnt = recv_more a 1 (of_int n) cnt"
  by (simp add: count_recv_def recv_more_def Let_def)

lemma recv_round_built:
  assumes mac: "macs_ok cfg" and len: "0 < length payload" "42 + length payload < 2 ^ 16"
    and fd: "unat fd < NUM_SOCKETS_MAX" "used (slots s (unat fd)) \<noteq> 0"
    and env: "delivers ops cfg sl dest payload e" and buf: "length b = 2048" "length sb = 16"
  shows "\<exists>b'. length b' = 2048 \<and> take (min 2048 (length payload)) b' = take 2048 payload \<and>
    recv_round ops (fst e) (snd e) a fd b sb cnt s =
    (if dump a \<and> 2048 \<le> length payload then None
     else Some (b', sockaddr_bytes (ucast (udp_port sl)) (packet_src cfg sl), recv_more a 1 (of_nat (min 2048 (length payload))) cnt,
       s\<lparr>mbuf_pool := pktmbuf_free ops [build_packet ops cfg sl dest (of_nat (length payload)) payload] (mbuf_pool s)\<rparr>))"
proof -
  define n where "n = min 2048 (length payload)"
  define b1 where "b1 = take 2048 payload @ drop n b"
  have R: "udpdk_recvfrom ops (fst e) (snd e) fd (Some b) 2048 0 (Some sb) (Some 16) s =
      Some (int n, Some b1, Some (sockaddr_bytes (ucast (udp_port sl)) (packet_src cfg sl)), Some 16,
        s\<lparr>mbuf_pool := pktmbuf_free ops [build_packet ops cfg sl dest (of_nat (length payload)) payload] (mbuf_pool s)\<rparr>)"
    using delivers_recv [OF mac len(2) fd env, of 2048 b sb] buf by (simp add: n_def b1_def)
  have n: "0 < n" "n \<le> 2048" "n = 2048 \<longleftrightarrow> 2048 \<le> length payload" using len(1) by (auto simp: n_def)
  have l: "length b1 = 2048" using buf(1) by (simp add: b1_def n_def)
  have i: "to_int (int n) = int n" using n(2) by (simp add: to_int_self int_range_def)
  define b' where "b' = (if dump a \<and> n < 2048 then b1[n := 0] else b1)"
  have "take n b' = take n b1" by (simp add: b'_def)
  moreover have "take n b1 = take 2048 payload" by (cases "length payload \<le> 2048") (simp_all add: b1_def n_def)
  ultimately have t: "take n b' = take 2048 payload" by simp
  have "recv_round ops (fst e) (snd e) a fd b sb cnt s =
    (if dump a \<and> 2048 \<le> length payload then None
     else Some (b', sockaddr_bytes (ucast (udp_port sl)) (packet_src cfg sl), recv_more a 1 (of_nat n) cnt,
       s\<lparr>mbuf_pool := pktmbuf_free ops [build_packet ops cfg sl dest (of_nat (length payload)) payload] (mbuf_pool s)\<rparr>))"
    unfolding recv_round_def sizeof_sockaddr_in_def using R n l
    by (auto simp: i count_recv_more b'_def Let_def)
  then show ?thesis using t l unfolding n_def by (intro exI [of _ b']) (simp add: b'_def)
qed

lemma recv_loop_simps:
  "recv_loop ops alive env a sock i buf cliaddr cnt s =
     (if \<not> alive i then Some (cnt, s)
      else do {
        (buf, cliaddr, cnt, s) \<leftarrow> recv_round ops (fst (env i)) (snd (env i)) a sock buf cliaddr cnt s;
        recv_loop ops alive env a sock (Suc i) buf cliaddr cnt s })"
  by (cases "alive i") (auto simp: recv_loop_def app_loop_dead app_loop_alive split: bind_split)

lemma recv_loop_dead: "\<not> alive i \<Longrightarrow> recv_loop ops alive env a fd i b sb cnt s = Some (cnt, s)"
  by (subst recv_loop_simps) simp

lemma recv_loop_run:
  assumes mac: "macs_ok cfg"
  shows "\<lbrakk>\<forall>p \<in> set ps. 0 < length p \<and> length p \<le> 2048 \<and> (dump a \<longrightarrow> length p < 2048);
      unat fd < NUM_SOCKETS_MAX; used (slots s (unat fd)) \<noteq> 0;
      \<And>j. j < length ps \<Longrightarrow> alive (i + j) \<and> delivers ops cfg sl dest (ps ! j) (env (i + j)); \<not> alive (i + length ps);
      length b = 2048; length sb = 16\<rbrakk> \<Longrightarrow>
    \<exists>s'. recv_loop ops alive env a fd i b sb cnt s =
        Some (recv_more a (length ps) (of_nat (sum_list (map length ps))) cnt, s') \<and> slots s' = slots s"
proof (induction ps arbitrary: i b sb cnt s)
  case Nil
  then show ?case using recv_loop_dead [of alive i ops env a fd b sb cnt s] by simp
next
  case (Cons p ps)
  have h: "alive i" "delivers ops cfg sl dest p (env i)" using Cons.prems(4) [of 0] by simp_all
  have p: "0 < length p" "length p \<le> 2048" "\<not> (dump a \<and> 2048 \<le> length p)" using Cons.prems(1) by auto
  have p16: "42 + length p < 2 ^ 16" using p(2) by simp
  let ?s = "s\<lparr>mbuf_pool := pktmbuf_free ops [build_packet ops cfg sl dest (of_nat (length p)) p] (mbuf_pool s)\<rparr>"
  let ?c = "recv_more a 1 (of_nat (length p)) cnt"
  let ?sb = "sockaddr_bytes (ucast (udp_port sl)) (packet_src cfg sl)"
  obtain b' where b': "length b' = 2048" "recv_round ops (fst (env i)) (snd (env i)) a fd b sb cnt s = Some (b', ?sb, ?c, ?s)"
    using recv_round_built [OF mac p(1) p16 Cons.prems(2,3) h(2) Cons.prems(6,7), of a cnt] p by auto
  have "\<exists>s'. recv_loop ops alive env a fd (Suc i) b' ?sb ?c ?s =
      Some (recv_more a (length ps) (of_nat (sum_list (map length ps))) ?c, s') \<and> slots s' = slots ?s"
    using Cons.prems b'(1) Cons.prems(4) [of "Suc _"] by (intro Cons.IH) auto
  then show ?case
    using h(1) b'(2) by (subst recv_loop_simps) (auto simp: recv_more_add add_ac)
qed

subsection \<open>Statistics\<close>

lemma fold_count_sent:
  "fold (count_sent a) rs cnt =
    sent_more a (length (filter (\<lambda>r. 0 < r) rs)) (of_int (sum_list (filter (\<lambda>r. 0 < r) rs))) cnt"
proof (induction rs arbitrary: cnt)
  case (Cons r rs)
  then show ?case by (cases "0 < r") (simp_all add: count_sent_pos count_sent_neg sent_more_add)
qed simp

lemma fold_count_recv:
  "fold (count_recv a) ns cnt = recv_more a (length ns) (of_int (sum_list ns)) cnt"
  by (induction ns arbitrary: cnt) (simp_all add: count_recv_more recv_more_add)

subsection \<open>The bodies\<close>

text \<open>What the applications find when they start: a free slot, and nobody bound to their port.\<close>

definition can_open :: "u16 \<Rightarrow> nat \<Rightarrow> 'a sstate_scheme \<Rightarrow> bool" where
  "can_open port i s \<longleftrightarrow> sock_inv s \<and> n_zones_active s \<le> of_nat NUM_SOCKETS_MAX \<and> i < NUM_SOCKETS_MAX \<and>
     used (slots s i) = 0 \<and> (\<forall>j < i. used (slots s j) \<noteq> 0) \<and> bindings s (bswap16 port) = []"

lemma app_socket_ready:
  fixes s :: "('r, 'm, 'a) dstate_scheme"
  assumes "can_open port i s"
  obtains s' where "app_socket port s = Some (Some (of_nat i), s')" "ready_sock (of_nat i) s'" "unat (of_nat i :: u32) = i"
    "udp_port (slots s' i) = ucast (bswap16 port)" "tx_q s' = tx_q s" "mbuf_pool s' = mbuf_pool s"
proof -
  have o: "sock_inv s" "n_zones_active s \<le> of_nat NUM_SOCKETS_MAX" "i < NUM_SOCKETS_MAX" "used (slots s i) = 0"
    "\<And>j. j < i \<Longrightarrow> used (slots s j) \<noteq> 0" "list_all (compatible INADDR_ANY 0) (bindings s (bswap16 port))"
    using assms by (simp_all add: can_open_def)
  obtain s' where s': "app_socket port s = Some (Some (of_nat i), s')" "used (slots s' i) = 1" "bound (slots s' i) = 1"
      "udp_port (slots s' i) = ucast (bswap16 port)" "sstate.more s' = sstate.more s"
    using app_socket_done [OF o] by blast
  have u: "unat (of_nat i :: u32) = i" using o(3) by (simp add: NUM_SOCKETS_MAX_def unat_of_nat)
  have "ready_sock (of_nat i) s'" using s'(2,3) o(3) by (simp add: ready_sock_def u)
  moreover have "tx_q s' = tx_q s \<and> mbuf_pool s' = mbuf_pool s"
    using s'(5) by (cases s; cases s') simp
  ultimately show thesis using that s' u by blast
qed

lemma send_body_run:
  fixes s :: "('r, 'm, 'a) dstate_scheme"
  assumes o: "can_open PORT_SEND i s" and len: "good_length ops a" and app: "tx_appends ops contents"
    and al: "\<And>j. j < m \<Longrightarrow> alive j" "\<not> alive m" and clk: "0 < tx_rate a \<Longrightarrow> paced clock a (clock 0) m"
  shows "\<exists>n s'. n \<le> m \<and> (never_full ops \<longrightarrow> n = m) \<and> send_body ops cfg alive clock a cnt s = Some (sent_more a n (of_nat n * of_int (sint (pktlen a))) cnt, s') \<and>
    contents (tx_q s' i) = contents (tx_q s i) @ replicate n (sent_packet ops cfg a (slots s' i)) \<and>
    udp_port (slots s' i) = ucast (bswap16 PORT_SEND)"
proof -
  obtain s1 where S: "app_socket PORT_SEND s = Some (Some (of_nat i), s1)" "ready_sock (of_nat i) s1" "unat (of_nat i :: u32) = i"
      "udp_port (slots s1 i) = ucast (bswap16 PORT_SEND)" "tx_q s1 = tx_q s"
    by (rule app_socket_ready [OF o])
  have "\<exists>n s'. n \<le> m \<and> (never_full ops \<longrightarrow> n = m) \<and> send_loop ops cfg alive clock a (of_nat i) 0 (if 0 < tx_rate a then 1 else 0) (clock 0) cnt s1 =
        Some (sent_more a n (of_nat n * of_int (sint (pktlen a))) cnt, s') \<and> slots s' = slots s1 \<and>
      contents (tx_q s' (unat (of_nat i :: u32))) = contents (tx_q s1 (unat (of_nat i :: u32))) @
        replicate n (sent_packet ops cfg a (slots s1 (unat (of_nat i :: u32))))"
    by (rule send_loop_run [OF len app S(2)]) (use al clk in simp_all)
  then obtain n s' where "n \<le> m \<and> (never_full ops \<longrightarrow> n = m)" "send_loop ops cfg alive clock a (of_nat i) 0 (if 0 < tx_rate a then 1 else 0) (clock 0) cnt s1 =
        Some (sent_more a n (of_nat n * of_int (sint (pktlen a))) cnt, s')" "slots s' = slots s1"
      "contents (tx_q s' i) = contents (tx_q s1 i) @ replicate n (sent_packet ops cfg a (slots s1 i))"
    unfolding S(3) by blast
  then show ?thesis using S by (intro exI [of _ n] exI [of _ s']) (simp add: send_body_def)
qed

lemma recv_body_run:
  fixes s :: "('r, 'm, 'a) dstate_scheme"
  assumes o: "can_open PORT_RECV i s" and mac: "macs_ok cfg"
    and ps: "\<forall>p \<in> set ps. 0 < length p \<and> length p \<le> 2048 \<and> (dump a \<longrightarrow> length p < 2048)"
    and env: "\<And>j. j < length ps \<Longrightarrow> alive j \<and> delivers ops cfg sl dest (ps ! j) (env j)" "\<not> alive (length ps)"
    and junk: "length junk = 2048"
  shows "\<exists>s'. recv_body ops alive env a junk cnt s =
    Some (recv_more a (length ps) (of_nat (sum_list (map length ps))) cnt, s')"
proof -
  obtain s1 where S: "app_socket PORT_RECV s = Some (Some (of_nat i), s1)" "ready_sock (of_nat i) s1"
    by (rule app_socket_ready [OF o])
  have fd: "unat (of_nat i :: u32) < NUM_SOCKETS_MAX" "used (slots s1 (unat (of_nat i :: u32))) \<noteq> 0"
    using S(2) by (simp_all add: ready_sock_def)
  have "\<exists>s'. recv_loop ops alive env a (of_nat i) 0 junk (replicate 16 0) cnt s1 =
      Some (recv_more a (length ps) (of_nat (sum_list (map length ps))) cnt, s') \<and> slots s' = slots s1"
    by (rule recv_loop_run [where sl = sl and dest = dest, OF mac ps fd]) (use env junk in simp_all)
  then obtain s' where "recv_loop ops alive env a (of_nat i) 0 junk (replicate 16 0) cnt s1 =
      Some (recv_more a (length ps) (of_nat (sum_list (map length ps))) cnt, s')" by blast
  then show ?thesis using S by (intro exI [of _ s']) (simp add: recv_body_def)
qed

end
