(* ===== verification/Pingpong.thy ===== *)
theory Pingpong
  imports Apps
begin

text \<open>
  The latency test (\<open>apps/pingpong/main.c\<close>): one side sends its clock, the other sends it back,
  and the first takes the difference. \<open>None\<close> is an outcome that is not defined, or a loop that does
  not end.
\<close>

subsection \<open>State\<close>

datatype pingpong_mode = PING | PONG

text \<open>
  The globals. \<open>samples\<close> are the first \<open>n_samples\<close> elements of the array; \<open>ping_log_open\<close> is whether
  \<open>log\<close> is not \<open>NULL\<close>.
\<close>

record pingpong =
  ping_mode :: pingpong_mode
  ping_log_enabled :: bool
  ping_log_file :: string
  ping_log_open :: bool
  delay :: u32
  samples :: "u32 list"

definition pingpong_globals :: pingpong where
  "pingpong_globals = \<lparr>ping_mode = PING, ping_log_enabled = False, ping_log_file = [], ping_log_open = False,
     delay = 1000000, samples = []\<rparr>"

definition PORT_PING :: u16 where "PORT_PING = 10000"
definition PORT_PONG :: u16 where "PORT_PONG = 10001"
definition MAX_SAMPLES :: nat where "MAX_SAMPLES = 100000"

subsection \<open>Arguments\<close>

definition pingpong_option :: "(string \<Rightarrow> bool) \<Rightarrow> char \<Rightarrow> string \<Rightarrow> pingpong \<Rightarrow> (int \<times> pingpong) option" where
  "pingpong_option fopen c optarg a =
     (if c = CHR ''c'' then Some (0, a)
      else if c = CHR ''f'' then
        Some (if optarg = ''ping'' then (0, a\<lparr>ping_mode := PING\<rparr>)
              else if optarg = ''pong'' then (0, a\<lparr>ping_mode := PONG\<rparr>) else (-1, a))
      else if c = CHR ''d'' then do { v \<leftarrow> atoi optarg; Some (0, a\<lparr>delay := word_of_int v\<rparr>) }
      else if c = CHR ''l'' then
        Some (0, a\<lparr>ping_log_enabled := True, ping_log_file := optarg, ping_log_open := fopen optarg\<rparr>)
      else Some (-1, a))"

fun pingpong_args :: "(string \<Rightarrow> bool) \<Rightarrow> (char \<times> string) list \<Rightarrow> pingpong \<Rightarrow> (int \<times> pingpong) option" where
  "pingpong_args fopen [] a = Some (0, a)"
| "pingpong_args fopen ((c, optarg) # os) a = do {
     (r, a) \<leftarrow> pingpong_option fopen c optarg a;
     if r < 0 then Some (-1, a) else pingpong_args fopen os a }"

subsection \<open>Times as bytes\<close>

definition bytes64 :: "u64 \<Rightarrow> u8 list" where
  "bytes64 w = bytes32 (ucast w) @ bytes32 (ucast (drop_bit 32 w))"

definition word64 :: "u8 list \<Rightarrow> u64" where
  "word64 xs = ucast (word32 xs) OR push_bit 32 (ucast (word32 (drop 4 xs)))"

text \<open>A \<open>struct timespec\<close> in memory.\<close>

definition timespec_bytes :: "timespec \<Rightarrow> u8 list" where
  "timespec_bytes t = bytes64 (tv_sec t) @ bytes64 (tv_nsec t)"

definition timespec_of :: "u8 list \<Rightarrow> timespec" where
  "timespec_of xs = \<lparr>tv_sec = word64 xs, tv_nsec = word64 (drop 8 xs)\<rparr>"

subsection \<open>The side that pings\<close>

definition elapsed :: "timespec \<Rightarrow> timespec \<Rightarrow> timespec" where
  "elapsed now msg =
     (let ts = \<lparr>tv_sec = tv_sec now - tv_sec msg, tv_nsec = tv_nsec now - tv_nsec msg\<rparr>
      in if sint (tv_nsec ts) < 0
         then \<lparr>tv_sec = tv_sec ts - 1, tv_nsec = tv_nsec ts + 1000000000\<rparr> else ts)"

text \<open>The sample is computed as an \<open>int\<close>; an overflow is undefined.\<close>

definition ping_sample :: "timespec \<Rightarrow> u32 option" where
  "ping_sample ts =
     (let p = to_int (sint (tv_sec ts)) * 1000000000; v = p + to_int (sint (tv_nsec ts))
      in if int_range p \<and> int_range v then Some (word_of_int v) else None)"

text \<open>
  One round: \<open>ts\<close> and \<open>ts_now\<close> are the two readings of the clock, \<open>ts_msg\<close> the bytes of the local
  variable. Nothing keeps the samples inside their array.
\<close>

definition ping_round ::
  "('r, 'm, 'z) dpdk_scheme \<Rightarrow> configuration \<Rightarrow> (nat \<Rightarrow> bool) \<Rightarrow> (nat \<Rightarrow> packet option) \<Rightarrow> timespec \<Rightarrow> timespec \<Rightarrow> u32 \<Rightarrow>
    u8 list \<Rightarrow> pingpong \<Rightarrow> ('r, 'm, 'a) dstate_scheme \<Rightarrow> (int \<times> u8 list \<times> pingpong \<times> ('r, 'm, 'a) dstate_scheme) option" where
  "ping_round ops cfg intr deq ts ts_now sock ts_msg a s = do {
     (_, s) \<leftarrow> udpdk_sendto ops cfg sock (timespec_bytes ts) 16 0 (Some (peer PORT_PONG)) (of_nat sizeof_sockaddr_in) s;
     (n, ts_msg, _, _, s) \<leftarrow> udpdk_recvfrom ops intr deq sock (Some ts_msg) 16 0 None None s;
     ts_msg \<leftarrow> ts_msg;
     let n = to_int n;
     if 0 < n \<and> ping_log_enabled a then do {
       v \<leftarrow> ping_sample (elapsed ts_now (timespec_of ts_msg));
       if length (samples a) < MAX_SAMPLES then Some (n, ts_msg, a\<lparr>samples := samples a @ [v]\<rparr>, s) else None }
     else Some (n, ts_msg, a, s) }"

text \<open>The clock is read a second time only when something was received.\<close>

definition ping_loop ::
  "('r, 'm, 'z) dpdk_scheme \<Rightarrow> configuration \<Rightarrow> (nat \<Rightarrow> bool) \<Rightarrow> (nat \<Rightarrow> timespec) \<Rightarrow>
    (nat \<Rightarrow> (nat \<Rightarrow> bool) \<times> (nat \<Rightarrow> packet option)) \<Rightarrow> u32 \<Rightarrow> nat \<Rightarrow> nat \<Rightarrow> u8 list \<Rightarrow> pingpong \<Rightarrow>
    ('r, 'm, 'a) dstate_scheme \<Rightarrow> (pingpong \<times> ('r, 'm, 'a) dstate_scheme) option" where
  "ping_loop ops cfg alive clock env sock i k ts_msg a s = do {
     (_, _, a, s) \<leftarrow> app_loop alive
       (\<lambda>i (k, ts_msg, a, s). do {
          (n, ts_msg, a, s) \<leftarrow> ping_round ops cfg (fst (env i)) (snd (env i)) (clock k) (clock (Suc k)) sock ts_msg a s;
          Some (if 0 < n then k + 2 else k + 1, ts_msg, a, s) })
       i (k, ts_msg, a, s);
     Some (a, s) }"

text \<open>\<open>junk\<close> are the bytes of \<open>ts_msg\<close> before it is written.\<close>

definition ping_body ::
  "('r, 'm, 'z) dpdk_scheme \<Rightarrow> configuration \<Rightarrow> (string \<Rightarrow> bool) \<Rightarrow> (nat \<Rightarrow> bool) \<Rightarrow> (nat \<Rightarrow> timespec) \<Rightarrow>
    (nat \<Rightarrow> (nat \<Rightarrow> bool) \<times> (nat \<Rightarrow> packet option)) \<Rightarrow> u8 list \<Rightarrow> pingpong \<Rightarrow> ('r, 'm, 'a) dstate_scheme \<Rightarrow>
    (pingpong \<times> ('r, 'm, 'a) dstate_scheme) option" where
  "ping_body ops cfg fopen alive clock env junk a s =
     (let a = (if ping_log_enabled a then a\<lparr>ping_log_open := fopen (ping_log_file a)\<rparr> else a)
      in do {
        (sock, s) \<leftarrow> app_socket PORT_PING s;
        case sock of
          None \<Rightarrow> Some (a, s)
        | Some sock \<Rightarrow> ping_loop ops cfg alive clock env sock 0 0 junk a s })"

subsection \<open>The side that answers\<close>

definition pong_round ::
  "('r, 'm, 'z) dpdk_scheme \<Rightarrow> configuration \<Rightarrow> (nat \<Rightarrow> bool) \<Rightarrow> (nat \<Rightarrow> packet option) \<Rightarrow> u32 \<Rightarrow> u8 list \<Rightarrow> u8 list \<Rightarrow>
    ('r, 'm, 'a) dstate_scheme \<Rightarrow> (u8 list \<times> u8 list \<times> ('r, 'm, 'a) dstate_scheme) option" where
  "pong_round ops cfg intr deq sock ts_msg cliaddr s = do {
     (n, ts_msg, cliaddr, len, s) \<leftarrow> udpdk_recvfrom ops intr deq sock (Some ts_msg) 16 0 (Some cliaddr)
       (Some (of_nat sizeof_sockaddr_in)) s;
     ts_msg \<leftarrow> ts_msg;
     cliaddr \<leftarrow> cliaddr;
     len \<leftarrow> len;
     if 0 < to_int n then do {
       (_, s) \<leftarrow> udpdk_sendto ops cfg sock ts_msg 16 0 (Some (sockaddr_of cliaddr)) len s;
       Some (ts_msg, cliaddr, s) }
     else Some (ts_msg, cliaddr, s) }"

definition pong_loop ::
  "('r, 'm, 'z) dpdk_scheme \<Rightarrow> configuration \<Rightarrow> (nat \<Rightarrow> bool) \<Rightarrow> (nat \<Rightarrow> (nat \<Rightarrow> bool) \<times> (nat \<Rightarrow> packet option)) \<Rightarrow> u32 \<Rightarrow>
    nat \<Rightarrow> u8 list \<Rightarrow> u8 list \<Rightarrow> ('r, 'm, 'a) dstate_scheme \<Rightarrow> ('r, 'm, 'a) dstate_scheme option" where
  "pong_loop ops cfg alive env sock i ts_msg cliaddr s = do {
     (_, _, s) \<leftarrow> app_loop alive
       (\<lambda>i (ts_msg, cliaddr, s). pong_round ops cfg (fst (env i)) (snd (env i)) sock ts_msg cliaddr s)
       i (ts_msg, cliaddr, s);
     Some s }"

definition pong_body ::
  "('r, 'm, 'z) dpdk_scheme \<Rightarrow> configuration \<Rightarrow> (nat \<Rightarrow> bool) \<Rightarrow> (nat \<Rightarrow> (nat \<Rightarrow> bool) \<times> (nat \<Rightarrow> packet option)) \<Rightarrow>
    u8 list \<Rightarrow> ('r, 'm, 'a) dstate_scheme \<Rightarrow> ('r, 'm, 'a) dstate_scheme option" where
  "pong_body ops cfg alive env junk s = do {
     (sock, s) \<leftarrow> app_socket PORT_PONG s;
     case sock of
       None \<Rightarrow> Some s
     | Some sock \<Rightarrow> pong_loop ops cfg alive env sock 0 junk (replicate 16 0) s }"

subsection \<open>The samples at the end\<close>

text \<open>
  What \<open>main\<close> writes to the log: a line for each sample (\<open>%d\<close> of an \<open>unsigned\<close>). A log that is not
  open is not defined.
\<close>

definition dump_samples :: "pingpong \<Rightarrow> int list option" where
  "dump_samples a =
     (if \<not> ping_log_enabled a then Some []
      else if ping_log_open a then Some (map sint (samples a)) else None)"

subsection \<open>Times\<close>

lemma word64_bytes64: "word64 (bytes64 w @ xs) = w"
proof -
  have "drop 4 (bytes64 w @ xs) = bytes32 (ucast (drop_bit 32 w)) @ xs"
    by (simp add: bytes64_def length_bytes)
  moreover have "word32 (bytes64 w @ xs) = ucast w" by (simp add: bytes64_def)
  ultimately have "word64 (bytes64 w @ xs) = ucast (ucast w :: u32) OR push_bit 32 (ucast (ucast (drop_bit 32 w) :: u32))"
    by (simp add: word64_def)
  also have "\<dots> = w"
    by (intro bit_word_eqI) (auto simp: bit_simps)
  finally show ?thesis .
qed

lemma timespec_of_bytes: "timespec_of (timespec_bytes t @ xs) = t"
proof -
  have "length (bytes64 w) = 8" for w by (simp add: bytes64_def length_bytes)
  then show ?thesis by (simp add: timespec_of_def timespec_bytes_def word64_bytes64)
qed

lemma length_timespec [simp]: "length (timespec_bytes t) = 16"
  by (simp add: timespec_bytes_def bytes64_def length_bytes)

lemma elapsed_sub: "elapsed now msg = timespec_sub now msg"
  by (simp add: elapsed_def timespec_sub_def)

text \<open>The sample is the number of nanoseconds, as long as that fits an \<open>int\<close>.\<close>

lemma ping_sample_eq:
  assumes "normal t" "0 \<le> sint (tv_sec t)" "sint (tv_sec t) < 2 ^ 31"
  shows "ping_sample t = (if nanos t < 2 ^ 31 then Some (word_of_int (nanos t)) else None)"
proof -
  have "to_int (sint (tv_sec t)) = sint (tv_sec t)" "to_int (sint (tv_nsec t)) = sint (tv_nsec t)"
    using assms by (simp_all add: to_int_self int_range_def normal_def)
  then show ?thesis
    using assms by (auto simp: ping_sample_def nanos_def int_range_def normal_def Let_def)
qed

end
