(* ===== verification/Pingpong_Props.thy ===== *)
theory Pingpong_Props
  imports Pingpong Apps_Props
begin

text \<open>
  Properties of the latency test: the answer carries the bytes of the question back to its
  sender, and the sample is the time between the two readings of the clock.
\<close>

subsection \<open>The answer\<close>

text \<open>The packet that answers one sent from the slot \<open>sl\<close>.\<close>

definition answer ::
  "('r, 'm, 'z) dpdk_scheme \<Rightarrow> configuration \<Rightarrow> slot_info \<Rightarrow> configuration \<Rightarrow> slot_info \<Rightarrow> u8 list \<Rightarrow> packet" where
  "answer ops cfg mine cfg' sl payload =
     [build_packet ops cfg mine \<lparr>sin_family = ucast AF_INET, sin_port = ucast (udp_port sl), sin_addr = packet_src cfg' sl\<rparr>
       16 payload]"

lemma pong_round_echo:
  assumes mac: "macs_ok cfg'" and r: "ready_sock fd s" and room: "58 \<le> data_room ops" and app: "tx_appends ops contents"
    and env: "delivers ops cfg' sl dest payload e" and len: "length payload = 16" "length msg = 16" "length cli = 16"
  shows "\<exists>s'. pong_round ops cfg (fst e) (snd e) fd msg cli s =
      Some (payload, sockaddr_bytes (ucast (udp_port sl)) (packet_src cfg' sl), s') \<and> slots s' = slots s \<and>
    (tx_q s' = tx_q s \<or> contents (tx_q s' (unat fd)) = contents (tx_q s (unat fd)) @
       [answer ops cfg (slots s (unat fd)) cfg' sl payload])"
proof -
  have fd: "unat fd < NUM_SOCKETS_MAX" "used (slots s (unat fd)) \<noteq> 0" using r by (simp_all add: ready_sock_def)
  let ?s = "s\<lparr>mbuf_pool := pktmbuf_free ops [build_packet ops cfg' sl dest (of_nat (length payload)) payload] (mbuf_pool s)\<rparr>"
  let ?cli = "sockaddr_bytes (ucast (udp_port sl)) (packet_src cfg' sl)"
  have R: "udpdk_recvfrom ops (fst e) (snd e) fd (Some msg) 16 0 (Some cli) (Some (of_nat sizeof_sockaddr_in)) s =
      Some (16, Some payload, Some ?cli, Some 16, ?s)"
    using delivers_recv [OF mac _ fd env, of 16 msg cli] len by (simp add: sizeof_sockaddr_in_def)
  have rs: "ready_sock fd ?s" using r ready_same_slots [of ?s s fd] by simp
  have l16: "unat (16 :: u64) \<le> length payload" "42 + unat (16 :: u64) \<le> data_room ops" using len(1) room by simp_all
  obtain v s' where S: "udpdk_sendto ops cfg fd payload 16 0 (Some (sockaddr_of ?cli)) 16 ?s = Some (v, s')" "slots s' = slots ?s"
      "v = -1 \<and> tx_q s' = tx_q ?s \<or> v = sint (16 :: u64) \<and> contents (tx_q s' (unat fd)) = contents (tx_q ?s (unat fd)) @
        [[build_packet ops cfg (slots ?s (unat fd)) (sockaddr_of ?cli) 16 (take (unat (16 :: u64)) payload)]]"
    using sendto_outcome [OF rs _ l16 app, of 16 cfg "sockaddr_of ?cli"] by auto
  have "pong_round ops cfg (fst e) (snd e) fd msg cli s = Some (payload, ?cli, s')"
    unfolding pong_round_def R using S(1) by (simp add: to_int_self int_range_def)
  then show ?thesis using S(2,3) len(1)
    by (intro exI [of _ s']) (auto simp: answer_def sockaddr_of_bytes)
qed

subsection \<open>The sample\<close>

lemma ping_sample_elapsed:
  assumes t: "normal now" "in_range now" "normal ts" "in_range ts" "nanos ts \<le> nanos now" "nanos now - nanos ts < 2 ^ 31 * 1000000000"
  shows "ping_sample (elapsed now ts) =
    (if nanos now - nanos ts < 2 ^ 31 then Some (word_of_int (nanos now - nanos ts)) else None)"
proof -
  note E = timespec_sub_ok [OF t(1-4)]
  have "0 \<le> sint (tv_sec (timespec_sub now ts))" using normal_negative [OF E(1)] E(2) t(5) by linarith
  moreover have "sint (tv_sec (timespec_sub now ts)) * 1000000000 < 2 ^ 31 * 1000000000"
    using E t(6) by (simp add: normal_def nanos_def)
  then have "sint (tv_sec (timespec_sub now ts)) < 2 ^ 31" by simp
  ultimately show ?thesis using ping_sample_eq [OF E(1)] E(2) by (simp add: elapsed_sub)
qed

text \<open>The question is sent, and an answer with the bytes of \<open>ts'\<close> gives a sample.\<close>

lemma ping_round_sample:
  assumes mac: "macs_ok cfg'" and r: "ready_sock fd s" and room: "58 \<le> data_room ops" and app: "tx_appends ops contents"
    and env: "delivers ops cfg' sl dest (timespec_bytes ts') e" and len: "length msg = 16" and log: "ping_log_enabled a"
    and t: "normal now" "in_range now" "normal ts'" "in_range ts'" "nanos ts' \<le> nanos now" "nanos now - nanos ts' < 2 ^ 31 * 1000000000"
  shows "\<exists>s'. ping_round ops cfg (fst e) (snd e) ts now fd msg a s =
      (if nanos now - nanos ts' < 2 ^ 31 \<and> length (samples a) < MAX_SAMPLES
       then Some (16, timespec_bytes ts', a\<lparr>samples := samples a @ [word_of_int (nanos now - nanos ts')]\<rparr>, s') else None) \<and>
    slots s' = slots s \<and>
    (tx_q s' = tx_q s \<or> contents (tx_q s' (unat fd)) = contents (tx_q s (unat fd)) @
       [[build_packet ops cfg (slots s (unat fd)) (peer PORT_PONG) 16 (timespec_bytes ts)]])"
proof -
  have l16: "unat (16 :: u64) \<le> length (timespec_bytes ts)" "42 + unat (16 :: u64) \<le> data_room ops" using room by simp_all
  obtain v s1 where S: "udpdk_sendto ops cfg fd (timespec_bytes ts) 16 0 (Some (peer PORT_PONG)) (of_nat sizeof_sockaddr_in) s = Some (v, s1)"
      "slots s1 = slots s"
      "v = -1 \<and> tx_q s1 = tx_q s \<or> v = sint (16 :: u64) \<and> contents (tx_q s1 (unat fd)) = contents (tx_q s (unat fd)) @
        [[build_packet ops cfg (slots s (unat fd)) (peer PORT_PONG) 16 (take (unat (16 :: u64)) (timespec_bytes ts))]]"
    using sendto_outcome [OF r _ l16 app, of "of_nat sizeof_sockaddr_in" cfg "peer PORT_PONG"] by (auto simp: sizeof_sockaddr_in_def)
  have fd: "unat fd < NUM_SOCKETS_MAX" "used (slots s1 (unat fd)) \<noteq> 0" using r S(2) by (simp_all add: ready_sock_def)
  let ?s = "s1\<lparr>mbuf_pool := pktmbuf_free ops [build_packet ops cfg' sl dest (of_nat (length (timespec_bytes ts'))) (timespec_bytes ts')] (mbuf_pool s1)\<rparr>"
  have R: "udpdk_recvfrom ops (fst e) (snd e) fd (Some msg) 16 0 None None s1 = Some (16, Some (timespec_bytes ts'), None, None, ?s)"
    using recv_built_plain [OF mac _ fd env, of 16 msg None] len by simp
  have "timespec_of (timespec_bytes ts') = ts'" using timespec_of_bytes [of ts' "[]"] by simp
  then have "ping_round ops cfg (fst e) (snd e) ts now fd msg a s =
      (if nanos now - nanos ts' < 2 ^ 31 \<and> length (samples a) < MAX_SAMPLES
       then Some (16, timespec_bytes ts', a\<lparr>samples := samples a @ [word_of_int (nanos now - nanos ts')]\<rparr>, ?s) else None)"
    unfolding ping_round_def S(1) using R log ping_sample_elapsed [OF t] by (simp add: to_int_self int_range_def Let_def)
  then show ?thesis using S(2,3) by (intro exI [of _ ?s]) auto
qed

subsection \<open>A run\<close>

text \<open>The nanoseconds between the two readings of round \<open>j\<close>, when each round reads the clock twice from \<open>k\<close> on.\<close>

definition latency :: "(nat \<Rightarrow> timespec) \<Rightarrow> nat \<Rightarrow> nat \<Rightarrow> int" where
  "latency clock k j = nanos (clock (k + 2 * j + 1)) - nanos (clock (k + 2 * j))"

definition add_samples :: "(nat \<Rightarrow> timespec) \<Rightarrow> nat \<Rightarrow> nat \<Rightarrow> pingpong \<Rightarrow> pingpong" where
  "add_samples clock k m a = a\<lparr>samples := samples a @ map (\<lambda>j. word_of_int (latency clock k j)) [0..<m]\<rparr>"

lemma latency_Suc: "latency clock (k + 2) j = latency clock k (Suc j)" "latency clock (Suc (Suc k)) j = latency clock k (Suc j)"
  by (simp_all add: latency_def)

lemma add_samples_0 [simp]: "add_samples clock k 0 a = a"
  by (simp add: add_samples_def)

lemma add_samples_Suc:
  "add_samples clock (k + 2) m (a\<lparr>samples := samples a @ [word_of_int (latency clock k 0)]\<rparr>) = add_samples clock k (Suc m) a"
proof -
  have "map (\<lambda>j. word_of_int (latency clock k j)) [0..<Suc m] =
      (word_of_int (latency clock k 0) :: u32) # map (\<lambda>j. word_of_int (latency clock (k + 2) j)) [0..<m]"
    by (simp add: upt_conv_Cons latency_Suc map_Suc_upt [symmetric] del: upt_Suc)
  then show ?thesis by (simp add: add_samples_def del: upt_Suc)
qed

lemma ping_loop_simps:
  "ping_loop ops cfg alive clock env sock i k ts_msg a s =
     (if \<not> alive i then Some (a, s)
      else do {
        (n, ts_msg, a, s) \<leftarrow> ping_round ops cfg (fst (env i)) (snd (env i)) (clock k) (clock (Suc k)) sock ts_msg a s;
        ping_loop ops cfg alive clock env sock (Suc i) (if 0 < n then k + 2 else k + 1) ts_msg a s })"
  by (cases "alive i") (auto simp: ping_loop_def app_loop_dead app_loop_alive split: bind_split)

lemma ping_loop_dead: "\<not> alive i \<Longrightarrow> ping_loop ops cfg alive clock env sock i k msg a s = Some (a, s)"
  by (subst ping_loop_simps) simp

text \<open>A run in which each question is answered with its own bytes.\<close>

lemma ping_loop_run:
  assumes mac: "macs_ok cfg'" and room: "58 \<le> data_room ops" and app: "tx_appends ops contents" and clk: "readable clock"
  shows "\<lbrakk>ready_sock fd s; \<And>j. j < m \<Longrightarrow> alive (i + j); \<not> alive (i + m);
      \<And>j. j < m \<Longrightarrow> delivers ops cfg' sl dest (timespec_bytes (clock (k + 2 * j))) (env (i + j));
      \<And>j. j < m \<Longrightarrow> 0 \<le> latency clock k j \<and> latency clock k j < 2 ^ 31;
      length msg = 16; ping_log_enabled a; length (samples a) + m \<le> MAX_SAMPLES\<rbrakk> \<Longrightarrow>
    \<exists>s'. ping_loop ops cfg alive clock env fd i k msg a s = Some (add_samples clock k m a, s')"
proof (induction m arbitrary: i k msg a s)
  case 0
  then show ?case by (simp add: ping_loop_dead)
next
  case (Suc m)
  let ?d = "nanos (clock (Suc k)) - nanos (clock k)"
  let ?a = "a\<lparr>samples := samples a @ [word_of_int ?d]\<rparr>"
  have l: "0 \<le> ?d" "?d < 2 ^ 31" "latency clock k 0 = ?d" using Suc.prems(5) [of 0] by (simp_all add: latency_def)
  have c: "normal (clock n)" "in_range (clock n)" for n using clk by (simp_all add: readable_def)
  have e0: "delivers ops cfg' sl dest (timespec_bytes (clock k)) (env i)" using Suc.prems(4) [of 0] by simp
  have le: "nanos (clock k) \<le> nanos (clock (Suc k))" "?d < 2 ^ 31 * 1000000000" using l by simp_all
  have rs: "ready_sock fd s" "length msg = 16" "ping_log_enabled a" by (rule Suc.prems(1), rule Suc.prems(6), rule Suc.prems(7))
  obtain s1 where R: "ping_round ops cfg (fst (env i)) (snd (env i)) (clock k) (clock (Suc k)) fd msg a s =
      (if ?d < 2 ^ 31 \<and> length (samples a) < MAX_SAMPLES then Some (16, timespec_bytes (clock k), ?a, s1) else None)"
      "slots s1 = slots s"
    by (rule exE [OF ping_round_sample [OF mac rs(1) room app e0 rs(2,3) c c le, of cfg "clock k"]]) (erule conjE, rule that, assumption, erule conjunct1)
  have R': "ping_round ops cfg (fst (env i)) (snd (env i)) (clock k) (clock (Suc k)) fd msg a s =
      Some (16, timespec_bytes (clock k), ?a, s1)"
    using R(1) l(2) Suc.prems(8) by simp
  have "\<exists>s'. ping_loop ops cfg alive clock env fd (Suc i) (k + 2) (timespec_bytes (clock k)) ?a s1 =
      Some (add_samples clock (k + 2) m ?a, s')"
  proof (rule Suc.IH)
    show "ready_sock fd s1" using rs(1) ready_same_slots [OF R(2)] by simp
    show "alive (Suc i + j)" if "j < m" for j using Suc.prems(2) [of "Suc j"] that by simp
    show "\<not> alive (Suc i + m)" using Suc.prems(3) by simp
    show "delivers ops cfg' sl dest (timespec_bytes (clock (k + 2 + 2 * j))) (env (Suc i + j))" if "j < m" for j
      using Suc.prems(4) [of "Suc j"] that by simp
    show "0 \<le> latency clock (k + 2) j \<and> latency clock (k + 2) j < 2 ^ 31" if "j < m" for j
      unfolding latency_Suc using Suc.prems(5) [of "Suc j"] that by simp
  qed (use Suc.prems(7,8) in simp_all)
  then obtain s' where "ping_loop ops cfg alive clock env fd (Suc i) (k + 2) (timespec_bytes (clock k)) ?a s1 =
      Some (add_samples clock (k + 2) m ?a, s')" by blast
  moreover have "add_samples clock (k + 2) m ?a = add_samples clock k (Suc m) a"
    using add_samples_Suc [of clock k m a] unfolding l(3) .
  ultimately show ?case
    using Suc.prems(2) [of 0] R' by (subst ping_loop_simps) simp
qed

lemma dump_samples_added:
  assumes "ping_log_enabled a" "ping_log_open a" "samples a = []"
    and "\<And>j. j < m \<Longrightarrow> 0 \<le> latency clock k j \<and> latency clock k j < 2 ^ 31"
  shows "dump_samples (add_samples clock k m a) = Some (map (latency clock k) [0..<m])"
proof -
  have "sint (word_of_int (latency clock k j) :: u32) = latency clock k j" if "j < m" for j
    using assms(4) [OF that] by (simp add: signed_of_int signed_take_bit_int_eq_self)
  then show ?thesis using assms(1-3) by (simp add: dump_samples_def add_samples_def)
qed

lemma pingpong_args_samples: "pingpong_args fopen opts a = Some (r, a') \<Longrightarrow> samples a' = samples a"
proof (induction opts arbitrary: a)
  case (Cons x opts)
  obtain c optarg where x: "x = (c, optarg)" by (cases x)
  obtain r1 a1 where o: "pingpong_option fopen c optarg a = Some (r1, a1)"
    using Cons.prems by (auto simp: x bind_eq_Some_conv)
  then have "samples a1 = samples a" by (auto simp: pingpong_option_def bind_eq_Some_conv split: if_splits)
  then show ?case using Cons.prems Cons.IH [of a1] by (auto simp: x o split: if_splits)
qed simp

end
