(* ===== verification/Dump.thy ===== *)
theory Dump
  imports Datagram Decimal
begin

text \<open>
  The packet dump (\<open>udpdk/udpdk_dump.c\<close>): each line is printed piece by piece into a buffer of 128
  characters, and \<open>sprintf\<close> ends each piece with a zero. \<open>None\<close> is a write behind the end of the
  buffer, or a read behind the end of the payload.
\<close>

subsection \<open>Printing into a buffer\<close>

definition nul :: char where "nul = CHR 0x00"

definition sprintf_at :: "nat \<Rightarrow> string \<Rightarrow> string \<Rightarrow> string option" where
  "sprintf_at off str buf =
     (if off + length str < length buf
      then Some (take off buf @ str @ [nul] @ drop (off + length str + 1) buf) else None)"

text \<open>What \<open>%s\<close> prints of a buffer.\<close>

definition c_str :: "string \<Rightarrow> string" where
  "c_str = takeWhile (\<lambda>c. c \<noteq> nul)"

definition hex_digit :: "nat \<Rightarrow> char" where
  "hex_digit d = (if d < 10 then digit d else char_of (87 + d))"

text \<open>\<open>%02x\<close>, \<open>%5d\<close>, and \<open>isprint\<close> of the C locale.\<close>

definition hex2 :: "u8 \<Rightarrow> string" where
  "hex2 b = [hex_digit (unat b div 16), hex_digit (unat b mod 16)]"

definition pad5 :: "int \<Rightarrow> string" where
  "pad5 i = (let n = show_int i in replicate (5 - length n) CHR '' '' @ n)"

definition ascii_char :: "u8 \<Rightarrow> char" where
  "ascii_char b = (if 32 \<le> unat b \<and> unat b < 127 then char_of (unat b) else CHR ''.'')"

subsection \<open>The dump\<close>

text \<open>The two loops over the bytes of a line; \<open>j\<close> is the column.\<close>

fun hex_loop :: "nat \<Rightarrow> u8 list \<Rightarrow> string \<Rightarrow> string option" where
  "hex_loop j [] buf = Some buf"
| "hex_loop j (b # bs) buf = do {
     buf \<leftarrow> sprintf_at (7 + j * 3) (hex2 b @ '' '') buf;
     hex_loop (Suc j) bs buf }"

fun ascii_loop :: "nat \<Rightarrow> u8 list \<Rightarrow> string \<Rightarrow> string option" where
  "ascii_loop j [] buf = Some buf"
| "ascii_loop j (b # bs) buf = do {
     buf \<leftarrow> sprintf_at (7 + j + 48) [ascii_char b] buf;
     ascii_loop (Suc j) bs buf }"

definition dump_line :: "nat \<Rightarrow> u8 list \<Rightarrow> string option" where
  "dump_line i bytes = do {
     let buf = replicate 128 CHR '' '';
     buf \<leftarrow> sprintf_at 0 (pad5 (int i) @ '': '') buf;
     buf \<leftarrow> hex_loop 0 bytes buf;
     buf \<leftarrow> ascii_loop 0 bytes buf;
     Some (c_str buf) }"

text \<open>The outer loop, on the bytes that are left; a line takes the next 16 of them.\<close>

fun dump_lines :: "nat \<Rightarrow> u8 list \<Rightarrow> string list option" where
  "dump_lines i [] = Some []"
| "dump_lines i (b # bs) = do {
     l \<leftarrow> dump_line i (take 16 (b # bs));
     ls \<leftarrow> dump_lines (i + length (take 16 (b # bs))) (drop 16 (b # bs));
     Some (l # ls) }"

definition udpdk_dump_payload :: "u8 list \<Rightarrow> int \<Rightarrow> string list option" where
  "udpdk_dump_payload payload len =
     (if length payload < nat len then None
      else do {
        ls \<leftarrow> dump_lines 0 (take (nat len) payload);
        Some ((''Dumping payload [len = '' @ show_int len @ '']:'') # ls) })"

definition udpdk_dump_mbuf :: "packet \<Rightarrow> string list option" where
  "udpdk_dump_mbuf m = (case m of
       [] \<Rightarrow> None
     | sg # _ \<Rightarrow> udpdk_dump_payload (data sg) (int (unat (data_len sg))))"

subsection \<open>What a line looks like\<close>

lemma sprintf_append:
  assumes "off = length pre" "length str < length X"
  shows "sprintf_at off str (pre @ X) = Some (pre @ str @ nul # drop (length str + 1) X)"
  using assms by (simp add: sprintf_at_def)

lemma length_hex2 [simp]: "length (hex2 b) = 2"
  by (simp add: hex2_def)

abbreviation hexes :: "u8 list \<Rightarrow> string" where
  "hexes bs \<equiv> concat (map (\<lambda>b. hex2 b @ '' '') bs)"

lemma length_hexes: "length (hexes bs) = 3 * length bs"
  by (induction bs) simp_all

lemma hex_loop_eq:
  assumes "length pre = 7 + j * 3" "3 * length bs < length X"
  shows "hex_loop j bs (pre @ X) = Some (pre @ hexes bs @ (if bs = [] then X else nul # drop (3 * length bs + 1) X))"
  using assms
proof (induction bs arbitrary: j pre X)
  case (Cons b bs)
  let ?X = "nul # drop 4 X"
  have s: "sprintf_at (7 + j * 3) (hex2 b @ '' '') (pre @ X) = Some ((pre @ hex2 b @ '' '') @ ?X)"
    using Cons.prems by (subst sprintf_append) simp_all
  have "hex_loop (Suc j) bs ((pre @ hex2 b @ '' '') @ ?X) =
      Some ((pre @ hex2 b @ '' '') @ hexes bs @ (if bs = [] then ?X else nul # drop (3 * length bs + 1) ?X))"
    using Cons.prems by (intro Cons.IH) simp_all
  moreover have "drop (3 * length bs + 1) ?X = drop (3 * length (b # bs) + 1) X"
    by (simp add: add.commute)
  ultimately show ?case unfolding hex_loop.simps s by (cases "bs = []") simp_all
qed simp

lemma ascii_loop_eq:
  assumes "length pre = 55 + j" "length bs < length X"
  shows "ascii_loop j bs (pre @ X) = Some (pre @ map ascii_char bs @ (if bs = [] then X else nul # drop (length bs + 1) X))"
  using assms
proof (induction bs arbitrary: j pre X)
  case (Cons b bs)
  let ?X = "nul # drop 2 X"
  have s: "sprintf_at (7 + j + 48) [ascii_char b] (pre @ X) = Some ((pre @ [ascii_char b]) @ ?X)"
    using Cons.prems by (subst sprintf_append) (simp_all add: numeral_2_eq_2)
  have "ascii_loop (Suc j) bs ((pre @ [ascii_char b]) @ ?X) =
      Some ((pre @ [ascii_char b]) @ map ascii_char bs @ (if bs = [] then ?X else nul # drop (length bs + 1) ?X))"
    using Cons.prems by (intro Cons.IH) simp_all
  moreover have "drop (length bs + 1) ?X = drop (length (b # bs) + 1) X"
    by (simp add: add.commute)
  ultimately show ?case unfolding ascii_loop.simps s by (cases "bs = []") simp_all
qed simp

text \<open>No piece has a zero in it.\<close>

lemma char_of_nonzero: "0 < n \<Longrightarrow> n < 256 \<Longrightarrow> char_of n \<noteq> nul" for n :: nat
proof
  assume n: "0 < n" "n < 256" "char_of n = nul"
  have "of_char (char_of n :: char) = n" using n(2) by simp
  moreover have "of_char nul = (0 :: nat)" by (simp add: nul_def)
  ultimately show False using n by simp
qed

lemma digit_nonzero: "d < 10 \<Longrightarrow> digit d \<noteq> nul"
  by (simp add: digit_def char_of_nonzero del: char_of_eq_iff)

lemma show_nat_nonzero: "nul \<notin> set (show_nat n)"
proof (induction n rule: show_nat.induct)
  case (1 n)
  then show ?case using digit_nonzero [of n] digit_nonzero [of "n mod 10"]
    by (cases "n < 10") (auto simp: show_nat.simps [of n])
qed

lemma pad5_nonzero: "nul \<notin> set (pad5 (int i))"
  using show_nat_nonzero [of i] by (auto simp: pad5_def show_int_def Let_def nul_def)

lemma hexes_nonzero: "nul \<notin> set (hexes bs)"
proof -
  have "hex_digit d \<noteq> nul" if "d < 16" for d
    using that digit_nonzero [of d] char_of_nonzero [of "87 + d"] by (simp add: hex_digit_def del: char_of_eq_iff)
  moreover have "unat b div 16 < 16" for b :: u8
    using unat_bound [of b] by (simp add: less_mult_imp_div_less)
  ultimately show ?thesis by (induction bs) (auto simp: hex2_def nul_def eq_commute [of "CHR 0x00"])
qed

lemma ascii_nonzero: "nul \<notin> set (map ascii_char bs)"
proof -
  have "ascii_char b \<noteq> nul" for b
    using char_of_nonzero [of "unat b"] by (auto simp: ascii_char_def nul_def simp del: char_of_eq_iff)
  then show ?thesis by (auto simp: eq_commute [of nul])
qed

lemma c_str_stop: "nul \<notin> set xs \<Longrightarrow> c_str (xs @ nul # ys) = xs"
  by (induction xs) (auto simp: c_str_def)

text \<open>The reference: the offset, the bytes in hexadecimal, and, of a full line only, the characters.\<close>

definition line_text :: "nat \<Rightarrow> u8 list \<Rightarrow> string" where
  "line_text i bs = take 7 (pad5 (int i) @ '': '') @ hexes bs @ (if length bs = 16 then map ascii_char bs else [])"

lemma length_pad5: "5 \<le> length (pad5 i)"
  by (simp add: pad5_def Let_def)

text \<open>The characters of a short line stand behind the zero of its last byte.\<close>

lemma ascii_short:
  assumes "length P < 55" "nul \<notin> set P" "bs \<noteq> []" "55 + length bs < length P + length Y"
  shows "\<exists>buf. ascii_loop 0 bs (P @ nul # Y) = Some buf \<and> c_str buf = P"
proof -
  define Q where "Q = take (54 - length P) Y"
  define R where "R = drop (54 - length P) Y"
  have Y: "P @ nul # Y = (P @ nul # Q) @ R" by (simp add: Q_def R_def)
  have "length (P @ nul # Q) = 55 + 0" "length bs < length R"
    using assms(1,4) by (simp_all add: Q_def R_def)
  from ascii_loop_eq [OF this] assms(3)
  have "ascii_loop 0 bs (P @ nul # Y) = Some ((P @ nul # Q) @ map ascii_char bs @ nul # drop (length bs + 1) R)"
    unfolding Y by simp
  then show ?thesis using c_str_stop [OF assms(2)] by simp
qed

lemma ascii_full:
  assumes "length P = 55" "nul \<notin> set P" "bs \<noteq> []" "length bs \<le> length Y"
  shows "\<exists>buf. ascii_loop 0 bs (P @ nul # Y) = Some buf \<and> c_str buf = P @ map ascii_char bs"
proof -
  have "length P = 55 + 0" "length bs < length (nul # Y)" using assms(1,4) by simp_all
  from ascii_loop_eq [OF this] assms(3)
  have "ascii_loop 0 bs (P @ nul # Y) = Some ((P @ map ascii_char bs) @ nul # drop (length bs + 1) (nul # Y))"
    by simp
  moreover have "c_str ((P @ map ascii_char bs) @ nul # drop (length bs + 1) (nul # Y)) = P @ map ascii_char bs"
    using assms(2) ascii_nonzero [of bs] by (intro c_str_stop) auto
  ultimately show ?thesis by blast
qed

lemma dump_line_eq:
  assumes "bs \<noteq> []" "length bs \<le> 16" "length (pad5 (int i)) \<le> 48"
  shows "dump_line i bs = Some (line_text i bs)"
proof -
  let ?h = "pad5 (int i) @ '': ''"
  let ?B = "?h @ nul # replicate (127 - length ?h) CHR '' ''"
  have h: "7 \<le> length ?h" "length ?h \<le> 50" using length_pad5 [of "int i"] assms(3) by simp_all
  have s: "sprintf_at 0 ?h (replicate 128 CHR '' '') = Some ?B"
    using h by (subst sprintf_append [of 0 "[]", simplified]) (simp_all add: min_def)
  define X where "X = drop 7 ?B"
  have "take 7 ?B = take 7 ?h" using h(1) by (subst take_append) simp
  then have B: "?B = take 7 ?h @ X" unfolding X_def by (metis append_take_drop_id)
  have lX: "length X = 121" unfolding X_def using h by simp
  define P where "P = take 7 ?h @ hexes bs"
  define Y where "Y = drop (3 * length bs + 1) X"
  have hx: "hex_loop 0 bs ?B = Some (P @ nul # Y)"
    unfolding B P_def Y_def using assms(1,2) h(1) lX by (subst hex_loop_eq) simp_all
  have lP: "length P = 7 + 3 * length bs" using h(1) by (simp add: P_def length_hexes)
  have lY: "length Y = 120 - 3 * length bs" using lX by (simp add: Y_def)
  have "nul \<notin> set ?h" using pad5_nonzero [of i] by (simp add: nul_def)
  then have np: "nul \<notin> set P" using hexes_nonzero [of bs] set_take_subset [of 7 ?h] by (auto simp: P_def)
  have "\<exists>buf. ascii_loop 0 bs (P @ nul # Y) = Some buf \<and> c_str buf = line_text i bs"
  proof (cases "length bs = 16")
    case True
    then show ?thesis using ascii_full [OF _ np assms(1), of Y] lP lY by (simp add: line_text_def P_def)
  next
    case False
    then show ?thesis using ascii_short [OF _ np assms(1), of Y] lP lY assms(2) by (simp add: line_text_def P_def)
  qed
  then show ?thesis unfolding dump_line_def Let_def s using hx by auto
qed

text \<open>The whole dump, for any length that an \<open>int\<close> can have.\<close>

lemma length_pad5_le: "i < 10 ^ 10 \<Longrightarrow> length (pad5 (int i)) \<le> 10"
  using length_show [of i 9] by (simp add: pad5_def show_int_def Let_def)

lemma dump_lines_eq:
  assumes "i + length bs < 10 ^ 10"
  shows "dump_lines i bs =
    Some (map (\<lambda>k. line_text (i + 16 * k) (take 16 (drop (16 * k) bs))) [0..<(length bs + 15) div 16])"
  using assms
proof (induction i bs rule: dump_lines.induct)
  case (2 i b bs)
  let ?bs = "b # bs"
  let ?f = "\<lambda>k. line_text (i + 16 * k) (take 16 (drop (16 * k) ?bs))"
  have l: "dump_line i (take 16 ?bs) = Some (?f 0)"
    using length_pad5_le [of i] 2(2) by (subst dump_line_eq) simp_all
  show ?case
  proof (cases "length ?bs \<le> 16")
    case True
    have "(length ?bs + 15) div 16 = 1" using True by (simp add: div_nat_eqI)
    moreover have "dump_lines (i + length (take 16 ?bs)) (drop 16 ?bs) = Some []" using True by simp
    ultimately show ?thesis using l by (simp only: dump_lines.simps) simp
  next
    case False
    have d: "drop (16 + 16 * x) ?bs = drop (15 + 16 * x) bs" for x
      using drop_Suc_Cons [of "15 + 16 * x" b bs] by simp
    have n: "(length ?bs + 15) div 16 = Suc ((length (drop 16 ?bs) + 15) div 16)"
      using False by (simp add: div_add_self1 [symmetric])
    have "dump_lines (i + length (take 16 ?bs)) (drop 16 ?bs) =
        Some (map (\<lambda>k. line_text (i + length (take 16 ?bs) + 16 * k) (take 16 (drop (16 * k) (drop 16 ?bs))))
          [0..<(length (drop 16 ?bs) + 15) div 16])"
      by (rule 2(1)) (use l 2(2) in auto)
    then have "dump_lines (i + length (take 16 ?bs)) (drop 16 ?bs) =
        Some (map (\<lambda>k. ?f (Suc k)) [0..<(length (drop 16 ?bs) + 15) div 16])"
      using False d by (simp add: add.commute add.left_commute)
    then show ?thesis
      unfolding dump_lines.simps l n upt_conv_Cons [OF zero_less_Suc] by (simp add: map_Suc_upt [symmetric] comp_def del: upt_Suc)
  qed
qed simp

end
