(* ===== verification/Monitor.thy ===== *)
theory Monitor
  imports Prelude
begin

text \<open>
  The link monitor (\<open>check_port_link_status\<close> of \<open>udpdk/udpdk_monitor.c\<close>): what it prints of the
  readings of a port. The \<open>i\<close>-th result of \<open>rte_eth_link_get_nowait\<close> is a parameter.
\<close>

record eth_link =
  link_speed :: u32
  link_duplex :: bool
  link_status :: bool

text \<open>The messages, and the dot with the delay of 100 ms that follows it.\<close>

datatype link_event = Get_Failed int | Link_Up u32 bool | Link_Down | Dot_Delay

definition MAX_CHECK_TIME :: nat where "MAX_CHECK_TIME = 90"

text \<open>The loop; the first argument counts the rounds left.\<close>

fun link_loop :: "(nat \<Rightarrow> int \<times> eth_link) \<Rightarrow> nat \<Rightarrow> nat \<Rightarrow> bool \<Rightarrow> link_event list" where
  "link_loop get 0 count print_flag = []"
| "link_loop get (Suc n) count print_flag =
     (let all_ports_up = True; (ret, link) = get count
      in if ret < 0 then
           (if print_flag then [Get_Failed (- ret)] else []) @ link_loop get n (Suc count) print_flag
         else if print_flag then
           (if link_status link then [Link_Up (link_speed link) (link_duplex link)]
            else Link_Down # link_loop get n (Suc count) print_flag)
         else if \<not> link_status link then []
         else if print_flag then []
         else (if \<not> all_ports_up then [Dot_Delay] else []) @
           link_loop get n (Suc count)
             (if all_ports_up \<or> count = MAX_CHECK_TIME - 1 then True else print_flag))"

definition check_port_link_status :: "(nat \<Rightarrow> int \<times> eth_link) \<Rightarrow> link_event list" where
  "check_port_link_status get = link_loop get (MAX_CHECK_TIME + 1) 0 False"

subsection \<open>What is reported\<close>

text \<open>The report of the readings after the link was found up: each one, up to the first that is up.\<close>

fun report :: "(int \<times> eth_link) list \<Rightarrow> link_event list" where
  "report [] = []"
| "report ((ret, link) # rs) =
     (if ret < 0 then Get_Failed (- ret) # report rs
      else if link_status link then [Link_Up (link_speed link) (link_duplex link)]
      else Link_Down # report rs)"

definition readings :: "(nat \<Rightarrow> int \<times> eth_link) \<Rightarrow> (int \<times> eth_link) list" where
  "readings get = map get [0..<MAX_CHECK_TIME + 1]"

definition link_report :: "(int \<times> eth_link) list \<Rightarrow> link_event list" where
  "link_report rs = (case dropWhile (\<lambda>(ret, link). ret < 0) rs of
       [] \<Rightarrow> []
     | (ret, link) # rs' \<Rightarrow> if link_status link then report rs' else [])"

lemma upt_first: "map f [k..<k + Suc n] = f k # map f [Suc k..<Suc k + n]"
  by (simp add: upt_conv_Cons del: upt_Suc)

lemma link_loop_report: "link_loop get n count True = report (map get [count..<count + n])"
proof (induction n arbitrary: count)
  case (Suc n)
  obtain ret link where g: "get count = (ret, link)" by fastforce
  show ?case unfolding upt_first using Suc.IH [of "Suc count"] by (simp add: g)
qed simp

lemma link_loop_eq: "link_loop get n count False = link_report (map get [count..<count + n])"
proof (induction n arbitrary: count)
  case (Suc n)
  obtain ret link where g: "get count = (ret, link)" by fastforce
  show ?case
    unfolding upt_first using Suc.IH [of "Suc count"] link_loop_report [of get n "Suc count"]
    by (simp add: g link_report_def)
qed (simp add: link_report_def)

lemma report_no_delay: "Dot_Delay \<notin> set (report rs)"
  by (induction rs rule: report.induct) auto

end
