(* ===== verification/Properties_Apps.thy ===== *)
theory Properties_Apps
  imports Properties_System Pktgen_Props Pingpong_Props Dump Monitor
begin

text \<open>
  Properties of the example applications, the packet dump and the link monitor, each with an
  instance.
\<close>

subsection \<open>Instances\<close>

text \<open>A clock at second 10 that is at second 100 afterwards, and the generator at 4 packets a second.\<close>

definition demo_clock :: "nat \<Rightarrow> timespec" where
  "demo_clock k = \<lparr>tv_sec = (if k = 0 then 10 else 100), tv_nsec = 0\<rparr>"

definition demo_gen :: pktgen where
  "demo_gen = pktgen_globals\<lparr>tx_rate := 4\<rparr>"

definition zero_stats :: stats_t where
  "zero_stats = \<lparr>pkts_sent = 0, pkts_recv = 0, pkts_sent_prev = 0, pkts_recv_prev = 0,
     bytes_sent = 0, bytes_recv = 0, bytes_sent_prev = 0, bytes_recv_prev = 0\<rparr>"

lemma demo_clock_nanos: "nanos (demo_clock k) = (if k = 0 then 10000000000 else 100000000000)"
  by (simp add: demo_clock_def nanos_def)

lemma demo_clock_readable: "readable demo_clock"
  by (simp add: readable_def demo_clock_def normal_def in_range_def)

lemma demo_period: "period demo_gen = 250000000"
  by (simp add: period_def demo_gen_def pktgen_globals_def)

lemma demo_paced: "paced demo_clock demo_gen (demo_clock 0) 2"
proof -
  have "\<exists>j \<ge> k. 10500000000 < nanos (demo_clock j)" for k
    by (rule exI [of _ "Suc k"]) (simp add: demo_clock_nanos)
  moreover have "normal (demo_clock 0)" using demo_clock_readable by (simp add: readable_def)
  ultimately show ?thesis
    using demo_clock_readable by (simp add: paced_def demo_clock_nanos demo_period)
qed

lemma demo_good_length: "good_length demo_loop demo_gen"
  by (simp add: good_length_def demo_loop_def demo_poller_def demo_gen_def pktgen_globals_def)

lemma demo_tx_appends: "tx_appends demo_loop (\<lambda>q. q)"
  by (auto simp: tx_appends_def demo_loop_def demo_poller_def split: if_splits)

lemma demo_can_open: "can_open port 2 demo_two"
proof -
  have "n_zones_active demo_two \<le> of_nat NUM_SOCKETS_MAX"
    by (simp add: demo_two_def demo_poll_def NUM_SOCKETS_MAX_def)
  moreover have "j < 2 \<Longrightarrow> used (slots demo_two j) \<noteq> 0" for j
    by (cases j) (simp_all add: demo_two_def)
  ultimately show ?thesis
    using demo_two_inv by (simp add: can_open_def demo_two_def closed_def NUM_SOCKETS_MAX_def)
qed

subsection \<open>Times\<close>

text \<open>
  C37: The arithmetic of \<open>struct timespec\<close> keeps times normal (less than a second of nanoseconds)
  and is exact: \<open>timespec_add\<close> and \<open>timespec_sub\<close> of normal times in a range of \<open>2 ^ 61\<close> seconds
  are normal, and count the sum and the difference of the nanoseconds.
\<close>

theorem timespec_ops_normal:
  assumes "normal a" "in_range a" "normal b" "in_range b"
  shows "normal (timespec_add a b) \<and> nanos (timespec_add a b) = nanos a + nanos b \<and>
    normal (timespec_sub a b) \<and> nanos (timespec_sub a b) = nanos a - nanos b"
  using timespec_add_ok [OF assms] timespec_sub_ok [OF assms] by blast

lemma timespec_ops_normal_witness:
  "nanos (timespec_sub \<lparr>tv_sec = 3, tv_nsec = 1\<rparr> \<lparr>tv_sec = 1, tv_nsec = 2\<rparr>) = 1999999999 \<and>
   normal (timespec_sub \<lparr>tv_sec = 3, tv_nsec = 1\<rparr> \<lparr>tv_sec = 1, tv_nsec = 2\<rparr>)"
  using timespec_ops_normal [of "\<lparr>tv_sec = 3, tv_nsec = 1\<rparr>" "\<lparr>tv_sec = 1, tv_nsec = 2\<rparr>"]
  by (simp add: normal_def in_range_def nanos_def)

text \<open>
  The busy wait for a time ends exactly when some reading of the clock is later, and it ends
  there: all readings before are not later.
\<close>

theorem wait_time_correct:
  assumes "normal ts" "in_range ts" "\<And>k. normal (clock k) \<and> in_range (clock k)"
  shows "(wait_time clock ts i \<noteq> None \<longleftrightarrow> (\<exists>j \<ge> i. ts < clock j)) \<and>
    (\<forall>j \<ge> i. ts < clock j \<and> (\<forall>k \<ge> i. k < j \<longrightarrow> clock k \<le> ts) \<longrightarrow> wait_time clock ts i = Some (clock j, Suc j))"
proof -
  have o: "ts < clock j \<longleftrightarrow> nanos ts < nanos (clock j)" "clock j \<le> ts \<longleftrightarrow> nanos (clock j) \<le> nanos ts" for j
    using less_nanos le_nanos assms(1,3) by blast+
  show ?thesis
    unfolding o
  proof (intro conjI allI impI)
    show "wait_time clock ts i \<noteq> None \<longleftrightarrow> (\<exists>j \<ge> i. nanos ts < nanos (clock j))" by (rule wait_time_ends [OF assms])
  qed (rule wait_time_least [OF assms], simp_all)
qed

lemma wait_time_correct_witness:
  "wait_time demo_clock \<lparr>tv_sec = 50, tv_nsec = 0\<rparr> 0 = Some (demo_clock 1, 2)"
proof -
  have c: "normal (demo_clock k) \<and> in_range (demo_clock k)" for k
    using demo_clock_readable by (simp add: readable_def)
  have t: "normal \<lparr>tv_sec = 50, tv_nsec = 0\<rparr>" "in_range \<lparr>tv_sec = 50, tv_nsec = 0\<rparr>"
    by (simp_all add: normal_def in_range_def)
  from wait_time_correct [where i = 0 and clock = demo_clock, OF t c, THEN conjunct2, rule_format, of 1] show ?thesis
    by (simp add: less_timespec_ext_def less_eq_timespec_ext_def demo_clock_def numeral_2_eq_2)
qed

subsection \<open>The packet generator\<close>

text \<open>
  The sender, started with a free descriptor and its port unbound, opens and binds its socket,
  and ends after \<open>m\<close> rounds when the flag is cleared then (with a rate: if the clock passes the
  deadlines). Of the rounds, \<open>n\<close> put their packet in the transmit ring, in order, and exactly
  these are counted, with the length of their payload and of the headers if that is wanted; all
  rounds do when the pool and the ring always have room.
\<close>

theorem pktgen_sends:
  assumes "can_open PORT_SEND i s" "good_length ops a" "tx_appends ops contents"
    and "\<And>j. j < m \<Longrightarrow> alive j" "\<not> alive m" "0 < tx_rate a \<Longrightarrow> paced clock a (clock 0) m"
  shows "\<exists>n s'. n \<le> m \<and> (never_full ops \<longrightarrow> n = m) \<and>
    send_body ops cfg alive clock a cnt s = Some (sent_more a n (of_nat n * of_int (sint (pktlen a))) cnt, s') \<and>
    contents (tx_q s' i) = contents (tx_q s i) @ replicate n (sent_packet ops cfg a (slots s' i)) \<and>
    udp_port (slots s' i) = ucast (bswap16 PORT_SEND)"
  by (rule send_body_run [where alive = alive and m = m and clock = clock, OF assms])

lemma pktgen_sends_witness:
  "\<exists>n s'. n \<le> 2 \<and> send_body demo_loop demo_cfg (\<lambda>j. j < 2) demo_clock demo_gen zero_stats demo_two =
    Some (sent_more demo_gen n (of_nat n * 64) zero_stats, s') \<and> length (tx_q s' 2) = n"
proof -
  have l: "sint (pktlen demo_gen) = 64" by (simp add: demo_gen_def pktgen_globals_def)
  obtain n s' where "n \<le> 2" "send_body demo_loop demo_cfg (\<lambda>j. j < 2) demo_clock demo_gen zero_stats demo_two =
      Some (sent_more demo_gen n (of_nat n * of_int (sint (pktlen demo_gen))) zero_stats, s')"
      "tx_q s' 2 = tx_q demo_two 2 @ replicate n (sent_packet demo_loop demo_cfg demo_gen (slots s' 2))"
    using pktgen_sends [where alive = "\<lambda>j. j < 2" and m = 2 and cfg = demo_cfg and cnt = zero_stats,
        OF demo_can_open demo_good_length demo_tx_appends _ _ demo_paced] by auto
  then show ?thesis unfolding l by (intro exI [of _ n] exI [of _ s']) (simp add: demo_two_def demo_poll_def)
qed

text \<open>
  C23: The sender never runs ahead of its rate: when it has done a round for each of \<open>m + 1\<close> reads of
  the flag, a reading of the clock was later than \<open>m + 1\<close> periods of \<open>10 ^ 9 div rate\<close> nanoseconds
  after the start, whatever became of the packets.
\<close>

theorem pktgen_paces:
  assumes "send_loop ops cfg alive clock a fd 0 1 (clock 0) cnt s \<noteq> None" "\<And>j. j \<le> m \<Longrightarrow> alive j"
    and "0 < tx_rate a" "readable clock" "0 \<le> nanos (clock 0)"
      "nanos (clock 0) + int (Suc m) * period a \<le> 2 ^ 61 * 1000000000"
  shows "\<exists>j \<ge> 1. nanos (clock 0) + int (Suc m) * period a < nanos (clock j)"
  by (rule send_loop_paced [OF assms(3,4,1)]) (use assms(2,4-6) in \<open>simp_all add: readable_def\<close>)

lemma pktgen_paces_witness:
  "\<exists>j \<ge> 1. 10500000000 < nanos (demo_clock j)"
proof -
  obtain s1 :: "(packet list, nat, unit, packet list) pstate" where S: "ready_sock (of_nat 2) s1" "tx_q s1 = tx_q demo_two" "mbuf_pool s1 = mbuf_pool demo_two"
    by (rule app_socket_ready [OF demo_can_open [of PORT_SEND]])
  have "\<exists>n s'. n \<le> 2 \<and> (never_full demo_loop \<longrightarrow> n = 2) \<and> send_loop demo_loop demo_cfg (\<lambda>j. j < 2) demo_clock demo_gen (of_nat 2) 0 1 (demo_clock 0) zero_stats s1 =
      Some (sent_more demo_gen n (of_nat n * of_int (sint (pktlen demo_gen))) zero_stats, s') \<and> slots s' = slots s1 \<and>
      tx_q s' (unat (of_nat 2 :: u32)) = tx_q s1 (unat (of_nat 2 :: u32)) @
        replicate n (sent_packet demo_loop demo_cfg demo_gen (slots s1 (unat (of_nat 2 :: u32))))"
    by (rule send_loop_run [OF demo_good_length demo_tx_appends S(1)]) (use demo_paced in simp_all)
  then have ends: "send_loop demo_loop demo_cfg (\<lambda>j. j < 2) demo_clock demo_gen (of_nat 2) 0 1 (demo_clock 0) zero_stats s1 \<noteq> None"
    by force
  have e: "nanos (demo_clock 0) + int (Suc 1) * period demo_gen = 10500000000"
    by (simp add: demo_clock_nanos demo_period)
  have "\<exists>j \<ge> 1. nanos (demo_clock 0) + int (Suc 1) * period demo_gen < nanos (demo_clock j)"
    by (rule pktgen_paces [OF ends _ _ demo_clock_readable]) (unfold e, simp_all add: demo_gen_def demo_clock_nanos)
  then show ?thesis unfolding e .
qed

text \<open>
  The receiver counts every packet of a run: when the next packets of its ring are those for the
  payloads \<open>ps\<close> and the flag is cleared behind them, the body ends, the packets have been counted,
  and the bytes of their payloads, and of the headers if that is wanted.
\<close>

theorem pktgen_receives:
  assumes "can_open PORT_RECV i s" "macs_ok cfg"
    and "\<forall>p \<in> set ps. 0 < length p \<and> length p \<le> 2048 \<and> (dump a \<longrightarrow> length p < 2048)"
    and "\<And>j. j < length ps \<Longrightarrow> alive j \<and> delivers ops cfg sl dest (ps ! j) (env j)" "\<not> alive (length ps)"
    and "length junk = 2048"
  shows "\<exists>s'. recv_body ops alive env a junk cnt s =
    Some (recv_more a (length ps) (of_nat (sum_list (map length ps))) cnt, s')"
  by (rule recv_body_run [OF assms])

text \<open>Two calls of \<open>udpdk_recvfrom\<close>, each with a packet at the second look at its ring.\<close>

definition demo_env :: "nat \<Rightarrow> (nat \<Rightarrow> bool) \<times> (nat \<Rightarrow> packet option)" where
  "demo_env j = (\<lambda>_. False, \<lambda>k. if k = 1 then
     Some [build_packet demo_loop demo_cfg bound_example demo_addr 3 [7, 8, 9]] else None)"

lemma demo_delivers: "delivers demo_loop demo_cfg bound_example demo_addr [7, 8, 9] (demo_env j)"
  unfolding delivers_def by (rule exI [of _ 1]) (simp add: demo_env_def)

lemma pktgen_receives_witness:
  "\<exists>cnt s'. recv_body demo_loop (\<lambda>j. j < 2) demo_env (demo_gen\<lparr>hdr_stats := True\<rparr>) (replicate 2048 0) zero_stats demo_two = Some (cnt, s') \<and>
    pkts_recv cnt = 2 \<and> bytes_recv cnt = 6 + 2 * 42"
proof -
  have "\<exists>s'. recv_body demo_loop (\<lambda>j. j < 2) demo_env (demo_gen\<lparr>hdr_stats := True\<rparr>) (replicate 2048 0) zero_stats demo_two =
      Some (recv_more (demo_gen\<lparr>hdr_stats := True\<rparr>) (length [[7, 8, 9 :: u8], [7, 8, 9]])
        (of_nat (sum_list (map length [[7, 8, 9 :: u8], [7, 8, 9]]))) zero_stats, s')"
    by (rule pktgen_receives [OF demo_can_open demo_macs, where sl = bound_example and dest = demo_addr])
      (auto simp: demo_delivers nth_Cons split: nat.split)
  then show ?thesis by (auto simp: recv_more_def zero_stats_def HDR_BYTES_def)
qed

text \<open>
  With the option to dump, a payload that fills the buffer is ended by a zero behind it: a packet
  of 2048 bytes or more makes the round undefined, a shorter one does not.
\<close>

theorem pktgen_dump_overflows:
  assumes "macs_ok cfg" "0 < length payload" "42 + length payload < 2 ^ 16"
    and "unat fd < NUM_SOCKETS_MAX" "used (slots s (unat fd)) \<noteq> 0"
    and "delivers ops cfg sl dest payload e" "length b = 2048" "length sb = 16"
  shows "recv_round ops (fst e) (snd e) a fd b sb cnt s = None \<longleftrightarrow> dump a \<and> 2048 \<le> length payload"
  using recv_round_built [OF assms, of a cnt] by (cases "dump a \<and> 2048 \<le> length payload") auto

lemma pktgen_dump_overflows_witness:
  "\<exists>s :: (packet list, nat, unit, packet list) pstate. recv_round demo_loop (\<lambda>_. False) (\<lambda>_. Some [build_packet demo_loop demo_cfg bound_example demo_addr 2048 (replicate 2048 65)])
    (demo_gen\<lparr>dump := True\<rparr>) 0 (replicate 2048 0) (replicate 16 0) zero_stats s = None \<and> sock_inv s"
proof -
  let ?e = "(\<lambda>_ :: nat. False, \<lambda>_ :: nat. Some [build_packet demo_loop demo_cfg bound_example demo_addr 2048 (replicate 2048 65)])"
  have fd: "unat (0 :: u32) < NUM_SOCKETS_MAX" "used (slots demo_two (unat (0 :: u32))) \<noteq> 0"
    by (simp_all add: NUM_SOCKETS_MAX_def demo_two_def)
  have e: "delivers demo_loop demo_cfg bound_example demo_addr (replicate 2048 65) ?e"
    unfolding delivers_def by (rule exI [of _ 0]) simp
  from pktgen_dump_overflows [OF demo_macs _ _ fd e, of "replicate 2048 0" "replicate 16 0" "demo_gen\<lparr>dump := True\<rparr>" zero_stats]
  show ?thesis using demo_two_inv(1) by (intro exI [of _ demo_two]) simp
qed

text \<open>
  The statistics: the line that the thread prints after the sender had the results \<open>rs\<close> and the
  receiver the results \<open>ns\<close> since its previous line holds the totals, and between them exactly what
  was sent and received since then: the packets, and eight times the bytes.
\<close>

theorem stats_report_exact:
  assumes "stats_round a cnt = Some (l, cnt0)" "cnt1 = fold (count_recv a) ns (fold (count_sent a) rs cnt0)"
    and "sent = length (filter (\<lambda>r. 0 < r) rs)"
    and "tx = of_int (sum_list (filter (\<lambda>r. 0 < r) rs)) + of_nat sent * hdr_bytes a"
    and "rx = of_int (sum_list ns) + of_nat (length ns) * hdr_bytes a"
  shows "\<exists>cnt2. stats_round a cnt1 = Some
    ([pkts_sent cnt + of_nat sent, of_nat sent, bytes_sent cnt + tx, tx * 8,
      pkts_recv cnt + of_nat (length ns), of_nat (length ns), bytes_recv cnt + rx, rx * 8], cnt2)"
proof -
  have log: "\<not> (log_enabled a \<and> \<not> log_open a)"
    and c0: "cnt0 = cnt\<lparr>pkts_sent_prev := pkts_sent cnt, pkts_recv_prev := pkts_recv cnt,
       bytes_sent_prev := bytes_sent cnt, bytes_recv_prev := bytes_recv cnt\<rparr>"
    using assms(1) by (auto simp: stats_round_def Let_def split: if_splits)
  have "cnt1 = recv_more a (length ns) (of_int (sum_list ns)) (sent_more a sent (of_int (sum_list (filter (\<lambda>r. 0 < r) rs))) cnt0)"
    unfolding assms(2,3) by (simp add: fold_count_sent fold_count_recv)
  then show ?thesis
    unfolding stats_round_def Let_def using log
    by (simp add: c0 sent_more_def recv_more_def assms(4,5) add.assoc)
qed

lemma stats_report_exact_witness:
  "\<exists>cnt0 cnt2. stats_round pktgen_globals (reset_stats zero_stats) = Some (replicate 8 0, cnt0) \<and>
    stats_round pktgen_globals (fold (count_recv pktgen_globals) [5] (fold (count_sent pktgen_globals) [64, -1, 64] cnt0)) =
      Some ([2, 2, 128, 1024, 1, 1, 5, 40], cnt2)"
proof -
  obtain cnt0 where c: "stats_round pktgen_globals (reset_stats zero_stats) = Some (replicate 8 0, cnt0)"
    by (simp add: stats_round_def pktgen_globals_def reset_stats_def zero_stats_def Let_def numeral_eq_Suc)
  from stats_report_exact [OF c refl refl refl refl, of "[5]" "[64, -1, 64]"] c show ?thesis
    by (simp add: pktgen_globals_def reset_stats_def)
qed

subsection \<open>The latency test\<close>

text \<open>
  C22: A round trip. The side that pings sends its clock \<open>ts\<close> to the other side, or nothing; when the
  packet with these bytes reaches the other side, that one sends the same bytes back to the address
  and the port they came from, or nothing; and when that answer reaches the first side, it records
  the nanoseconds from \<open>ts\<close> to \<open>now\<close>. The outcome is undefined when these do not fit an \<open>int\<close> (after
  2.147483647 seconds) or when the array of samples is full.
\<close>

theorem pingpong_latency:
  assumes "macs_ok cfgA" "ready_sock fdA sA" "58 \<le> data_room opsA" "tx_appends opsA contA" "length msgA = 16" "ping_log_enabled a"
    and "macs_ok cfgB" "ready_sock fdB sB" "58 \<le> data_room opsB" "tx_appends opsB contB" "length msgB = 16" "length cliB = 16"
    and "normal ts" "in_range ts" "normal now" "in_range now" "nanos ts \<le> nanos now" "nanos now - nanos ts < 2 ^ 31 * 1000000000"
    and "delivers opsB cfgA (slots sA (unat fdA)) (peer PORT_PONG) (timespec_bytes ts) eB"
    and "delivers opsA cfgB (slots sB (unat fdB)) dest (timespec_bytes ts) eA"
    and "dest = \<lparr>sin_family = ucast AF_INET, sin_port = ucast (udp_port (slots sA (unat fdA))),
      sin_addr = packet_src cfgA (slots sA (unat fdA))\<rparr>"
  shows "(\<exists>sA'. ping_round opsA cfgA (fst eA) (snd eA) ts now fdA msgA a sA =
      (if nanos now - nanos ts < 2 ^ 31 \<and> length (samples a) < MAX_SAMPLES
       then Some (16, timespec_bytes ts, a\<lparr>samples := samples a @ [word_of_int (nanos now - nanos ts)]\<rparr>, sA') else None) \<and>
      (tx_q sA' = tx_q sA \<or> contA (tx_q sA' (unat fdA)) = contA (tx_q sA (unat fdA)) @
        [[build_packet opsA cfgA (slots sA (unat fdA)) (peer PORT_PONG) 16 (timespec_bytes ts)]])) \<and>
    (\<exists>sB' cli. pong_round opsB cfgB (fst eB) (snd eB) fdB msgB cliB sB = Some (timespec_bytes ts, cli, sB') \<and>
      (tx_q sB' = tx_q sB \<or> contB (tx_q sB' (unat fdB)) = contB (tx_q sB (unat fdB)) @
        [[build_packet opsB cfgB (slots sB (unat fdB)) dest 16 (timespec_bytes ts)]]))"
proof
  show "\<exists>sA'. ping_round opsA cfgA (fst eA) (snd eA) ts now fdA msgA a sA =
      (if nanos now - nanos ts < 2 ^ 31 \<and> length (samples a) < MAX_SAMPLES
       then Some (16, timespec_bytes ts, a\<lparr>samples := samples a @ [word_of_int (nanos now - nanos ts)]\<rparr>, sA') else None) \<and>
      (tx_q sA' = tx_q sA \<or> contA (tx_q sA' (unat fdA)) = contA (tx_q sA (unat fdA)) @
        [[build_packet opsA cfgA (slots sA (unat fdA)) (peer PORT_PONG) 16 (timespec_bytes ts)]])"
    using ping_round_sample [OF assms(7,2,3,4,20,5,6,15,16,13,14,17,18), of cfgA ts] by (elim exE conjE) (rule exI, rule conjI)
  show "\<exists>sB' cli. pong_round opsB cfgB (fst eB) (snd eB) fdB msgB cliB sB = Some (timespec_bytes ts, cli, sB') \<and>
      (tx_q sB' = tx_q sB \<or> contB (tx_q sB' (unat fdB)) = contB (tx_q sB (unat fdB)) @
        [[build_packet opsB cfgB (slots sB (unat fdB)) dest 16 (timespec_bytes ts)]])"
    using pong_round_echo [OF assms(1,8-10,19) _ assms(11,12), of cfgB] by (auto simp: answer_def assms(21))
qed

text \<open>Socket 2 of the one machine pings socket 2 of the other, and half a second passes.\<close>

lemma demo_ready_sock:
  obtains s :: "(packet list, nat, unit, packet list) pstate" where "ready_sock (of_nat 2) s"
  by (rule app_socket_ready [OF demo_can_open [of PORT_PING]])

lemma pingpong_latency_witness:
  "\<exists>e. \<exists>sA sA' :: (packet list, nat, unit, packet list) pstate.
    ping_round demo_loop demo_cfg (fst e) (snd e) \<lparr>tv_sec = 7, tv_nsec = 600000000\<rparr> \<lparr>tv_sec = 8, tv_nsec = 100000000\<rparr> (of_nat 2)
      (replicate 16 0) (pingpong_globals\<lparr>ping_log_enabled := True\<rparr>) sA =
    Some (16, timespec_bytes \<lparr>tv_sec = 7, tv_nsec = 600000000\<rparr>,
      pingpong_globals\<lparr>ping_log_enabled := True, samples := [500000000]\<rparr>, sA')"
proof -
  let ?ts = "\<lparr>tv_sec = 7, tv_nsec = 600000000\<rparr>" and ?now = "\<lparr>tv_sec = 8, tv_nsec = 100000000\<rparr>"
  let ?a = "pingpong_globals\<lparr>ping_log_enabled := True\<rparr>"
  obtain s :: "(packet list, nat, unit, packet list) pstate" where r: "ready_sock (of_nat 2) s"
    by (rule demo_ready_sock)
  let ?sl = "slots s (unat (of_nat 2 :: u32))"
  let ?dest = "\<lparr>sin_family = ucast AF_INET, sin_port = ucast (udp_port ?sl), sin_addr = packet_src demo_cfg ?sl\<rparr>"
  let ?e = "\<lambda>dest. (\<lambda>_ :: nat. False, \<lambda>_ :: nat. Some [build_packet demo_loop demo_cfg ?sl dest 16 (timespec_bytes ?ts)])"
  have e: "delivers demo_loop demo_cfg ?sl dest (timespec_bytes ?ts) (?e dest)" for dest
    unfolding delivers_def by (rule exI [of _ 0]) simp
  have room: "58 \<le> data_room demo_loop" by (simp add: demo_loop_def demo_poller_def)
  have m: "length (replicate 16 (0 :: u8)) = 16" "ping_log_enabled ?a" by simp_all
  have n: "nanos ?ts = 7600000000" "nanos ?now = 8100000000" by (simp_all add: nanos_def)
  have t: "normal ?ts" "in_range ?ts" "normal ?now" "in_range ?now" "nanos ?ts \<le> nanos ?now"
    "nanos ?now - nanos ?ts < 2 ^ 31 * 1000000000"
    unfolding n by (simp_all add: normal_def in_range_def)
  have fits: "nanos ?now - nanos ?ts < 2 ^ 31 \<and> length (samples ?a) < MAX_SAMPLES"
    "samples ?a @ [word_of_int (nanos ?now - nanos ?ts)] = [500000000]"
    unfolding n by (simp_all add: pingpong_globals_def MAX_SAMPLES_def)
  note L = pingpong_latency [OF demo_macs r room demo_tx_appends m demo_macs r room demo_tx_appends m(1) m(1) t e e refl]
  from L [THEN conjunct1] obtain sA' where
    "ping_round demo_loop demo_cfg (fst (?e ?dest)) (snd (?e ?dest)) ?ts ?now (of_nat 2) (replicate 16 0) ?a s =
      Some (16, timespec_bytes ?ts, ?a\<lparr>samples := [500000000]\<rparr>, sA')"
    unfolding if_P [OF fits(1)] fits(2) by blast
  then show ?thesis by blast
qed

subsection \<open>The packet dump\<close>

text \<open>
  C38: The dump of a payload stays inside its buffer of 128 characters and prints a line for every 16
  bytes: the offset, the bytes in hexadecimal and, of a full line, the printable characters. A last
  line of less than 16 bytes prints no characters: they stand behind the zero that ends its last
  byte.
\<close>

theorem dump_payload_correct:
  assumes "0 \<le> len" "nat len \<le> length payload" "len < 2 ^ 31"
  shows "udpdk_dump_payload payload len =
    Some ((''Dumping payload [len = '' @ show_int len @ '']:'') #
      map (\<lambda>k. line_text (16 * k) (take 16 (drop (16 * k) (take (nat len) payload)))) [0..<(nat len + 15) div 16])"
proof -
  have "nat len < 10 ^ 10" using assms(3) by simp
  then show ?thesis
    using assms(2) dump_lines_eq [of 0 "take (nat len) payload"] by (simp add: udpdk_dump_payload_def)
qed

lemma dump_payload_correct_witness:
  "udpdk_dump_payload [72, 105, 10] 3 = Some [''Dumping payload [len = 3]:'', ''    0: 48 69 0a '']"
proof -
  have "udpdk_dump_payload [72, 105, 10] 3 = Some ((''Dumping payload [len = '' @ show_int 3 @ '']:'') #
      map (\<lambda>k. line_text (16 * k) (take 16 (drop (16 * k) (take (nat 3) [72, 105, 10])))) [0..<(nat 3 + 15) div 16])"
    by (rule dump_payload_correct) simp_all
  also have "[0..<(nat 3 + 15) div 16] = [0]" by simp
  finally show ?thesis by (simp, code_simp)
qed

subsection \<open>The link monitor\<close>

text \<open>
  C39: The link monitor takes at most 91 readings. Failed readings at the beginning are passed over in
  silence; the first reading that does not fail ends the check without a message if the link is
  down, and is not reported if it is up; the readings behind it are reported, failures too, up to
  the first one that is up. There is never a delay between two readings.
\<close>

theorem link_report_correct:
  "check_port_link_status get = link_report (readings get) \<and> length (readings get) = 91 \<and>
   Dot_Delay \<notin> set (check_port_link_status get)"
proof -
  have e: "check_port_link_status get = link_report (readings get)"
    using link_loop_eq [of get "MAX_CHECK_TIME + 1" 0] by (simp add: check_port_link_status_def readings_def)
  have "Dot_Delay \<notin> set (link_report rs)" for rs
    using report_no_delay by (auto simp: link_report_def split: list.split)
  then show ?thesis unfolding e by (simp add: readings_def MAX_CHECK_TIME_def)
qed

end
