(* ===== verification/Mains.thy ===== *)
theory Mains
  imports Init Pktgen Pingpong
begin

text \<open>
  The two applications from their start to their end (\<open>main\<close> and the signal handlers of
  \<open>apps/pktgen/main.c\<close> and \<open>apps/pingpong/main.c\<close>), as one process runs them: the initialisation of the
  library, the arguments, the body, and the cleanup. The thread that prints the statistics of the
  generator is left out; its rounds change no counter that the bodies use.
\<close>

subsection \<open>From the initialisation to the socket calls\<close>

text \<open>
  The socket calls work on the rings of the exchange slots and on the pool of buffers; a
  successful initialisation has made them all.
\<close>

definition run_state :: "('r, 'q, 'm, 'd, 'a) app_scheme \<Rightarrow> ('r, 'm) dstate" where
  "run_state s = sstate.extend (sstate.truncate s)
     (dstate.fields (\<lambda>i. the (tx_ring (app_rings s) i)) (app_pools s))"

definition packet_config :: "process \<Rightarrow> configuration" where
  "packet_config g = configuration.truncate (proc_config g)"

text \<open>The handlers of \<open>SIGINT\<close> and \<open>SIGTERM\<close>: on the globals, and on \<open>app_alive\<close>.\<close>

definition signal_handler :: "int \<Rightarrow> process \<times> bool \<Rightarrow> process \<times> bool" where
  "signal_handler signum p = (udpdk_interrupt signum (fst p), False)"

text \<open>The zones of the system, and the ports that are closed at the end.\<close>

record 'z system =
  free_zone :: "ptr \<Rightarrow> 'z \<Rightarrow> 'z"
  find_zone :: "string \<Rightarrow> 'z \<Rightarrow> ptr option"
  eth_ports :: "nat list"

definition final_cleanup ::
  "('z, 'y) system_scheme \<Rightarrow> process \<Rightarrow> bool \<Rightarrow> 'a sstate_scheme \<Rightarrow> 'z \<Rightarrow> (system_call list \<times> bool list \<times> 'z) option" where
  "final_cleanup sys g mapped s z =
     (let g = udpdk_interrupt 0 g
      in do {
        (calls, ws, z, s) \<leftarrow> udpdk_cleanup (free_zone sys) (find_zone sys) (eth_ports sys) (poller_pid g) mapped s z;
        Some (calls, ws, z) })"

subsection \<open>The latency test\<close>

text \<open>
  \<open>start\<close> is the call of \<open>udpdk_init\<close> with the arguments of the process. The result is the lines of
  the log and what the cleanup did; \<open>Some None\<close> is the process of the poller, which ends inside
  \<open>udpdk_init\<close>.
\<close>

definition pingpong_end ::
  "('z, 'y) system_scheme \<Rightarrow> pingpong \<Rightarrow> process \<Rightarrow> bool \<Rightarrow> 'a sstate_scheme \<Rightarrow> 'z \<Rightarrow>
    (int list \<times> system_call list \<times> bool list \<times> 'z) option option" where
  "pingpong_end sys a g mapped s z = do {
     l \<leftarrow> dump_samples a;
     r \<leftarrow> final_cleanup sys g mapped s z;
     Some (Some (l, r)) }"

definition pingpong_main ::
  "('z, 'y) system_scheme \<Rightarrow>
    (process \<Rightarrow> ('r, 'q, 'm, 'd, 'a) app_scheme \<Rightarrow> (int option \<times> process \<times> ('r, 'q, 'm, 'd, 'a) app_scheme) option) \<Rightarrow>
    ('r, 'm, 'x) dpdk_scheme \<Rightarrow> (string \<Rightarrow> bool) \<Rightarrow> (char \<times> string) list \<Rightarrow> (nat \<Rightarrow> bool) \<Rightarrow> (nat \<Rightarrow> timespec) \<Rightarrow>
    (nat \<Rightarrow> (nat \<Rightarrow> bool) \<times> (nat \<Rightarrow> packet option)) \<Rightarrow> u8 list \<Rightarrow> process \<Rightarrow> ('r, 'q, 'm, 'd, 'a) app_scheme \<Rightarrow> 'z \<Rightarrow>
    (int list \<times> system_call list \<times> bool list \<times> 'z) option option" where
  "pingpong_main sys start ops fopen opts alive clock env junk g s z = do {
     (retval, g, s) \<leftarrow> start g s;
     case retval of
       None \<Rightarrow> Some None
     | Some retval \<Rightarrow>
         if retval < 0 then pingpong_end sys pingpong_globals g (zone_mapped s) s z
         else do {
           (retval, a) \<leftarrow> pingpong_args fopen opts pingpong_globals;
           if retval \<noteq> 0 then pingpong_end sys a g (zone_mapped s) s z
           else do {
             (a, d) \<leftarrow> (case ping_mode a of
                 PING \<Rightarrow> ping_body ops (packet_config g) fopen alive clock env junk a (run_state s)
               | PONG \<Rightarrow> map_option (Pair a) (pong_body ops (packet_config g) alive env junk (run_state s)));
             pingpong_end sys a g (zone_mapped s) d z } } }"

subsection \<open>The packet generator\<close>

text \<open>
  \<open>thread\<close> is whether \<open>stats_thr\<close> was started: cancelling a thread that does not exist is undefined,
  and so is closing a log that is not open. The result is the statistics, and what the cleanup
  did; \<open>Some None\<close> is the process of the poller, or one whose thread could not be started, which
  ends without a cleanup.
\<close>

definition pktgen_end ::
  "('z, 'y) system_scheme \<Rightarrow> bool \<Rightarrow> pktgen \<Rightarrow> stats_t \<Rightarrow> process \<Rightarrow> bool \<Rightarrow> 'a sstate_scheme \<Rightarrow> 'z \<Rightarrow>
    (stats_t \<times> system_call list \<times> bool list \<times> 'z) option option" where
  "pktgen_end sys thread a cnt g mapped s z =
     (if \<not> thread then None
      else if log_enabled a \<and> \<not> log_open a then None
      else do {
        r \<leftarrow> final_cleanup sys g mapped s z;
        Some (Some (cnt, r)) })"

definition pktgen_main ::
  "('z, 'y) system_scheme \<Rightarrow>
    (process \<Rightarrow> ('r, 'q, 'm, 'd, 'a) app_scheme \<Rightarrow> (int option \<times> process \<times> ('r, 'q, 'm, 'd, 'a) app_scheme) option) \<Rightarrow>
    ('r, 'm, 'x) dpdk_scheme \<Rightarrow> (string \<Rightarrow> bool) \<Rightarrow> (char \<times> string) list \<Rightarrow> int \<Rightarrow> (nat \<Rightarrow> bool) \<Rightarrow> (nat \<Rightarrow> timespec) \<Rightarrow>
    (nat \<Rightarrow> (nat \<Rightarrow> bool) \<times> (nat \<Rightarrow> packet option)) \<Rightarrow> u8 list \<Rightarrow> stats_t \<Rightarrow> process \<Rightarrow> ('r, 'q, 'm, 'd, 'a) app_scheme \<Rightarrow> 'z \<Rightarrow>
    (stats_t \<times> system_call list \<times> bool list \<times> 'z) option option" where
  "pktgen_main sys start ops fopen opts pthread_create alive clock env junk cnt g s z = do {
     (retval, g, s) \<leftarrow> start g s;
     case retval of
       None \<Rightarrow> Some None
     | Some retval \<Rightarrow>
         if retval < 0 then pktgen_end sys False pktgen_globals cnt g (zone_mapped s) s z
         else do {
           (retval, a) \<leftarrow> pktgen_args fopen opts pktgen_globals;
           if retval \<noteq> 0 then pktgen_end sys False a cnt g (zone_mapped s) s z
           else do {
             let a = (if log_enabled a then a\<lparr>log_open := fopen (log_file a)\<rparr> else a);
             let cnt = reset_stats cnt;
             if pthread_create \<noteq> 0 then Some None
             else do {
               (cnt, d) \<leftarrow> (case mode a of
                   SEND \<Rightarrow> send_body ops (packet_config g) alive clock a cnt (run_state s)
                 | RECV \<Rightarrow> recv_body ops alive env a junk cnt (run_state s));
               pktgen_end sys True a cnt g (zone_mapped s) d z } } } }"

end
