(* ===== verification/Lifecycle.thy ===== *)
theory Lifecycle
  imports Mains Pktgen_Props Pingpong_Props Init_Props System
begin

text \<open>
  The life of an application with one socket on the system as \<open>udpdk_init\<close> really leaves it, with
  pools whose elements have one byte: the one binding is stored, the socket works, and the
  cleanup takes the binding away again.
\<close>

subsection \<open>The first binding\<close>

lemma alloc_of_cong:
  assumes "list_alloc s' = list_alloc s" "node_alloc s' = node_alloc s" "iter_alloc s' = iter_alloc s" "info_alloc s' = info_alloc s"
  shows "alloc_of s' K = alloc_of s K"
  using assms by (cases K) simp_all

text \<open>A table with the one binding of socket 0 on a port, and room for an iterator.\<close>

definition one_binding :: "u16 \<Rightarrow> u32 \<Rightarrow> 'a bshm_scheme \<Rightarrow> bool" where
  "one_binding port ip s \<longleftrightarrow> table_inv s \<and> iter_room s \<and> has_free s IterObj \<and>
     bindings s = (\<lambda>_. [])(port := [new_info 0 ip 0])"

lemma booted_bind:
  assumes z: "zones_ok reserve" and b: "booted reserve s"
  shows "\<exists>s'. btable_add_binding 0 ip port 0 s = Some (0, s') \<and> one_binding port ip s' \<and> bshm.more s' = bshm.more s"
proof -
  note t = booted_table [OF b] and rm = booted_room [OF z b]
  obtain s' where s': "btable_add_binding 0 ip port 0 s = Some (0, s')" "table_inv s'" "same_pools s s'"
      "bindings s' = (\<lambda>_. [])(port := [new_info 0 ip 0])"
    using btable_add_refine [OF t(1) rm booted_free [OF b], of 0 ip port 0] t(2) by (auto simp: insert_binding_def)
  have al: "\<exists>a p a'. alloc_of s K = Some a \<and> udpdk_shmalloc a = (p, a') \<and> p \<in> with_next s K \<and> live a' = {p}" for K
  proof -
    obtain a where a: "alloc_of s K = Some a" "alloc_inv a" "live a = {}" by (rule bootedD [OF b, of K])
    have nf: "n_free a \<noteq> 0" using booted_free [OF b, of K] a(1) by (auto simp: has_free_def)
    obtain p a' where p: "udpdk_shmalloc a = (p, a')" by fastforce
    have "live a' = {p}" using live_shmalloc(1) [OF a(2) nf] p a(3) by simp
    then show ?thesis using a(1) p shmalloc_with_next [OF a(1) nf p] by blast
  qed
  obtain la l la' where la: "list_alloc s = Some la" "udpdk_shmalloc la = (l, la')" "l \<in> with_next s ListObj" "live la' = {l}"
    using al [of ListObj] by auto
  obtain na n na' where na: "node_alloc s = Some na" "udpdk_shmalloc na = (n, na')" "n \<in> with_next s NodeObj" "live na' = {n}"
    using al [of NodeObj] by auto
  obtain fa f fa' where fa: "info_alloc s = Some fa" "udpdk_shmalloc fa = (f, fa')" "f \<in> with_next s InfoObj" "live fa' = {f}"
    using al [of InfoObj] by auto
  have nl: "sock_bind_table s port = NULL" using b by (simp add: booted_def)
  have sep: "separated (with_next s)" using rm by (simp add: room_def)
  obtain m' where m': "add_rest 0 ip port 0 s = Some (0, s\<lparr>mem := m', list_alloc := Some la', node_alloc := Some na',
      info_alloc := Some fa', sock_bind_table := (sock_bind_table s)(port := l)\<rparr>)"
    using add_rest_fresh [OF nl la(1,2) na(1,2) fa(1,2) sep la(3) na(3) fa(3)] by blast
  then have e: "s' = s\<lparr>mem := m', list_alloc := Some la', node_alloc := Some na',
      info_alloc := Some fa', sock_bind_table := (sock_bind_table s)(port := l)\<rparr>"
    using s'(1) can_bind_free [OF nl, of ip 0] by (simp add: btable_add_binding_eq)
  have fr: "footprint_of s' ListObj = {l}" "footprint_of s' NodeObj = {n}" "footprint_of s' InfoObj = {f}"
    "with_next s' IterObj = with_next s IterObj" "has_free s' IterObj = has_free s IterObj"
    using la(4) na(4) fa(4) by (simp_all add: footprint_of_def with_next_def has_free_def e)
  have sub: "next_iter s' K \<subseteq> with_next s K" for K
    using fr la(3) na(3) fa(3) by (cases K) (simp_all add: next_iter_def)
  have "iter_room s'" unfolding iter_room_def by (rule separated_mono [OF sep sub])
  moreover have "has_free s' IterObj" using booted_free [OF b] fr(5) by simp
  ultimately show ?thesis using s' same_pools_more [OF s'(3)] by (auto simp: one_binding_def)
qed

lemma table_inv_cong:
  assumes "mem s' = mem s" "\<And>K. alloc_of s' K = alloc_of s K" "sock_bind_table s' = sock_bind_table s"
  shows "table_inv s' = table_inv s" "bindings s' = bindings s"
proof -
  have fp: "footprint_of s' = footprint_of s" by (rule ext) (simp add: footprint_of_def assms(2))
  show "table_inv s' = table_inv s" by (simp add: table_inv_def allocs_ok_def fp assms)
  show "bindings s' = bindings s" by (rule ext) (simp add: bindings_def assms(1,3))
qed

lemma one_binding_cong:
  assumes "mem s' = mem s" "\<And>K. alloc_of s' K = alloc_of s K" "sock_bind_table s' = sock_bind_table s"
  shows "one_binding port ip s' = one_binding port ip s"
proof -
  have fp: "footprint_of s' = footprint_of s" and wn: "with_next s' = with_next s"
    by (rule ext, simp add: footprint_of_def with_next_def assms(2))+
  have ni: "next_iter s' = next_iter s" unfolding next_iter_def fp wn ..
  note bs = table_inv_cong(2) [OF assms] and table_inv_cong(1) [OF assms]
  moreover have "has_free s' IterObj = has_free s IterObj" by (simp only: has_free_def assms(2))
  ultimately show ?thesis by (simp only: one_binding_def iter_room_def ni bs)
qed

lemma one_binding_del:
  assumes "one_binding port ip s"
  shows "\<exists>s'. btable_del_binding 0 port s = Some s' \<and> table_inv s' \<and> bindings s' = (\<lambda>_. []) \<and> bshm.more s' = bshm.more s"
proof -
  have o: "table_inv s" "iter_room s" "has_free s IterObj" "bindings s = (\<lambda>_. [])(port := [new_info 0 ip 0])"
    using assms by (simp_all add: one_binding_def)
  have ne: "bindings s port \<noteq> []" by (simp add: o(4))
  obtain s' where s': "btable_del_binding 0 port s = Some s'" "table_inv s'" "same_pools s s'"
      "bindings s' = (bindings s)(port := remove_socket 0 (bindings s port))"
    using btable_del_refine [OF o(1-3) ne] by blast
  have "remove_socket 0 (bindings s port) = []" by (simp add: o(4) new_info_def)
  then have "bindings s' = (\<lambda>_. [])" using s'(4) by (auto simp: o(4))
  then show ?thesis using s'(1,2) same_pools_more [OF s'(3)] by blast
qed

lemma booted_cong:
  assumes "\<And>K. alloc_of s' K = alloc_of s K" "sock_bind_table s' = sock_bind_table s"
  shows "booted reserve s' = booted reserve s"
  by (simp only: booted_def assms)

subsection \<open>The only socket\<close>

text \<open>Socket 0 is bound to the wildcard on a port (in network order), and no other socket is.\<close>

definition only_socket :: "u16 \<Rightarrow> 'a sstate_scheme \<Rightarrow> bool" where
  "only_socket port s \<longleftrightarrow> one_binding port INADDR_ANY s \<and> used (slots s 0) \<noteq> 0 \<and> bound (slots s 0) \<noteq> 0 \<and>
     udp_port (slots s 0) = ucast port \<and> (\<forall>k. k \<noteq> 0 \<longrightarrow> bound (slots s k) = 0)"

lemma only_socket_ready: "only_socket port s \<Longrightarrow> ready_sock 0 s"
  by (simp add: only_socket_def ready_sock_def NUM_SOCKETS_MAX_def)

lemma app_socket_booted:
  assumes z: "zones_ok reserve" and b: "booted reserve s" and sl: "slots s = (\<lambda>_. zero_slot)" "n_zones_active s = 0"
  shows "\<exists>s'. app_socket port s = Some (Some 0, s') \<and> only_socket (bswap16 port) s' \<and> sstate.more s' = sstate.more s"
proof -
  let ?a = "\<lparr>sin_family = ucast AF_INET, sin_port = bswap16 port, sin_addr = INADDR_ANY\<rparr>"
  let ?v = "open_slot 0 zero_slot"
  let ?s1 = "s\<lparr>slots := (slots s)(0 := ?v), n_zones_active := n_zones_active s + 1\<rparr>"
  have n: "\<not> of_nat NUM_SOCKETS_MAX < n_zones_active s" by (simp add: sl(2))
  have f: "free_slot_loop NUM_SOCKETS_MAX 0 (slots s) = 0" by (simp add: sl(1) zero_slot_def NUM_SOCKETS_MAX_def numeral_eq_Suc)
  have s1: "udpdk_socket AF_INET SOCK_DGRAM 0 s = (0, ?s1)"
    using n f by (simp add: udpdk_socket_def socket_validate_args_def sl(1) Let_def NUM_SOCKETS_MAX_def)
  have b1: "booted reserve ?s1" using b by (subst booted_cong [where s = s]) (auto intro: alloc_of_cong)
  obtain s2 where s2: "btable_add_binding 0 INADDR_ANY (bswap16 port) 0 ?s1 = Some (0, s2)"
      "one_binding (bswap16 port) INADDR_ANY s2" "bshm.more s2 = bshm.more ?s1"
    using booted_bind [OF z b1] by blast
  note r = rest_fields [OF s2(3)]
  have fd: "unat (0 :: u32) < NUM_SOCKETS_MAX" by (simp add: NUM_SOCKETS_MAX_def)
  have ga: "good_addr ?a (of_nat sizeof_sockaddr_in)" by (simp add: good_addr_def AF_INET_def)
  have v: "bind_validate_args 0 (Some ?a) (of_nat sizeof_sockaddr_in) ?s1 = Some (0, ?s1)"
    by (rule bind_valid [OF fd _ _ ga]) (simp_all add: open_slot_def)
  let ?s3 = "s2\<lparr>slots := (slots ?s1)(0 := bound_slot ?a ?v)\<rparr>"
  have "udpdk_bind 0 (Some ?a) (of_nat sizeof_sockaddr_in) ?s1 = Some (0, ?s3)"
    using s2(1) r v slot_at_in [OF fd, of ?s1] slot_at_in [OF fd, of s2]
    by (simp add: udpdk_bind_def set_slot_def bound_slot_def open_slot_def zero_slot_def)
  then have "app_socket port s = Some (Some 0, ?s3)" using s1 by (simp add: app_socket_def)
  moreover have "one_binding (bswap16 port) INADDR_ANY ?s3"
    using s2(2) by (subst one_binding_cong [where s = s2]) (auto intro: alloc_of_cong)
  then have "only_socket (bswap16 port) ?s3"
    by (simp add: only_socket_def bound_slot_def open_slot_def zero_slot_def sl(1))
  ultimately show ?thesis using r by (intro exI [of _ ?s3]) simp
qed

subsection \<open>The loops of the applications\<close>

text \<open>A loop whose rounds keep what the processes share keeps it as well; \<open>part\<close> is the state in the loop's.\<close>

lemma kept_shared:
  assumes loop: "app_loop alive body i x = Some x'" and r: "ready_sock fd (part x)"
    and keep: "\<And>j x x'. ready_sock fd (part x) \<Longrightarrow> body j x = Some x' \<Longrightarrow> same_shared (part x) (part x')"
  shows "same_shared (part x) (part x')"
proof -
  have "ready_sock fd (part x') \<and> same_shared (part x) (part x')"
    by (rule app_loop_invariant [OF loop, where P = "\<lambda>u. ready_sock fd (part u) \<and> same_shared (part x) (part u)"])
      (use r keep same_shared_ready same_shared_trans in \<open>simp, blast\<close>)
  then show ?thesis ..
qed

lemma send_loop_shared:
  assumes "send_loop ops cfg alive clock a fd i k t cnt s = Some y" "ready_sock fd s"
  shows "same_shared s (snd y)"
proof -
  obtain k' t' where loop: "app_loop alive (\<lambda>_. send_round ops cfg clock a fd) i (k, t, cnt, s) = Some (k', t', y)"
    using assms(1) by (auto simp: send_loop_def bind_eq_Some_conv)
  have "same_shared s1 s2" if "ready_sock fd s1" "send_round ops cfg clock a fd (k1, t1, c1, s1) = Some (k2, t2, c2, s2)" for k1 t1 c1 s1 k2 t2 c2 s2
    using that(2) sendto_shared [OF that(1)] by (auto simp: send_round_def bind_eq_Some_conv)
  then have "same_shared ((\<lambda>(_, _, _, s). s) (k, t, cnt, s)) ((\<lambda>(_, _, _, s). s) (k', t', y))"
    by (intro kept_shared [OF loop, of fd]) (use assms(2) in auto)
  then show ?thesis by (simp add: case_prod_beta)
qed

lemma recv_round_shared:
  assumes "recv_round ops intr deq a fd b sb cnt s = Some (b', sb', cnt', s')" "ready_sock fd s"
  shows "same_shared s s'"
  using assms(1) recvfrom_shared [OF assms(2)]
  by (auto simp: recv_round_def bind_eq_Some_conv Let_def split: if_splits)

lemma recv_loop_shared:
  assumes "recv_loop ops alive env a fd i b sb cnt s = Some y" "ready_sock fd s"
  shows "same_shared s (snd y)"
proof -
  obtain b' sb' where loop: "app_loop alive
      (\<lambda>i (b, sb, cnt, s). recv_round ops (fst (env i)) (snd (env i)) a fd b sb cnt s) i (b, sb, cnt, s) = Some (b', sb', y)"
    using assms(1) by (auto simp: recv_loop_def bind_eq_Some_conv)
  have "same_shared ((\<lambda>(_, _, _, s). s) (b, sb, cnt, s)) ((\<lambda>(_, _, _, s). s) (b', sb', y))"
    by (intro kept_shared [OF loop, of fd]) (use assms(2) recv_round_shared in auto)
  then show ?thesis by (simp add: case_prod_beta)
qed

lemma ping_round_shared:
  assumes "ping_round ops cfg intr deq ts now fd msg a s = Some (n, msg', a', s')" "ready_sock fd s"
  shows "same_shared s s'"
proof -
  obtain v s1 where S: "udpdk_sendto ops cfg fd (timespec_bytes ts) 16 0 (Some (peer PORT_PONG)) (of_nat sizeof_sockaddr_in) s = Some (v, s1)"
    using assms(1) by (auto simp: ping_round_def bind_eq_Some_conv)
  note k = sendto_shared [OF assms(2) S]
  have "same_shared s1 s'"
    using assms(1) recvfrom_shared [of fd s1] same_shared_ready [OF k] assms(2)
    by (auto simp: ping_round_def S bind_eq_Some_conv Let_def split: if_splits)
  then show ?thesis by (rule same_shared_trans [OF k])
qed

lemma ping_loop_shared:
  assumes "ping_loop ops cfg alive clock env fd i k msg a s = Some y" "ready_sock fd s"
  shows "same_shared s (snd y)"
proof -
  obtain k' msg' where loop: "app_loop alive
       (\<lambda>i (k, ts_msg, a, s). do {
          (n, ts_msg, a, s) \<leftarrow> ping_round ops cfg (fst (env i)) (snd (env i)) (clock k) (clock (Suc k)) fd ts_msg a s;
          Some (if 0 < n then k + 2 else k + 1, ts_msg, a, s) }) i (k, msg, a, s) = Some (k', msg', y)"
    using assms(1) by (auto simp: ping_loop_def bind_eq_Some_conv)
  have "same_shared ((\<lambda>(_, _, _, s). s) (k, msg, a, s)) ((\<lambda>(_, _, _, s). s) (k', msg', y))"
    by (intro kept_shared [OF loop, of fd]) (use assms(2) ping_round_shared in \<open>auto simp: bind_eq_Some_conv\<close>)
  then show ?thesis by (simp add: case_prod_beta)
qed

lemma pong_round_shared:
  assumes "pong_round ops cfg intr deq fd msg cli s = Some (msg', cli', s')" "ready_sock fd s"
  shows "same_shared s s'"
proof -
  obtain n b src al s1 where R: "udpdk_recvfrom ops intr deq fd (Some msg) 16 0 (Some cli)
      (Some (of_nat sizeof_sockaddr_in)) s = Some (n, b, src, al, s1)"
    using assms(1) by (auto simp: pong_round_def bind_eq_Some_conv)
  note k = recvfrom_shared [OF assms(2) R]
  have "same_shared s1 s'"
    using assms(1) sendto_shared [of fd s1] same_shared_ready [OF k] assms(2)
    by (auto simp: pong_round_def R bind_eq_Some_conv Let_def split: if_splits)
  then show ?thesis by (rule same_shared_trans [OF k])
qed

lemma pong_loop_shared:
  assumes "pong_loop ops cfg alive env fd i msg cli s = Some s'" "ready_sock fd s"
  shows "same_shared s s'"
proof -
  obtain msg' cli' where loop: "app_loop alive
      (\<lambda>i (msg, cli, s). pong_round ops cfg (fst (env i)) (snd (env i)) fd msg cli s) i (msg, cli, s) = Some (msg', cli', s')"
    using assms(1) by (auto simp: pong_loop_def bind_eq_Some_conv)
  have "same_shared ((\<lambda>(_, _, s). s) (msg, cli, s)) ((\<lambda>(_, _, s). s) (msg', cli', s'))"
    by (intro kept_shared [OF loop, of fd]) (use assms(2) pong_round_shared in auto)
  then show ?thesis by simp
qed

subsection \<open>The bodies\<close>

text \<open>The state in which the socket calls begin, after an initialisation that succeeded.\<close>

definition fresh_run :: "(string \<Rightarrow> u32 \<Rightarrow> (ptr \<times> (nat \<Rightarrow> u32)) option) \<Rightarrow> 'a sstate_scheme \<Rightarrow> bool" where
  "fresh_run reserve s \<longleftrightarrow> zones_ok reserve \<and> booted reserve s \<and> slots s = (\<lambda>_. zero_slot) \<and> n_zones_active s = 0"

lemma fresh_socket:
  assumes "fresh_run reserve s"
  obtains s' where "app_socket port s = Some (Some 0, s')" "only_socket (bswap16 port) s'" "ready_sock 0 s'"
    "sstate.more s' = sstate.more s"
proof -
  obtain s' where "app_socket port s = Some (Some 0, s')" "only_socket (bswap16 port) s'" "sstate.more s' = sstate.more s"
    using app_socket_booted [of reserve s port] assms by (auto simp: fresh_run_def)
  then show thesis using that only_socket_ready by blast
qed

lemma only_socket_shared:
  assumes "same_shared s s'"
  shows "only_socket port s' = only_socket port s"
proof -
  have k: "mem s' = mem s" "\<And>K. alloc_of s' K = alloc_of s K" "sock_bind_table s' = sock_bind_table s" "slots s' = slots s"
    using assms by (simp_all add: same_shared_def)
  show ?thesis unfolding only_socket_def one_binding_cong [OF k(1-3)] k(4) ..
qed

lemma send_body_shared:
  assumes "fresh_run reserve s" "send_body ops cfg alive clock a cnt s = Some (cnt', s')"
  shows "only_socket (bswap16 PORT_SEND) s'"
proof (rule fresh_socket [OF assms(1), of PORT_SEND])
  fix t assume t: "app_socket PORT_SEND s = Some (Some 0, t)" "only_socket (bswap16 PORT_SEND) t" "ready_sock 0 t"
  have "same_shared t s'" using assms(2) t(1) send_loop_shared [OF _ t(3)] by (fastforce simp: send_body_def)
  then show ?thesis using t(2) only_socket_shared by blast
qed

lemma recv_body_shared:
  assumes "fresh_run reserve s" "recv_body ops alive env a junk cnt s = Some (cnt', s')"
  shows "only_socket (bswap16 PORT_RECV) s'"
proof (rule fresh_socket [OF assms(1), of PORT_RECV])
  fix t assume t: "app_socket PORT_RECV s = Some (Some 0, t)" "only_socket (bswap16 PORT_RECV) t" "ready_sock 0 t"
  have "same_shared t s'" using assms(2) t(1) recv_loop_shared [OF _ t(3)] by (fastforce simp: recv_body_def)
  then show ?thesis using t(2) only_socket_shared by blast
qed

lemma ping_body_shared:
  assumes "fresh_run reserve s" "ping_body ops cfg fopen alive clock env junk a s = Some (a', s')"
  shows "only_socket (bswap16 PORT_PING) s'"
proof (rule fresh_socket [OF assms(1), of PORT_PING])
  fix t assume t: "app_socket PORT_PING s = Some (Some 0, t)" "only_socket (bswap16 PORT_PING) t" "ready_sock 0 t"
  have "same_shared t s'" using assms(2) t(1) ping_loop_shared [OF _ t(3)] by (fastforce simp: ping_body_def Let_def)
  then show ?thesis using t(2) only_socket_shared by blast
qed

lemma pong_body_shared:
  assumes "fresh_run reserve s" "pong_body ops cfg alive env junk s = Some s'"
  shows "only_socket (bswap16 PORT_PONG) s'"
proof (rule fresh_socket [OF assms(1), of PORT_PONG])
  fix t assume t: "app_socket PORT_PONG s = Some (Some 0, t)" "only_socket (bswap16 PORT_PONG) t" "ready_sock 0 t"
  have "same_shared t s'" using assms(2) t(1) pong_loop_shared [OF _ t(3)] by (simp add: pong_body_def)
  then show ?thesis using t(2) only_socket_shared by blast
qed

text \<open>The bodies end, and with what.\<close>

lemma send_body_fresh:
  assumes f: "fresh_run reserve s" and len: "good_length ops a" and app: "tx_appends ops contents"
    and al: "\<And>j. j < m \<Longrightarrow> alive j" "\<not> alive m" and clk: "0 < tx_rate a \<Longrightarrow> paced clock a (clock 0) m"
  shows "\<exists>n s'. n \<le> m \<and> (never_full ops \<longrightarrow> n = m) \<and>
    send_body ops cfg alive clock a cnt s = Some (sent_more a n (of_nat n * of_int (sint (pktlen a))) cnt, s')"
proof (rule fresh_socket [OF f, of PORT_SEND])
  fix t assume t: "app_socket PORT_SEND s = Some (Some 0, t)" "ready_sock 0 t"
  have "\<exists>n s'. n \<le> m \<and> (never_full ops \<longrightarrow> n = m) \<and> send_loop ops cfg alive clock a 0 0 (if 0 < tx_rate a then 1 else 0) (clock 0) cnt t =
        Some (sent_more a n (of_nat n * of_int (sint (pktlen a))) cnt, s') \<and> slots s' = slots t \<and>
      contents (tx_q s' (unat (0 :: u32))) = contents (tx_q t (unat (0 :: u32))) @
        replicate n (sent_packet ops cfg a (slots t (unat (0 :: u32))))"
    by (rule send_loop_run [OF len app t(2)]) (use al clk in simp_all)
  then show ?thesis using t(1) by (auto simp: send_body_def)
qed

lemma recv_body_fresh:
  assumes f: "fresh_run reserve s" and mac: "macs_ok cfg"
    and ps: "\<forall>p \<in> set ps. 0 < length p \<and> length p \<le> 2048 \<and> (dump a \<longrightarrow> length p < 2048)"
    and env: "\<And>j. j < length ps \<Longrightarrow> alive j \<and> delivers ops cfg sl dest (ps ! j) (env j)" "\<not> alive (length ps)"
    and junk: "length junk = 2048"
  shows "\<exists>s'. recv_body ops alive env a junk cnt s =
    Some (recv_more a (length ps) (of_nat (sum_list (map length ps))) cnt, s')"
proof (rule fresh_socket [OF f, of PORT_RECV])
  fix t assume t: "app_socket PORT_RECV s = Some (Some 0, t)" "ready_sock 0 t"
  have fd: "unat (0 :: u32) < NUM_SOCKETS_MAX" "used (slots t (unat (0 :: u32))) \<noteq> 0"
    using t(2) by (simp_all add: ready_sock_def)
  have "\<exists>s'. recv_loop ops alive env a 0 0 junk (replicate 16 0) cnt t =
      Some (recv_more a (length ps) (of_nat (sum_list (map length ps))) cnt, s') \<and> slots s' = slots t"
    by (rule recv_loop_run [where sl = sl and dest = dest, OF mac ps fd]) (use env junk in simp_all)
  then show ?thesis using t(1) by (auto simp: recv_body_def)
qed

lemma ping_body_fresh:
  assumes f: "fresh_run reserve s" and mac: "macs_ok cfg'" and room: "58 \<le> data_room ops" and app: "tx_appends ops contents"
    and clk: "readable clock" and al: "\<And>j. j < m \<Longrightarrow> alive j" "\<not> alive m"
    and env: "\<And>j. j < m \<Longrightarrow> delivers ops cfg' sl dest (timespec_bytes (clock (2 * j))) (env j)"
    and lat: "\<And>j. j < m \<Longrightarrow> 0 \<le> latency clock 0 j \<and> latency clock 0 j < 2 ^ 31"
    and a: "length junk = 16" "ping_log_enabled a" "samples a = []" "m \<le> MAX_SAMPLES" "\<And>path. fopen path"
  shows "\<exists>a' s'. ping_body ops cfg fopen alive clock env junk a s = Some (a', s') \<and>
    dump_samples a' = Some (map (latency clock 0) [0..<m])"
proof (rule fresh_socket [OF f, of PORT_PING])
  fix t assume t: "app_socket PORT_PING s = Some (Some 0, t)" "ready_sock 0 t"
  let ?a = "a\<lparr>ping_log_open := True\<rparr>"
  have "\<exists>s'. ping_loop ops cfg alive clock env 0 0 0 junk ?a t = Some (add_samples clock 0 m ?a, s')"
    by (rule ping_loop_run [where sl = sl and dest = dest, OF mac room app clk t(2)]) (use al env lat a in simp_all)
  moreover have "dump_samples (add_samples clock 0 m ?a) = Some (map (latency clock 0) [0..<m])"
    by (rule dump_samples_added) (use a(2,3) lat in simp_all)
  ultimately show ?thesis using t(1) a(2,5) by (auto simp: ping_body_def)
qed

subsection \<open>The cleanup\<close>

lemma close_none:
  "(\<And>k. i \<le> k \<Longrightarrow> bound (slots s k) = 0) \<Longrightarrow> close_sockets n i s = Some s"
  by (induction n arbitrary: i) simp_all

lemma unat_port [simp]: "unat p < UDP_MAX_PORT" "ucast (ucast p :: u32) = p" for p :: u16
  using unat_bound [of p] by (simp add: UDP_MAX_PORT_def, intro bit_word_eqI) (auto simp: bit_simps)

lemma only_socket_release:
  assumes "only_socket port s"
  shows "\<exists>z' s'. release_shared zone_free zone_lookup s z = Some ([False, False, False, False], z', s') \<and>
    bindings s' = (\<lambda>_. []) \<and> (\<forall>k. bound (slots s' k) = 0)"
proof -
  have o: "one_binding port INADDR_ANY s" "used (slots s 0) \<noteq> 0" "bound (slots s 0) \<noteq> 0" "udp_port (slots s 0) = ucast port"
    "\<And>k. k \<noteq> 0 \<Longrightarrow> bound (slots s k) = 0"
    using assms by (simp_all add: only_socket_def)
  obtain s1 where s1: "btable_del_binding 0 port s = Some s1" "table_inv s1" "bindings s1 = (\<lambda>_. [])" "bshm.more s1 = bshm.more s"
    using one_binding_del [OF o(1)] by blast
  note r = rest_fields [OF s1(4)]
  have fd: "unat (0 :: u32) < NUM_SOCKETS_MAX" by (simp add: NUM_SOCKETS_MAX_def)
  let ?s2 = "s1\<lparr>slots := (slots s)(0 := closed_slot (slots s 0)), n_zones_active := n_zones_active s + 1\<rparr>"
  have c: "udpdk_close 0 s = Some (0, ?s2)"
    using o(2-4) s1(1) r slot_at_in [OF fd, of s] slot_at_in [OF fd, of s1]
    by (simp add: udpdk_close_def close_validate_args_def port_index_def set_slot_def closed_slot_def)
  have nb: "bound (slots ?s2 k) = 0" for k using o(5) by (simp add: closed_slot_def)
  have "close_sockets n (Suc 0) ?s2 = Some ?s2" for n by (rule close_none) (rule nb)
  then have S: "close_sockets (Suc n) 0 s = Some ?s2" for n using o(3) c by simp
  have n: "NUM_SOCKETS_MAX = Suc 1023" by (simp add: NUM_SOCKETS_MAX_def)
  have all: "udpdk_close_all_sockets s = Some ?s2"
    by (simp only: udpdk_close_all_sockets_def n S)
  have k: "mem ?s2 = mem s1" "\<And>K. alloc_of ?s2 K = alloc_of s1 K" "sock_bind_table ?s2 = sock_bind_table s1"
    by (simp, rule alloc_of_cong, simp_all)
  have e: "table_inv ?s2" "bindings ?s2 = (\<lambda>_. [])" using table_inv_cong [OF k] s1(2,3) by simp_all
  obtain z' where r: "release_shared zone_free zone_lookup s z = Some ([False, False, False, False], z', ?s2)"
    using release_empty [OF all e] by (rule exE)
  show ?thesis by (rule exI [where x = z'], rule exI [where x = ?s2]) (intro conjI allI r e nb)
qed

subsection \<open>From \<open>main\<close> to the end\<close>

lemma run_state_simps [simp]:
  "mem (run_state s) = mem s" "sock_bind_table (run_state s) = sock_bind_table s" "slots (run_state s) = slots s"
  "n_zones_active (run_state s) = n_zones_active s" "tx_q (run_state s) i = the (tx_ring (app_rings s) i)"
  "mbuf_pool (run_state s) = app_pools s" "alloc_of (run_state s) K = alloc_of s K"
  by (cases K; simp add: run_state_def sstate.defs dstate.defs)+

lemma init_fresh:
  assumes i: "udpdk_init parse forked aops child g0 s0 = Some (Some 0, g, s)" and f: "forked \<noteq> 0"
    and z: "\<And>prim. zones_ok (zone_reserve (aops prim))"
  shows "\<exists>reserve. fresh_run reserve (run_state s) \<and> zone_mapped s \<and> poller_pid g = forked"
proof -
  obtain prim where A: "udpdk_init_app (aops prim) s0 = Some (0, s)" "poller_pid g = forked"
    using i f by (auto simp: udpdk_init_def bind_eq_Some_conv Let_def split: if_splits)
  note E = init_established [OF A(1) z]
  have "booted (zone_reserve (aops prim)) (run_state s)"
    using E by (subst booted_cong [where s = s]) simp_all
  then have "fresh_run (zone_reserve (aops prim)) (run_state s)" using E z by (simp add: fresh_run_def)
  then show ?thesis using E A(2) by blast
qed

lemma final_cleanup_done:
  assumes "only_socket port d" "poller_pid g = pid"
  shows "\<exists>z'. final_cleanup sys g True d z = Some (stop_poller (eth_ports sys) pid, [False, False, False, False], z')"
  using only_socket_release [OF assms(1), of "free_zone sys" "find_zone sys" z] assms(2)
  by (auto simp: final_cleanup_def udpdk_cleanup_def udpdk_interrupt_def Let_def)

text \<open>The arguments when the log file has been opened.\<close>

definition log_ready :: "(string \<Rightarrow> bool) \<Rightarrow> pktgen \<Rightarrow> pktgen" where
  "log_ready fopen a = (if log_enabled a then a\<lparr>log_open := fopen (log_file a)\<rparr> else a)"

lemma log_ready_simps [simp]:
  "mode (log_ready fopen a) = mode a" "tx_rate (log_ready fopen a) = tx_rate a"
  "good_length ops (log_ready fopen a) = good_length ops a" "paced clock (log_ready fopen a) t m = paced clock a t m"
  "pktlen (log_ready fopen a) = pktlen a" "dump (log_ready fopen a) = dump a"
  "sent_more (log_ready fopen a) n b cnt = sent_more a n b cnt" "recv_more (log_ready fopen a) n b cnt = recv_more a n b cnt"
  by (simp_all add: log_ready_def good_length_def paced_def period_def sent_more_def recv_more_def)

lemma pktgen_main_done:
  assumes i: "udpdk_init parse forked aops child g0 s0 = Some (Some 0, g, s)" "forked \<noteq> 0" "\<And>prim. zones_ok (zone_reserve (aops prim))"
    and a: "pktgen_args fopen opts pktgen_globals = Some (0, a)" "log_enabled a \<longrightarrow> fopen (log_file a)"
    and body: "(case mode a of
        SEND \<Rightarrow> send_body ops (packet_config g) alive clock (log_ready fopen a) (reset_stats cnt) (run_state s)
      | RECV \<Rightarrow> recv_body ops alive env (log_ready fopen a) junk (reset_stats cnt) (run_state s)) = Some (cnt', d)"
  shows "\<exists>z'. pktgen_main sys (udpdk_init parse forked aops child) ops fopen opts 0 alive clock env junk cnt g0 s0 z =
    Some (Some (cnt', stop_poller (eth_ports sys) forked, [False, False, False, False], z'))"
proof -
  obtain reserve where f: "fresh_run reserve (run_state s)" "zone_mapped s" "poller_pid g = forked"
    using init_fresh [OF i] by blast
  obtain port where p: "only_socket port d"
    using body send_body_shared [OF f(1)] recv_body_shared [OF f(1)] by (cases "mode a") (simp_all, blast+)
  obtain z' where "final_cleanup sys g True d z = Some (stop_poller (eth_ports sys) forked, [False, False, False, False], z')"
    using final_cleanup_done [OF p f(3), of sys z] by blast
  then show ?thesis
    using i(1) a body f(2) unfolding log_ready_def
    by (cases "log_enabled a") (simp_all add: pktgen_main_def pktgen_end_def Let_def)
qed

lemma pingpong_main_done:
  assumes i: "udpdk_init parse forked aops child g0 s0 = Some (Some 0, g, s)" "forked \<noteq> 0" "\<And>prim. zones_ok (zone_reserve (aops prim))"
    and a: "pingpong_args fopen opts pingpong_globals = Some (0, a)" "\<And>path. fopen path"
    and body: "(case ping_mode a of
        PING \<Rightarrow> ping_body ops (packet_config g) fopen alive clock env junk a (run_state s)
      | PONG \<Rightarrow> map_option (Pair a) (pong_body ops (packet_config g) alive env junk (run_state s))) = Some (a', d)"
    and log: "dump_samples a' = Some l"
  shows "\<exists>z'. pingpong_main sys (udpdk_init parse forked aops child) ops fopen opts alive clock env junk g0 s0 z =
    Some (Some (l, stop_poller (eth_ports sys) forked, [False, False, False, False], z'))"
proof -
  obtain reserve where f: "fresh_run reserve (run_state s)" "zone_mapped s" "poller_pid g = forked"
    using init_fresh [OF i] by blast
  have "\<exists>port. only_socket port d"
  proof (cases "ping_mode a")
    case PING
    then have "ping_body ops (packet_config g) fopen alive clock env junk a (run_state s) = Some (a', d)" using body by simp
    from ping_body_shared [OF f(1) this] show ?thesis by blast
  next
    case PONG
    then have "pong_body ops (packet_config g) alive env junk (run_state s) = Some d" using body by auto
    from pong_body_shared [OF f(1) this] show ?thesis by blast
  qed
  then obtain port where p: "only_socket port d" by blast
  obtain z' where "final_cleanup sys g True d z = Some (stop_poller (eth_ports sys) forked, [False, False, False, False], z')"
    using final_cleanup_done [OF p f(3), of sys z] by blast
  then show ?thesis
    using i(1) a body f(2) log by (simp add: pingpong_main_def pingpong_end_def)
qed

end
