(* ===== verification/Properties_Mains.thy ===== *)
theory Properties_Mains
  imports Properties_Init Properties_Apps Lifecycle
begin

text \<open>
  Properties of the applications from their start to their end, each with an instance.
\<close>

subsection \<open>A failed start\<close>

text \<open>
  C40: A start that fails crashes: when \<open>udpdk_init\<close> returns a negative number before the exchange zone
  exists, the applications go to their cleanup all the same. The generator cancels a thread that
  was never created; the latency test closes the sockets of a zone that is not there. So the outcome
  of both is undefined, whatever the arguments.
\<close>

theorem failed_start_crashes:
  assumes "udpdk_init parse forked aops child g s = Some (Some r, g', s')" "r < 0" "\<not> zone_mapped s'"
  shows "pktgen_main sys (udpdk_init parse forked aops child) ops fopen opts pthread_create alive clock env junk cnt g s z = None \<and>
    pingpong_main sys (udpdk_init parse forked aops child) ops fopen opts alive clock env junk g s z = None"
  using assms by (simp add: pktgen_main_def pingpong_main_def pktgen_end_def pingpong_end_def dump_samples_def
      pingpong_globals_def final_cleanup_def udpdk_cleanup_def Let_def)

definition demo_process :: process where
  "demo_process = \<lparr>poller_pid = 0, interrupted = False, proc_config =
     \<lparr>src_mac_addr = replicate 6 1, dst_mac_addr = replicate 6 2, src_ip_addr = 0,
      lcores_primary = ''0'', lcores_secondary = ''1'', n_mem_channels = 2\<rparr>\<rparr>"

definition demo_system :: "ptr list system" where
  "demo_system = \<lparr>free_zone = remove1, find_zone = (\<lambda>_ _. None), eth_ports = [0]\<rparr>"

lemma failed_start_crashes_witness:
  "\<forall>ops. pingpong_main demo_system (udpdk_init (\<lambda>cfg. Some (-1, cfg, [], [])) 77 (\<lambda>_. demo_app id) (\<lambda>_ s. Some (0, s)))
     ops (\<lambda>_. True) [] (\<lambda>_. False) demo_clock demo_env [] demo_process fresh_app [] = None"
proof -
  have i: "udpdk_init (\<lambda>cfg. Some (-1, cfg, [], [])) 77 (\<lambda>_. demo_app id) (\<lambda>_ s. Some (0, s)) demo_process fresh_app =
      Some (Some (-1), demo_process, fresh_app)"
    by (simp add: udpdk_init_def)
  have n: "\<not> zone_mapped fresh_app" by (simp add: fresh_app_def)
  show ?thesis by (intro allI) (rule failed_start_crashes [OF i _ n, THEN conjunct2], simp)
qed

subsection \<open>From start to end\<close>

text \<open>A start that succeeds, with process 77 as the poller and rings that always have room.\<close>

abbreviation demo_start ::
  "process \<Rightarrow> (packet list, nat, nat, unit) app \<Rightarrow> (int option \<times> process \<times> (packet list, nat, nat, unit) app) option" where
  "demo_start \<equiv> udpdk_init (\<lambda>cfg. Some (0, cfg, [], [])) 77 (\<lambda>_. demo_app (\<lambda>_. [])) (\<lambda>_ s. Some (0, s))"

lemma demo_starts: "\<exists>g s. demo_start demo_process fresh_app = Some (Some 0, g, s)"
proof -
  obtain s where "udpdk_init_app (demo_app (\<lambda>_. [])) fresh_app = Some (0, s :: (packet list, nat, nat, unit) app)"
    using demo_init_runs by blast
  then show ?thesis by (simp add: udpdk_init_def)
qed

definition roomy :: "(packet list, nat, unit, packet list) poller_ops" where
  "roomy = demo_loop\<lparr>pktmbuf_alloc := Some, ring_enqueue := (\<lambda>p q. Some (q @ [p]))\<rparr>"

lemma roomy_simps: "tx_appends roomy (\<lambda>q. q)" "never_full roomy" "data_room roomy = 2048"
  by (simp_all add: tx_appends_def never_full_def roomy_def demo_loop_def demo_poller_def)

text \<open>
  C3: The generator as a sender, from \<open>main\<close> to its end on an initialised system: after \<open>m\<close> rounds,
  when the flag is cleared, it returns. It has counted as sent \<open>n\<close> packets of the length that was
  asked for, all \<open>m\<close> if there is always room; the poller has been signalled and awaited, the ports
  closed, and the four pools are given back with no element in use.
\<close>

theorem pktgen_main_sends:
  assumes "udpdk_init parse forked aops child g0 s0 = Some (Some 0, g, s)" "forked \<noteq> 0" "\<And>prim. zones_ok (zone_reserve (aops prim))"
    and "pktgen_args fopen opts pktgen_globals = Some (0, a)" "log_enabled a \<longrightarrow> fopen (log_file a)" "mode a = SEND"
    and "good_length ops a" "tx_appends ops contents" "\<And>j. j < m \<Longrightarrow> alive j" "\<not> alive m"
    and "0 < tx_rate a \<Longrightarrow> paced clock a (clock 0) m"
  shows "\<exists>n z'. n \<le> m \<and> (never_full ops \<longrightarrow> n = m) \<and>
    pktgen_main sys (udpdk_init parse forked aops child) ops fopen opts 0 alive clock env junk cnt g0 s0 z =
      Some (Some (sent_more a n (of_nat n * of_int (sint (pktlen a))) (reset_stats cnt),
        stop_poller (eth_ports sys) forked, [False, False, False, False], z'))"
proof -
  obtain reserve where f: "fresh_run reserve (run_state s)" using init_fresh [OF assms(1-3)] by blast
  obtain n d where n: "n \<le> m" "never_full ops \<longrightarrow> n = m"
      and b: "send_body ops (packet_config g) alive clock (log_ready fopen a) (reset_stats cnt) (run_state s) =
        Some (sent_more a n (of_nat n * of_int (sint (pktlen a))) (reset_stats cnt), d)"
    using send_body_fresh [where alive = alive and m = m and a = "log_ready fopen a" and clock = clock
        and cfg = "packet_config g" and cnt = "reset_stats cnt", OF f _ assms(8-10)] assms(7,11) by auto
  have "\<exists>z'. pktgen_main sys (udpdk_init parse forked aops child) ops fopen opts 0 alive clock env junk cnt g0 s0 z =
      Some (Some (sent_more a n (of_nat n * of_int (sint (pktlen a))) (reset_stats cnt),
        stop_poller (eth_ports sys) forked, [False, False, False, False], z'))"
    by (rule pktgen_main_done [OF assms(1-5)]) (use b assms(6) in simp)
  then show ?thesis using n by blast
qed

lemma pktgen_main_sends_witness:
  "\<exists>cnt z'. pktgen_main demo_system demo_start roomy (\<lambda>_. True) [(CHR ''f'', ''send''), (CHR ''h'', [])] 0 (\<lambda>j. j < 3) demo_clock
      demo_env [] zero_stats demo_process fresh_app [] =
    Some (Some (cnt, [Kill 77 SIGTERM, Waitpid 77, Dev_stop 0, Dev_close 0], [False, False, False, False], z')) \<and>
    pkts_sent cnt = 3 \<and> bytes_sent cnt = 3 * (64 + 42)"
proof -
  obtain g and s :: "(packet list, nat, nat, unit) app" where i: "demo_start demo_process fresh_app = Some (Some 0, g, s)"
    using demo_starts by blast
  let ?a = "pktgen_globals\<lparr>hdr_stats := True\<rparr>" and ?opts = "[(CHR ''f'', ''send''), (CHR ''h'', [])]"
  have a: "pktgen_args (\<lambda>_. True) ?opts pktgen_globals = Some (0, ?a)" by (simp add: pktgen_option_def pktgen_globals_def)
  have f: "log_enabled ?a \<longrightarrow> True" "mode ?a = SEND" "good_length roomy ?a" "sint (pktlen ?a) = 64" "\<not> 0 < tx_rate ?a"
    by (simp_all add: pktgen_globals_def good_length_def roomy_simps)
  have "\<exists>n z'. n \<le> 3 \<and> (never_full roomy \<longrightarrow> n = 3) \<and>
      pktgen_main demo_system demo_start roomy (\<lambda>_. True) ?opts 0 (\<lambda>j. j < 3) demo_clock demo_env [] zero_stats demo_process fresh_app [] =
        Some (Some (sent_more ?a n (of_nat n * of_int (sint (pktlen ?a))) (reset_stats zero_stats),
          stop_poller (eth_ports demo_system) 77, [False, False, False, False], z'))"
    by (rule pktgen_main_sends [OF i _ demo_app_zones a f(1-3) roomy_simps(1)]) (use f(5) in simp_all)
  then show ?thesis
    unfolding f(4) by (auto simp: roomy_simps sent_more_def reset_stats_def HDR_BYTES_def stop_poller_def demo_system_def pktgen_globals_def)
qed

text \<open>
  C21: The generator as a receiver, likewise: when the payloads \<open>ps\<close> arrive in order and the flag is
  cleared behind them, it returns with their number and their bytes counted, and everything is
  given back.
\<close>

theorem pktgen_main_receives:
  assumes "udpdk_init parse forked aops child g0 s0 = Some (Some 0, g, s)" "forked \<noteq> 0" "\<And>prim. zones_ok (zone_reserve (aops prim))"
    and "pktgen_args fopen opts pktgen_globals = Some (0, a)" "log_enabled a \<longrightarrow> fopen (log_file a)" "mode a = RECV"
    and "macs_ok cfg" "\<forall>p \<in> set ps. 0 < length p \<and> length p \<le> 2048 \<and> (dump a \<longrightarrow> length p < 2048)"
    and "\<And>j. j < length ps \<Longrightarrow> alive j \<and> delivers ops cfg sl dest (ps ! j) (env j)" "\<not> alive (length ps)" "length junk = 2048"
  shows "\<exists>z'. pktgen_main sys (udpdk_init parse forked aops child) ops fopen opts 0 alive clock env junk cnt g0 s0 z =
    Some (Some (recv_more a (length ps) (of_nat (sum_list (map length ps))) (reset_stats cnt),
      stop_poller (eth_ports sys) forked, [False, False, False, False], z'))"
proof -
  obtain reserve where f: "fresh_run reserve (run_state s)" using init_fresh [OF assms(1-3)] by blast
  obtain d where b: "recv_body ops alive env (log_ready fopen a) junk (reset_stats cnt) (run_state s) =
      Some (recv_more a (length ps) (of_nat (sum_list (map length ps))) (reset_stats cnt), d)"
    using recv_body_fresh [where a = "log_ready fopen a" and cnt = "reset_stats cnt", OF f assms(7) _ assms(9-11)] assms(8) by auto
  show ?thesis
    by (rule pktgen_main_done [OF assms(1-5)]) (use b assms(6) in simp)
qed

lemma pktgen_main_receives_witness:
  "\<exists>cnt z'. pktgen_main demo_system demo_start demo_loop (\<lambda>_. True) [(CHR ''f'', ''recv'')] 0 (\<lambda>j. j < 2) demo_clock
      demo_env (replicate 2048 0) zero_stats demo_process fresh_app [] =
    Some (Some (cnt, [Kill 77 SIGTERM, Waitpid 77, Dev_stop 0, Dev_close 0], [False, False, False, False], z')) \<and>
    pkts_recv cnt = 2 \<and> bytes_recv cnt = 6"
proof -
  obtain g and s :: "(packet list, nat, nat, unit) app" where i: "demo_start demo_process fresh_app = Some (Some 0, g, s)"
    using demo_starts by blast
  let ?a = "pktgen_globals\<lparr>mode := RECV\<rparr>" and ?opts = "[(CHR ''f'', ''recv'')]" and ?ps = "[[7, 8, 9 :: u8], [7, 8, 9]]"
  have a: "pktgen_args (\<lambda>_. True) ?opts pktgen_globals = Some (0, ?a)" by (simp add: pktgen_option_def)
  have f: "log_enabled ?a \<longrightarrow> True" "mode ?a = RECV" by simp_all
  have "\<exists>z'. pktgen_main demo_system demo_start demo_loop (\<lambda>_. True) ?opts 0 (\<lambda>j. j < 2) demo_clock demo_env
      (replicate 2048 0) zero_stats demo_process fresh_app [] =
    Some (Some (recv_more ?a (length ?ps) (of_nat (sum_list (map length ?ps))) (reset_stats zero_stats),
      stop_poller (eth_ports demo_system) 77, [False, False, False, False], z'))"
    by (rule pktgen_main_receives [OF i _ demo_app_zones a f demo_macs, where sl = bound_example and dest = demo_addr])
      (auto simp: demo_delivers nth_Cons pktgen_globals_def split: nat.split)
  then show ?thesis
    by (auto simp: recv_more_def reset_stats_def stop_poller_def demo_system_def pktgen_globals_def)
qed

text \<open>
  C4: The latency test as the side that pings: when each of its \<open>m\<close> questions comes back with its own
  bytes, the log gets the nanoseconds between the two readings of the clock of each round, in
  order, and everything is given back.
\<close>

theorem pingpong_main_measures:
  assumes "udpdk_init parse forked aops child g0 s0 = Some (Some 0, g, s)" "forked \<noteq> 0" "\<And>prim. zones_ok (zone_reserve (aops prim))"
    and "pingpong_args fopen opts pingpong_globals = Some (0, a)" "ping_log_enabled a" "ping_mode a = PING" "\<And>path. fopen path"
    and "macs_ok cfg'" "58 \<le> data_room ops" "tx_appends ops contents" "readable clock"
    and "\<And>j. j < m \<Longrightarrow> alive j" "\<not> alive m" "\<And>j. j < m \<Longrightarrow> delivers ops cfg' sl dest (timespec_bytes (clock (2 * j))) (env j)"
    and "\<And>j. j < m \<Longrightarrow> 0 \<le> latency clock 0 j \<and> latency clock 0 j < 2 ^ 31" "length junk = 16" "m \<le> MAX_SAMPLES"
  shows "\<exists>z'. pingpong_main sys (udpdk_init parse forked aops child) ops fopen opts alive clock env junk g0 s0 z =
    Some (Some (map (latency clock 0) [0..<m], stop_poller (eth_ports sys) forked, [False, False, False, False], z'))"
proof -
  obtain reserve where f: "fresh_run reserve (run_state s)" using init_fresh [OF assms(1-3)] by blast
  have "samples a = []" using pingpong_args_samples [OF assms(4)] by (simp add: pingpong_globals_def)
  then obtain a' d where b: "ping_body ops (packet_config g) fopen alive clock env junk a (run_state s) = Some (a', d)"
      and l: "dump_samples a' = Some (map (latency clock 0) [0..<m])"
    using ping_body_fresh [where alive = alive and m = m and a = a and sl = sl and dest = dest and fopen = fopen,
        OF f assms(8-15) assms(16,5) _ assms(17,7)] by blast
  show ?thesis
    by (rule pingpong_main_done [OF assms(1-4,7) _ l]) (use b assms(6) in simp)
qed

definition ping_clock :: "nat \<Rightarrow> timespec" where
  "ping_clock k = (if even k then \<lparr>tv_sec = 7, tv_nsec = 600000000\<rparr> else \<lparr>tv_sec = 8, tv_nsec = 100000000\<rparr>)"

lemma ping_clock_latency: "latency ping_clock 0 j = 500000000"
  by (simp add: latency_def ping_clock_def nanos_def)

definition ping_env :: "nat \<Rightarrow> (nat \<Rightarrow> bool) \<times> (nat \<Rightarrow> packet option)" where
  "ping_env j = (\<lambda>_. False, \<lambda>_. Some [build_packet demo_loop demo_cfg bound_example demo_addr 16 (timespec_bytes (ping_clock 0))])"

lemma ping_env_delivers: "delivers demo_loop demo_cfg bound_example demo_addr (timespec_bytes (ping_clock (2 * j))) (ping_env j)"
  unfolding delivers_def by (rule exI [of _ 0]) (simp add: ping_env_def ping_clock_def)

lemma pingpong_main_measures_witness:
  "\<exists>z'. pingpong_main demo_system demo_start demo_loop (\<lambda>_. True) [(CHR ''f'', ''ping''), (CHR ''l'', ''log'')] (\<lambda>j. j < 2) ping_clock
      ping_env (replicate 16 0) demo_process fresh_app [] =
    Some (Some ([500000000, 500000000], [Kill 77 SIGTERM, Waitpid 77, Dev_stop 0, Dev_close 0], [False, False, False, False], z'))"
proof -
  obtain g and s :: "(packet list, nat, nat, unit) app" where i: "demo_start demo_process fresh_app = Some (Some 0, g, s)"
    using demo_starts by blast
  let ?a = "pingpong_globals\<lparr>ping_log_enabled := True, ping_log_file := ''log'', ping_log_open := True\<rparr>"
  let ?opts = "[(CHR ''f'', ''ping''), (CHR ''l'', ''log'')]"
  have a: "pingpong_args (\<lambda>_. True) ?opts pingpong_globals = Some (0, ?a)" by (simp add: pingpong_option_def pingpong_globals_def)
  have f: "ping_log_enabled ?a" "ping_mode ?a = PING" "58 \<le> data_room demo_loop"
    by (simp_all add: pingpong_globals_def demo_loop_def demo_poller_def)
  have c: "readable ping_clock" by (simp add: readable_def ping_clock_def normal_def in_range_def)
  have "\<exists>z'. pingpong_main demo_system demo_start demo_loop (\<lambda>_. True) ?opts (\<lambda>j. j < 2) ping_clock ping_env (replicate 16 0) demo_process fresh_app [] =
      Some (Some (map (latency ping_clock 0) [0..<2], stop_poller (eth_ports demo_system) 77, [False, False, False, False], z'))"
    by (rule pingpong_main_measures [OF i _ demo_app_zones a f(1,2) _ demo_macs f(3) demo_tx_appends c _ _ ping_env_delivers])
      (simp_all add: ping_clock_latency MAX_SAMPLES_def)
  moreover have "map (latency ping_clock 0) [0..<2] = [500000000, 500000000]"
    by (simp add: ping_clock_latency numeral_2_eq_2)
  ultimately show ?thesis by (simp add: stop_poller_def demo_system_def)
qed

subsection \<open>A fork that fails\<close>

text \<open>
  When \<open>fork\<close> fails, its result \<open>-1\<close> is taken for the parent's: the initialisation goes on as if there
  were a poller, and the cleanup sends \<open>SIGTERM\<close> to every process that the application may signal.
\<close>

theorem fork_failure_unnoticed:
  assumes "parse (proc_config g) = Some (0, cfg, prim, sec)" "udpdk_init_app (aops prim) s = Some (r, s')"
  shows "\<exists>g'. udpdk_init parse (-1) aops child g s = Some (Some r, g', s') \<and> hd (stop_poller ports (poller_pid g')) = Kill (-1) SIGTERM"
  using assms by (simp add: udpdk_init_def stop_poller_def)

end
