(* ===== verification/Properties_Args.thy ===== *)
theory Properties_Args
  imports Args
begin

text \<open>
  Properties of the argument handling, each with an instance.
\<close>

text \<open>
  C36: \<open>setup_primary_secondary_args\<close> gives the two processes their arguments: the application
  gets the program's name, the cores, the memory channels, its kind, \<open>--\<close> and the arguments of
  the program, all cut at 255 characters and at most 64 in all; too many arguments are refused.
  A number of memory channels of eight characters or more is written behind the end of its
  string.
\<close>

theorem setup_args_correct:
  assumes "length (lcores_primary cfg) < MAX_ARG_LEN" "length (lcores_secondary cfg) < MAX_ARG_LEN"
    and "prim = [take 255 progname, ''-l'', lcores_primary cfg, ''-n'', show_int (n_mem_channels cfg), ''--proc-type=primary'']"
    and "sec = [take 255 progname, ''-l'', lcores_secondary cfg, ''-n'', show_int (n_mem_channels cfg), ''--proc-type=secondary'']"
    and "all = prim @ [''--''] @ map (take 255) argv"
  shows "setup_primary_secondary_args progname cfg argv =
    (if 8 \<le> length (show_int (n_mem_channels cfg)) then None
     else if MAX_ARGC \<le> 6 + length argv then Some (-1, prim, sec)
     else Some (0, all, sec)) \<and>
    (length all \<le> MAX_ARGC \<longleftrightarrow> 6 + length argv < MAX_ARGC)"
proof -
  have p: "length ''--proc-type=primary'' < MAX_ARG_LEN" "length ''--proc-type=secondary'' < MAX_ARG_LEN"
    by (simp_all add: MAX_ARG_LEN_def)
  have "print_to 3 3 ''--'' = Some ''--''" by (simp add: print_to_def)
  then show ?thesis
    unfolding setup_primary_secondary_args_def common_args_eq [OF assms(1) p(1)] common_args_eq [OF assms(2) p(2)]
      copy_args_eq assms(3-5) by auto
qed

definition demo_config :: config where
  "demo_config =
     \<lparr>src_mac_addr = replicate 6 1, dst_mac_addr = replicate 6 2, src_ip_addr = 33554442,
      lcores_primary = ''0'', lcores_secondary = ''1'', n_mem_channels = 4\<rparr>"

lemma setup_args_correct_witness:
  "setup_primary_secondary_args ''pktgen'' demo_config [''-f'', ''send''] =
   Some (0, [''pktgen'', ''-l'', ''0'', ''-n'', ''4'', ''--proc-type=primary'', ''--'', ''-f'', ''send''],
     [''pktgen'', ''-l'', ''1'', ''-n'', ''4'', ''--proc-type=secondary''])"
proof -
  have n: "show_int 4 = ''4''" by code_simp
  have l: "length (lcores_primary demo_config) < MAX_ARG_LEN" "length (lcores_secondary demo_config) < MAX_ARG_LEN"
    by (simp_all add: demo_config_def MAX_ARG_LEN_def)
  from setup_args_correct [OF l refl refl refl, of "''pktgen''" "[''-f'', ''send'']"] show ?thesis
    by (simp add: demo_config_def n MAX_ARGC_def)
qed

end
