(* ===== verification/Races.thy ===== *)
theory Races
  imports Reception
begin

text \<open>
  The application and the poller inside one another's calls. The two share the table, the slots
  and the allocators, and take no lock. \<open>udpdk_bind\<close> and \<open>udpdk_close\<close> are cut between the change of
  the table and that of the slot, with the poller in between; \<open>udpdk_shmalloc\<close> is cut between the
  element that it picks and the mark that it sets, with the other process in between. A single
  operation on the table counts as one step here; the theory \<open>Walks\<close> looks into a walk of the poller.
\<close>

subsection \<open>The halves of the calls\<close>

definition bind_begin ::
  "u32 \<Rightarrow> sockaddr_in \<Rightarrow> u32 \<Rightarrow> 'a sstate_scheme \<Rightarrow> (int \<times> 'a sstate_scheme) option" where
  "bind_begin fd a addrlen s = do {
     (r, s) \<leftarrow> bind_validate_args fd (Some a) addrlen s;
     if r < 0 then Some (-1, s)
     else do {
       sl \<leftarrow> slot_at fd s;
       (r, s) \<leftarrow> btable_add_binding fd (sin_addr a) (sin_port a) (so_options sl) s;
       Some (if r < 0 then fail EADDRINUSE s else (0, s)) } }"

definition bind_finish :: "u32 \<Rightarrow> sockaddr_in \<Rightarrow> 'a sstate_scheme \<Rightarrow> 'a sstate_scheme option" where
  "bind_finish fd a s = do {
     sl \<leftarrow> slot_at fd s;
     Some (set_slot fd (sl\<lparr>bound := 1, udp_port := ucast (sin_port a), ip_addr := sin_addr a\<rparr>) s) }"

definition close_begin :: "u32 \<Rightarrow> 'a sstate_scheme \<Rightarrow> (int \<times> 'a sstate_scheme) option" where
  "close_begin fd s = do {
     (r, s) \<leftarrow> close_validate_args fd s;
     if r \<noteq> 0 then Some (-1, s)
     else do {
       sl \<leftarrow> slot_at fd s;
       s \<leftarrow> (if bound sl \<noteq> 0 then do {
               port \<leftarrow> port_index (udp_port sl);
               btable_del_binding fd port s }
             else Some s);
       Some (0, s) } }"

definition close_finish :: "u32 \<Rightarrow> 'a sstate_scheme \<Rightarrow> 'a sstate_scheme option" where
  "close_finish fd s = do {
     sl \<leftarrow> slot_at fd s;
     let s = set_slot fd (sl\<lparr>bound := 0, used := 0, so_options := 0\<rparr>) s;
     Some (s\<lparr>n_zones_active := n_zones_active s + 1\<rparr>) }"

text \<open>With nothing in between the halves are the calls.\<close>

lemma udpdk_bind_halves:
  "udpdk_bind fd (Some a) addrlen s = do {
     (r, s) \<leftarrow> bind_begin fd a addrlen s;
     if r < 0 then Some (r, s) else do { s \<leftarrow> bind_finish fd a s; Some (0, s) } }"
  by (simp add: udpdk_bind_def bind_begin_def bind_finish_def fail_def split: bind_split)

lemma udpdk_close_halves:
  "udpdk_close fd s = do {
     (r, s) \<leftarrow> close_begin fd s;
     if r < 0 then Some (r, s) else do { s \<leftarrow> close_finish fd s; Some (0, s) } }"
  by (simp add: udpdk_close_def close_begin_def close_finish_def Let_def split: bind_split)

subsection \<open>Steps\<close>

text \<open>Where the application is: between two calls, or between the halves of one.\<close>

datatype app_pc = Idle | Binding u32 sockaddr_in | Closing u32

inductive par_step ::
  "('r, 'm, 'f, 'n, 'z) poller_ops_scheme \<Rightarrow> configuration \<Rightarrow> app_pc \<times> ('r, 'm, 'f, 'n, 'a) pstate_scheme \<Rightarrow>
    app_pc \<times> ('r, 'm, 'f, 'n, 'a) pstate_scheme \<Rightarrow> bool" for ops cfg where
  par_sys: "sys_step ops cfg s s' \<Longrightarrow> par_step ops cfg (Idle, s) (Idle, s')"
| par_bind: "unat fd < NUM_SOCKETS_MAX \<Longrightarrow> bind_begin fd a addrlen s = Some (0, s') \<Longrightarrow>
    par_step ops cfg (Idle, s) (Binding fd a, s')"
| par_bound: "bind_finish fd a s = Some s' \<Longrightarrow> par_step ops cfg (Binding fd a, s) (Idle, s')"
| par_close: "unat fd < NUM_SOCKETS_MAX \<Longrightarrow> close_begin fd s = Some (0, s') \<Longrightarrow>
    par_step ops cfg (Idle, s) (Closing fd, s')"
| par_closed: "close_finish fd s = Some s' \<Longrightarrow> par_step ops cfg (Closing fd, s) (Idle, s')"
| par_tx: "tx_round ops s = Some s' \<Longrightarrow> par_step ops cfg (pc, s) (pc, s')"
| par_rx: "rx_round ops tms s = Some s' \<Longrightarrow> par_step ops cfg (pc, s) (pc, s')"
| par_wire: "par_step ops cfg (pc, s) (pc, s\<lparr>nic := n\<rparr>)"

inductive_cases par_stepE: "par_step ops cfg c c'"

inductive par_reach ::
  "('r, 'm, 'f, 'n, 'z) poller_ops_scheme \<Rightarrow> configuration \<Rightarrow> app_pc \<times> ('r, 'm, 'f, 'n, 'a) pstate_scheme \<Rightarrow>
    app_pc \<times> ('r, 'm, 'f, 'n, 'a) pstate_scheme \<Rightarrow> bool" for ops cfg where
  par_start: "par_reach ops cfg c c"
| par_next: "par_reach ops cfg c d \<Longrightarrow> par_step ops cfg d e \<Longrightarrow> par_reach ops cfg c e"

subsection \<open>The invariant\<close>

text \<open>Whose binding the table holds: that of each bound slot, but for the call that is under way.\<close>

fun claimed :: "app_pc \<Rightarrow> (u32 \<Rightarrow> (u16 \<times> u32) option) \<Rightarrow> u32 \<Rightarrow> (u16 \<times> u32) option" where
  "claimed Idle B = B"
| "claimed (Binding fd a) B = B(fd \<mapsto> (sin_port a, sin_addr a))"
| "claimed (Closing fd) B = B(fd := None)"

fun pc_ok :: "app_pc \<Rightarrow> (nat \<Rightarrow> slot_info) \<Rightarrow> bool" where
  "pc_ok Idle sl = True"
| "pc_ok (Binding fd a) sl = (unat fd < NUM_SOCKETS_MAX \<and> used (sl (unat fd)) \<noteq> 0 \<and> bound (sl (unat fd)) = 0)"
| "pc_ok (Closing fd) sl = (unat fd < NUM_SOCKETS_MAX \<and> used (sl (unat fd)) \<noteq> 0)"

definition par_inv :: "app_pc \<times> ('r, 'm, 'f, 'n, 'a) pstate_scheme \<Rightarrow> bool" where
  "par_inv c \<longleftrightarrow> (case c of (pc, s) \<Rightarrow> pol_inv s \<and> owners_ok (claimed pc (owner_of (slots s))) (bindings s) \<and>
     (\<forall>i < NUM_SOCKETS_MAX. slot_ok (slots s i)) \<and> pc_ok pc (slots s))"

lemma par_inv_idle: "par_inv (Idle, s) = sys_inv s"
  by (auto simp: par_inv_def pol_inv_def sys_inv_def sock_inv_def)

text \<open>The poller does not see where the application is.\<close>

lemma par_inv_poller: "keeps s s' \<Longrightarrow> par_inv (pc, s) \<Longrightarrow> par_inv (pc, s')"
  using keeps_polD [of s s'] by (simp add: par_inv_def)

lemma exch_of_more: "bshm.more s' = bshm.more s \<Longrightarrow> slots s' = slots s \<and> exch_slots s' = exch_slots s"
  for s :: "('r, 'm, 'f, 'n, 'a) pstate_scheme"
  using rest_fields [of s' s] dstate_rest [of s' s] exch_of_rest [of s' s] by simp

lemma bind_begin_inv:
  fixes s :: "('r, 'm, 'f, 'n, 'a) pstate_scheme"
  assumes inv: "par_inv (Idle, s)" and fd: "unat fd < NUM_SOCKETS_MAX" and run: "bind_begin fd a addrlen s = Some (0, s')"
  shows "par_inv (Binding fd a, s')"
proof -
  have si: "sock_inv s" and ex: "\<forall>k. exch_ok (exch_slots s k)"
    using inv unfolding par_inv_idle by (simp_all add: sys_inv_def)
  note I = sock_invD [OF si]
  let ?v = "slots s (unat fd)"
  have v: "used ?v \<noteq> 0" "bound ?v = 0" "good_addr a addrlen"
    using run slot_at_in [OF fd, of s]
    by (auto simp: bind_begin_def bind_validate_args_def fail_def good_addr_def split: if_splits)
  obtain r s1 where b: "btable_add_binding fd (sin_addr a) (sin_port a) (so_options ?v) s = Some (r, s1)"
      "(if r < 0 then fail EADDRINUSE s1 else (0, s1)) = (0, s')"
    using run bind_valid [OF fd v] slot_at_in [OF fd, of s] by (auto simp: bind_begin_def bind_eq_Some_conv)
  note R = owner_room [where sl = "slots s", OF fd v(2)]
  have c: "list_all (compatible (sin_addr a) (so_options ?v)) (bindings s (sin_port a))"
  proof (rule ccontr)
    assume "\<not> ?thesis"
    then have "r = -1" using bt.refuse [OF I(1,2) R(2), of "sin_addr a" "so_options ?v" "sin_port a" fd] b(1) by auto
    then show False using b(2) by (simp add: fail_def)
  qed
  have k: "r = 0" "table_ok s1" "bshm.more s1 = bshm.more s"
      "owners_ok ((owner_of (slots s))(fd \<mapsto> (sin_port a, sin_addr a))) (bindings s1)"
    using bt.register [OF I(1,2) R c] b(1) by auto
  have "s' = s1" using b(2) k(1) by simp
  then show ?thesis
    using exch_of_more [OF k(3)] k(2,4) ex I(3) v(1,2) fd by (simp add: par_inv_def pol_inv_def)
qed

lemma bind_finish_inv:
  assumes inv: "par_inv (Binding fd a, s)" and run: "bind_finish fd a s = Some s'"
  shows "par_inv (Idle, s')"
proof -
  have p: "pol_inv s" "owners_ok ((owner_of (slots s))(fd \<mapsto> (sin_port a, sin_addr a))) (bindings s)"
    "\<And>i. i < NUM_SOCKETS_MAX \<Longrightarrow> slot_ok (slots s i)" "unat fd < NUM_SOCKETS_MAX" "used (slots s (unat fd)) \<noteq> 0"
    using inv by (simp_all add: par_inv_def)
  let ?v = "bound_slot a (slots s (unat fd))"
  have s': "s' = s\<lparr>slots := (slots s)(unat fd := ?v)\<rparr>"
    using run slot_at_in [OF p(4), of s] by (simp add: bind_finish_def set_slot_def bound_slot_def)
  have "owner_of ((slots s)(unat fd := ?v)) = (owner_of (slots s))(fd \<mapsto> (sin_port a, sin_addr a))"
    by (simp add: owner_upd [OF p(4)] bound_slot_def)
  moreover have "slot_ok ?v" by (rule bound_slot_ok [OF p(5)])
  ultimately show ?thesis
    using p(1-3) unfolding s' by (simp add: par_inv_def pol_inv_def)
qed

lemma close_begin_inv:
  fixes s :: "('r, 'm, 'f, 'n, 'a) pstate_scheme"
  assumes inv: "par_inv (Idle, s)" and fd: "unat fd < NUM_SOCKETS_MAX" and run: "close_begin fd s = Some (0, s')"
  shows "par_inv (Closing fd, s')"
proof -
  have si: "sock_inv s" and ex: "\<forall>k. exch_ok (exch_slots s k)"
    using inv unfolding par_inv_idle by (simp_all add: sys_inv_def)
  note I = sock_invD [OF si]
  let ?v = "slots s (unat fd)"
  have u: "used ?v \<noteq> 0"
    using run slot_at_in [OF fd, of s] by (auto simp: close_begin_def close_validate_args_def fail_def split: if_splits)
  have "close_validate_args fd s = Some (0, s)"
    using u slot_at_in [OF fd, of s] by (simp add: close_validate_args_def)
  then have d: "(if bound ?v \<noteq> 0 then do { port \<leftarrow> port_index (udp_port ?v); btable_del_binding fd port s } else Some s) = Some s'"
    using run slot_at_in [OF fd, of s] by (auto simp: close_begin_def split: if_splits bind_split_asm)
  have k: "table_ok s' \<and> bshm.more s' = bshm.more s \<and> owners_ok ((owner_of (slots s))(fd := None)) (bindings s')"
  proof (cases "bound ?v = 0")
    case True
    then have "(owner_of (slots s))(fd := None) = owner_of (slots s)" by (auto simp: owner_of_def)
    then show ?thesis using d True I(1,2) by simp
  next
    case False
    then have o: "owner_of (slots s) fd = Some (ucast (udp_port ?v), ip_addr ?v)" using fd by (simp add: owner_of_def)
    have "port_index (udp_port ?v) = Some (ucast (udp_port ?v))"
      using I(3) [OF fd] False by (intro port_index_of) (simp add: slot_ok_def)
    then show ?thesis using bt.unregister [OF I(1,2) o] d False by auto
  qed
  then show ?thesis using exch_of_more [of s' s] ex I(3) u fd by (simp add: par_inv_def pol_inv_def)
qed

lemma close_finish_inv:
  assumes inv: "par_inv (Closing fd, s)" and run: "close_finish fd s = Some s'"
  shows "par_inv (Idle, s')"
proof -
  have p: "pol_inv s" "owners_ok ((owner_of (slots s))(fd := None)) (bindings s)"
    "\<And>i. i < NUM_SOCKETS_MAX \<Longrightarrow> slot_ok (slots s i)" "unat fd < NUM_SOCKETS_MAX"
    using inv by (simp_all add: par_inv_def)
  let ?v = "closed_slot (slots s (unat fd))"
  have s': "s' = s\<lparr>slots := (slots s)(unat fd := ?v), n_zones_active := n_zones_active s + 1\<rparr>"
    using run slot_at_in [OF p(4), of s] by (simp add: close_finish_def set_slot_def closed_slot_def Let_def)
  have "owner_of ((slots s)(unat fd := ?v)) = (owner_of (slots s))(fd := None)"
    by (simp add: owner_upd [OF p(4)] closed_slot_def)
  moreover have "slot_ok ?v" by (simp add: slot_ok_def closed_slot_def)
  ultimately show ?thesis
    using p(1-3) unfolding s' by (simp add: par_inv_def pol_inv_def)
qed

lemma par_step_inv: "par_step ops cfg c c' \<Longrightarrow> par_inv c \<Longrightarrow> par_inv c'"
proof (induction rule: par_step.induct)
  case par_sys
  then show ?case unfolding par_inv_idle by (rule sys_step_inv)
qed (blast intro: bind_begin_inv bind_finish_inv close_begin_inv close_finish_inv
    par_inv_poller tx_round_keeps rx_round_keeps keeps_upd(4))+

lemma par_reach_inv: "par_reach ops cfg c c' \<Longrightarrow> par_inv c \<Longrightarrow> par_inv c'"
  by (induction rule: par_reach.induct) (auto intro: par_step_inv)

text \<open>A socket that has a binding is open; it is bound there, or about to be.\<close>

lemma par_bound_socket:
  assumes inv: "par_inv (pc, s)" and b: "b \<in> set (bindings s port)"
  shows "unat (bi_sockfd b) < NUM_SOCKETS_MAX \<and> used (slots s (unat (bi_sockfd b))) \<noteq> 0 \<and> pc \<noteq> Closing (bi_sockfd b) \<and>
    (bound (slots s (unat (bi_sockfd b))) \<noteq> 0 \<and> udp_port (slots s (unat (bi_sockfd b))) = ucast port \<and>
       ip_addr (slots s (unat (bi_sockfd b))) = bi_ip b \<or>
     (\<exists>a. pc = Binding (bi_sockfd b) a \<and> sin_port a = port \<and> sin_addr a = bi_ip b))"
proof -
  have p: "owners_ok (claimed pc (owner_of (slots s))) (bindings s)" "\<forall>i < NUM_SOCKETS_MAX. slot_ok (slots s i)" "pc_ok pc (slots s)"
    using inv by (simp_all add: par_inv_def)
  have o: "claimed pc (owner_of (slots s)) (bi_sockfd b) = Some (port, bi_ip b)"
    by (rule owners_okD(2) [OF p(1) b])
  show ?thesis
  proof (cases "\<exists>a. pc = Binding (bi_sockfd b) a")
    case True
    then show ?thesis using o p(3) by auto
  next
    case False
    then have w: "owner_of (slots s) (bi_sockfd b) = Some (port, bi_ip b)" "pc \<noteq> Closing (bi_sockfd b)"
      using o by (cases pc; auto split: if_splits)+
    then have n: "unat (bi_sockfd b) < NUM_SOCKETS_MAX" by (auto simp: owner_of_def split: if_splits)
    have sl: "slot_ok (slots s (unat (bi_sockfd b)))" using p(2) n by blast
    show ?thesis using sl owner_slot [OF sl w(1)] n w(2) by (simp add: slot_ok_def)
  qed
qed

subsection \<open>The halves of an allocation\<close>

text \<open>
  The element that \<open>udpdk_shmalloc\<close> will return is read from the header; afterwards the header is
  changed. The index is read again for the mark.
\<close>

definition shmalloc_pick :: "allocator \<Rightarrow> ptr option" where
  "shmalloc_pick a = (if n_free a = 0 then None else Some (elem_at a (next_free a)))"

definition shmalloc_mark :: "allocator \<Rightarrow> allocator" where
  "shmalloc_mark a =
     (let a = a\<lparr>n_free := n_free a - 1\<rparr>;
          a = a\<lparr>free_bitfield := SetBit (free_bitfield a) (next_free a)\<rparr>
      in if n_free a \<noteq> 0
         then (case find_free (unat (al_size a)) (free_bitfield a) (al_size a) (next_free a + 1) of
                 Some j \<Rightarrow> a\<lparr>next_free := j\<rparr>
               | None \<Rightarrow> a)
         else a)"

lemma shmalloc_halves:
  "udpdk_shmalloc a = (case shmalloc_pick a of None \<Rightarrow> (NULL, a) | Some p \<Rightarrow> (p, shmalloc_mark a))"
  by (simp add: udpdk_shmalloc_def shmalloc_pick_def shmalloc_mark_def Let_def)

text \<open>The application and the poller, each with one allocation from the same pool.\<close>

datatype alloc_pc = Ask | Picked ptr | Got ptr

inductive alloc_step :: "alloc_pc \<times> alloc_pc \<times> allocator \<Rightarrow> alloc_pc \<times> alloc_pc \<times> allocator \<Rightarrow> bool" where
  app_pick: "shmalloc_pick a = Some p \<Longrightarrow> alloc_step (Ask, y, a) (Picked p, y, a)"
| app_mark: "alloc_step (Picked p, y, a) (Got p, y, shmalloc_mark a)"
| pol_pick: "shmalloc_pick a = Some p \<Longrightarrow> alloc_step (x, Ask, a) (x, Picked p, a)"
| pol_mark: "alloc_step (x, Picked p, a) (x, Got p, shmalloc_mark a)"

inductive_cases alloc_stepE: "alloc_step c c'"

abbreviation alloc_steps :: "alloc_pc \<times> alloc_pc \<times> allocator \<Rightarrow> alloc_pc \<times> alloc_pc \<times> allocator \<Rightarrow> bool" where
  "alloc_steps \<equiv> alloc_step\<^sup>*\<^sup>*"

lemma shmalloc_some: "udpdk_shmalloc a = (p, a') \<Longrightarrow> p \<noteq> NULL \<Longrightarrow> shmalloc_pick a = Some p \<and> a' = shmalloc_mark a"
  by (auto simp: shmalloc_halves split: option.splits)

lemma two_allocations:
  assumes pick: "shmalloc_pick a = Some p" "shmalloc_pick (shmalloc_mark a) = Some q"
  shows "alloc_steps (Ask, Ask, a) (Got p, Got q, shmalloc_mark (shmalloc_mark a))"
    and "alloc_steps (Ask, Ask, a) (Got p, Got p, shmalloc_mark (shmalloc_mark a))"
proof -
  let ?a1 = "shmalloc_mark a" and ?a2 = "shmalloc_mark (shmalloc_mark a)"
  note four = rtranclp.rtrancl_into_rtrancl [OF rtranclp.rtrancl_into_rtrancl [OF rtranclp.rtrancl_into_rtrancl
      [OF rtranclp.rtrancl_into_rtrancl [OF rtranclp.rtrancl_refl]]]]
  show "alloc_steps (Ask, Ask, a) (Got p, Got q, ?a2)"
    by (rule four, rule app_pick [OF pick(1)], rule app_mark, rule pol_pick [OF pick(2)], rule pol_mark)
  show "alloc_steps (Ask, Ask, a) (Got p, Got p, ?a2)"
    by (rule four, rule app_pick [OF pick(1)], rule pol_pick [OF pick(1)], rule app_mark, rule pol_mark)
qed

end
