(* ===== verification/Walks.thy ===== *)
theory Walks
  imports Reception
begin

text \<open>
  The poller has opened an iterator on the bindings of a port (\<open>reassemble\<close> of \<open>udpdk_poller.c\<close>),
  and before it takes the first step the application closes a socket of that port (\<open>udpdk_close\<close> of
  \<open>udpdk_syscall.c\<close>), or binds one to it (\<open>udpdk_bind\<close>). Two iterators are in use at the same time, so
  the footprint has both. What the walk then does is given as \<open>deliver_net\<close> over a list of bindings.
\<close>

subsection \<open>Two iterators\<close>

lemma live_elem: "p \<in> live a \<Longrightarrow> \<exists>k < unat (al_size a). p = elem_at a (of_nat k)"
  by (auto simp: live_def used_idx_def)

lemma two_iters:
  assumes ok: "table_ok s"
  obtains a it a1 it' a2 where "iter_alloc s = Some a" "udpdk_shmalloc a = (it, a1)"
    "udpdk_shmalloc a1 = (it', a2)" "it \<noteq> it'" "separated ((with_next s)(IterObj := {it, it'}))"
proof -
  have inv: "table_inv s" and g: "geometry_ok s" and sz: "sizes_ok s"
    using ok by (simp_all add: table_ok_def)
  obtain a where a: "iter_alloc s = Some a" "alloc_inv a"
    using table_inv_alloc [OF inv, of IterObj] by auto
  have l0: "live a = {}"
    using table_relD(2) [OF table_inv_rel [OF inv]] a(1) by (simp add: footprint_of_def)
  have size: "unat (al_size a) = 10"
    using sz a(1) by (auto simp: sizes_ok_def dest: spec [of _ IterObj])
  have "n_free a \<noteq> 0" using n_free_full [OF a(2)] size l0 by simp
  then obtain it a1 where it: "udpdk_shmalloc a = (it, a1)" "alloc_inv a1" "live a1 = insert it (live a)"
      "same_pool a a1"
    using shmalloc_pair [OF a(2)] by metis
  have same: "al_size a1 = al_size a" "elem_at a1 = elem_at a"
    using it(4) same_pool_elem_at [OF it(4)] by (simp_all add: same_pool_def)
  have "n_free a1 \<noteq> 0" using n_free_full [OF it(2)] size l0 it(3) same(1) by simp
  then obtain it' a2 where it': "udpdk_shmalloc a1 = (it', a2)" "live a2 = insert it' (live a1)"
      "it' \<notin> live a1" "same_pool a1 a2"
    using shmalloc_pair [OF it(2)] by metis
  have same2: "al_size a2 = al_size a" "elem_at a2 = elem_at a"
    using it'(4) same same_pool_elem_at [OF it'(4)] by (simp_all add: same_pool_def)
  have al: "allocs_ok s" using inv by (simp add: table_inv_def)
  have "separated ((with_next s)(IterObj := {it, it'}))"
  proof (rule elems_separated [OF al g])
    show "\<exists>a k. alloc_of s K = Some a \<and> k < unat (al_size a) \<and> p = elem_at a (of_nat k)"
      if p: "p \<in> ((with_next s)(IterObj := {it, it'})) K" for K p
    proof (cases "K = IterObj")
      case True
      then have "p \<in> live a2" using p it'(2) it(3) l0 by auto
      then show ?thesis using live_elem [of p a2] True a(1) unfolding same2 by auto
    next
      case False
      then have "p \<in> with_next s K" using p by simp
      then show ?thesis by (rule with_next_elem [OF al]) blast
    qed
  qed
  then show thesis using that [OF a(1) it(1) it'(1)] it(3) it'(3) by auto
qed

lemma iter_at_frame:
  assumes it: "iter_at F m it d ps" and fr: "frame F T m m'" "(IterObj, it) \<notin> T"
  shows "iter_at F m' it d ps"
proof -
  have i: "it \<in> F IterObj" using it by (simp add: iter_at_def)
  have "(fld iter_next m' it :: ptr) = fld iter_next m it" by (rule frame_fld [OF fr(1) i fr(2)]) simp
  moreover have "(fld iter_direction m' it :: u32) = fld iter_direction m it" by (rule frame_fld [OF fr(1) i fr(2)]) simp
  ultimately show ?thesis using it by (simp add: iter_at_def)
qed

subsection \<open>A binding is deleted during the walk\<close>

text \<open>What the table then holds, whatever iterators are in use.\<close>

lemma bindings_deleted:
  assumes rel: "table_rel G (mem s) (sock_bind_table s) (port_nodes (mem s) (sock_bind_table s))"
    and nn: "sock_bind_table s port \<noteq> NULL"
    and ns: "port_nodes (mem s) (sock_bind_table s) port = us @ n # vs"
    and new: "dlist G (mem s') (sock_bind_table s port) (us @ vs)"
    and val: "\<And>x. x \<in> G NodeObj \<Longrightarrow> (fld node_val (mem s') x :: ptr) = fld node_val (mem s) x"
    and fr: "frame G (touched (sock_bind_table s port) (set us \<union> set vs)) (mem s) (mem s')"
    and tbl: "sock_bind_table s' = (sock_bind_table s)(port := if us @ vs = [] then NULL else sock_bind_table s port)"
  shows "bindings s' = (bindings s)(port := map (binding_at (mem s)) (us @ vs))"
    and "x \<in> G NodeObj \<Longrightarrow> binding_at (mem s') x = binding_at (mem s) x"
proof -
  note del = table_rel_del [OF rel nn ns new val fr refl refl]
  show "binding_at (mem s') x = binding_at (mem s) x" if "x \<in> G NodeObj" for x
    using del(2) that by simp
  then have same: "map (binding_at (mem s')) xs = map (binding_at (mem s)) xs" if "set xs \<subseteq> G NodeObj" for xs
    using that by auto
  have "set (us @ vs) \<subseteq> G NodeObj" "set (port_nodes (mem s) (sock_bind_table s) p) \<subseteq> G NodeObj" for p
    using table_rel_node [OF rel, of _ port] table_rel_node [OF rel, of _ p] ns by auto
  note S = same [OF this(1)] same [OF this(2)]
  have "table_rel (del_objs G (if us @ vs = [] then {sock_bind_table s port} else {}) n (fld node_val (mem s) n))
      (mem s') (sock_bind_table s') ((port_nodes (mem s) (sock_bind_table s))(port := us @ vs))"
    unfolding tbl by (rule del(1))
  from bindings_eq [OF this] show "bindings s' = (bindings s)(port := map (binding_at (mem s)) (us @ vs))"
    using S by (auto simp: fun_eq_iff bindings_eq [OF rel])
qed

text \<open>
  The iterator \<open>it\<close> of the poller has been opened; then the binding of \<open>n\<close> is deleted, with an
  iterator of its own. The link and the binding of \<open>n\<close> can still be read.
\<close>

lemma walk_delete_run:
  assumes inv: "table_inv s" and it: "iter_alloc s = Some a" "udpdk_shmalloc a = (it, a1)"
      "udpdk_shmalloc a1 = (it', a2)" "it \<noteq> it'"
    and F: "F = (footprint_of s)(IterObj := {it, it'})" and sep: "separated F"
    and nn: "sock_bind_table s port \<noteq> NULL"
    and ns: "port_nodes (mem s) (sock_bind_table s) port = us @ n # vs"
    and hit: "bi_sockfd (binding_at (mem s) n) = sk"
      "\<And>x. x \<in> set us \<Longrightarrow> bi_sockfd (binding_at (mem s) x) \<noteq> sk"
  obtains s1 s2 na where "list_iterator_new (sock_bind_table s port) LIST_HEAD s = Some (it, s1)" "bshm.more s1 = bshm.more s"
    "btable_del_binding sk port s1 = Some s2" "bshm.more s2 = bshm.more s"
    "node_alloc s = Some na" "node_alloc s2 = Some (udpdk_shfree na n)"
    "sock_bind_table s2 = (sock_bind_table s)(port := if us @ vs = [] then NULL else sock_bind_table s port)"
    "dlist F (mem s2) (sock_bind_table s port) (us @ vs)" "iter_at F (mem s2) it LIST_HEAD (us @ n # vs)"
    "frame (footprint_of s) (touched (sock_bind_table s port) (set us \<union> set vs)) (mem s) (mem s2)"
    "\<forall>x \<in> footprint_of s NodeObj. (fld node_val (mem s2) x :: ptr) = fld node_val (mem s) x"
proof -
  note rel = table_inv_rel [OF inv]
  let ?l = "sock_bind_table s port" and ?G = "footprint_of s" and ?ns = "us @ n # vs"
  have G: "?G K \<subseteq> F K" "?G IterObj = {}" for K
    using table_relD(2) [OF rel] by (simp_all add: F)
  have inF: "it \<in> F IterObj" "it' \<in> F IterObj" by (simp_all add: F)
  obtain la where la: "list_alloc s = Some la" using table_inv_alloc [OF inv, of ListObj] by auto
  obtain na where na: "node_alloc s = Some na" using table_inv_alloc [OF inv, of NodeObj] by auto
  obtain fa where fa: "info_alloc s = Some fa" using table_inv_alloc [OF inv, of InfoObj] by auto
  obtain m1 where m1: "list_iterator_new ?l LIST_HEAD s = Some (it, s\<lparr>mem := m1, iter_alloc := Some a1\<rparr>)"
      "iter_at F m1 it LIST_HEAD ?ns" "frame F {(IterObj, it)} (mem s) m1" "dlist F m1 ?l ?ns"
      "\<forall>n \<in> ?G NodeObj. n \<in> F NodeObj \<and> (fld node_val m1 n :: ptr) = fld node_val (mem s) n \<and>
        fld node_val m1 n \<in> F InfoObj \<and> binding_at m1 n = binding_at (mem s) n"
    by (rule open_iter_in [OF inv nn it(1,2) sep G(1) inF(1), unfolded ns])
  let ?s1 = "s\<lparr>mem := m1, iter_alloc := Some a1\<rparr>"
  have nG: "x \<in> ?G NodeObj" if "x \<in> set ?ns" for x using table_rel_node [OF rel, of x port] that ns by simp
  have d1: "dlist F (mem ?s1) (sock_bind_table ?s1 port) ?ns" using m1(4) by simp
  have al: "iter_alloc ?s1 = Some a1" "list_alloc ?s1 = Some la" "node_alloc ?s1 = Some na" "info_alloc ?s1 = Some fa"
    using la na fa by simp_all
  have valF: "fld node_val (mem ?s1) x \<in> F InfoObj" if "x \<in> set ?ns" for x
    using m1(5) [rule_format, OF nG [OF that]] by (elim conjE) simp
  have hit1: "bi_sockfd (binding_at (mem ?s1) x) \<noteq> sk" if "x \<in> set us" for x
    using hit(2) [OF that] m1(5) nG that by simp
  have hitn: "bi_sockfd (binding_at (mem ?s1) n) = sk" using hit(1) m1(5) nG by simp
  obtain m3 where m3: "btable_del_binding sk port ?s1 = Some (?s1\<lparr>mem := m3,
        list_alloc := Some (if us @ vs = [] then udpdk_shfree la (sock_bind_table ?s1 port) else la),
        node_alloc := Some (udpdk_shfree na n), iter_alloc := Some (udpdk_shfree a2 it'),
        info_alloc := Some (udpdk_shfree fa (fld node_val (mem ?s1) n)),
        sock_bind_table := (sock_bind_table ?s1)(port := if us @ vs = [] then NULL else sock_bind_table ?s1 port)\<rparr>)"
      "dlist F m3 (sock_bind_table ?s1 port) (us @ vs)"
      "frame F (insert (IterObj, it') (touched (sock_bind_table ?s1 port) (set us \<union> set vs))) (mem ?s1) m3"
      "vals_kept F (mem ?s1) m3"
    by (rule btable_del_run [OF sep al(1) it(3) inF(2) d1 valF hitn hit1 al(2-4)])
  have m3': "dlist F m3 ?l (us @ vs)" "frame F (insert (IterObj, it') (touched ?l (set us \<union> set vs))) m1 m3"
      "vals_kept F m1 m3"
    using m3(2-4) by simp_all
  have fr: "frame ?G (touched ?l (set us \<union> set vs)) (mem s) m3"
    by (rule frame_trans [OF frame_mono [OF m1(3) G(1)] frame_mono [OF m3'(2) G(1)]]) (use G(2) in auto)
  have val: "\<forall>x \<in> ?G NodeObj. (fld node_val m3 x :: ptr) = fld node_val (mem s) x"
    using m3'(3) m1(5) by (auto simp: vals_kept_def)
  have i3: "iter_at F m3 it LIST_HEAD ?ns"
    by (rule iter_at_frame [OF m1(2) m3'(2)]) (use it(4) in auto)
  show thesis by (rule that [OF m1(1) _ m3(1) _ na]) (use m3'(1) fr val i3 in simp_all)
qed

lemma walk_delete:
  assumes inv: "table_inv s" and it: "iter_alloc s = Some a" "udpdk_shmalloc a = (it, a1)"
      "udpdk_shmalloc a1 = (it', a2)" "it \<noteq> it'"
    and F: "F = (footprint_of s)(IterObj := {it, it'})" and sep: "separated F"
    and nn: "sock_bind_table s port \<noteq> NULL"
    and ns: "port_nodes (mem s) (sock_bind_table s) port = us @ n # vs"
    and hit: "bi_sockfd (binding_at (mem s) n) = sk"
      "\<And>x. x \<in> set us \<Longrightarrow> bi_sockfd (binding_at (mem s) x) \<noteq> sk"
  obtains s1 s2 where "list_iterator_new (sock_bind_table s port) LIST_HEAD s = Some (it, s1)" "bshm.more s1 = bshm.more s"
    "btable_del_binding sk port s1 = Some s2" "bshm.more s2 = bshm.more s"
    "bindings s2 = (bindings s)(port := map (binding_at (mem s)) (us @ vs))"
    "n \<in> footprint_of s NodeObj" "n \<notin> footprint_of s2 NodeObj"
    "dlist F (mem s2) (sock_bind_table s port) (us @ vs)" "iter_at F (mem s2) it LIST_HEAD (us @ n # vs)"
    "(fld node_next (mem s2) n :: ptr) = head_or NULL vs"
    "\<forall>x \<in> footprint_of s NodeObj. fld node_val (mem s2) x \<in> F InfoObj \<and> binding_at (mem s2) x = binding_at (mem s) x"
proof -
  note rel = table_inv_rel [OF inv]
  let ?l = "sock_bind_table s port" and ?G = "footprint_of s"
  have nG: "x \<in> ?G NodeObj" if "x \<in> set (us @ n # vs)" for x using table_rel_node [OF rel, of x port] that ns by simp
  have d: "dlist ?G (mem s) ?l (us @ n # vs)" using table_rel_dlist [OF rel nn] ns by simp
  obtain s1 s2 na where w: "list_iterator_new ?l LIST_HEAD s = Some (it, s1)" "bshm.more s1 = bshm.more s"
    "btable_del_binding sk port s1 = Some s2" "bshm.more s2 = bshm.more s"
    "node_alloc s = Some na" "node_alloc s2 = Some (udpdk_shfree na n)"
    "sock_bind_table s2 = (sock_bind_table s)(port := if us @ vs = [] then NULL else ?l)"
    "dlist F (mem s2) ?l (us @ vs)" "iter_at F (mem s2) it LIST_HEAD (us @ n # vs)"
    "frame ?G (touched ?l (set us \<union> set vs)) (mem s) (mem s2)"
    "\<forall>x \<in> ?G NodeObj. (fld node_val (mem s2) x :: ptr) = fld node_val (mem s) x"
    by (rule walk_delete_run [OF inv it F sep nn ns hit])
  have new: "dlist ?G (mem s2) ?l (us @ vs)"
    using dlist_shrink [OF w(8)] table_rel_list [OF rel nn] nG by auto
  note del = bindings_deleted [OF rel nn ns new w(11) [rule_format] w(10,7)]
  have "n \<notin> set us \<union> set vs" using d by (auto simp: dlist_def)
  then have "(fld node_next (mem s2) n :: ptr) = fld node_next (mem s) n"
    by (intro frame_fld [OF w(10) nG [of n]]) simp_all
  then have link: "(fld node_next (mem s2) n :: ptr) = head_or NULL vs" using d by (simp add: dlist_def seg_append)
  have "alloc_inv na" using table_inv_alloc [OF inv, of NodeObj] w(5) by auto
  then have free: "n \<notin> footprint_of s2 NodeObj"
    using live_shfree [of na n] nG [of n] w(5,6) by (simp add: footprint_of_def)
  have val: "\<forall>x \<in> ?G NodeObj. fld node_val (mem s2) x \<in> F InfoObj \<and> binding_at (mem s2) x = binding_at (mem s) x"
    using w(11) table_rel_val [OF rel] del(2) by (auto simp: F)
  show thesis by (rule that [OF w(1-4) del(1) nG free w(8,9) link val]) simp_all
qed

subsection \<open>The walk goes on\<close>

text \<open>
  With \<open>n\<close> unlinked, a walk that stands before the head of the list passes \<open>n\<close> by, unless \<open>n\<close> was
  the head: then it delivers to \<open>n\<close> as well, and follows its link back into the list.
\<close>

lemma walk_goes_on:
  fixes s :: "('r, 'm, 'f, 'n, 'a) pstate_scheme"
  assumes sep: "separated F" and d: "dlist F (mem s) l (us @ vs)" and it: "iter_at F (mem s) it LIST_HEAD (us @ n # vs)"
    and n: "n \<in> F NodeObj" "(fld node_next (mem s) n :: ptr) = head_or NULL vs"
    and val: "\<And>x. x \<in> set (us @ n # vs) \<Longrightarrow> fld node_val (mem s) x \<in> F InfoObj"
  shows "\<exists>mm. deliver_loop ops it ip m dl s =
      map_option (\<lambda>(m', dl', e, pool). (m', dl', s\<lparr>mem := mm, mbuf_pool := pool, exch_slots := e\<rparr>))
        (deliver_net ops ip (map (binding_at (mem s)) (if us = [] then n # vs else us @ vs)) m dl (exch_slots s) (mbuf_pool s))"
proof (cases us)
  case (Cons u us')
  have i: "iter_at F (mem s) it LIST_HEAD (us @ vs)" using it Cons by (simp add: iter_at_def)
  have p: "pending F (mem s) l LIST_HEAD (us @ vs)" using pending_new [OF d, of LIST_HEAD] by simp
  have v: "fld node_val (mem s) x \<in> F InfoObj" if "x \<in> set (us @ vs)" for x using val [of x] that by auto
  have e: "(if us = [] then n # vs else us @ vs) = us @ vs" using Cons by simp
  show ?thesis unfolding e using deliver_loop_refine [OF sep p i v, of ops ip m dl] by blast
next
  case Nil
  obtain m1 where m1: "list_iterator_next it s = Some (n, s\<lparr>mem := m1\<rparr>)" "iter_at F m1 it LIST_HEAD vs"
      "frame F {(IterObj, it)} (mem s) m1"
    using list_iterator_next_link [OF sep _ n(1), of s it vs vs] it n(2) Nil by auto
  have v: "(fld node_val m1 x :: ptr) = fld node_val (mem s) x" if "x \<in> F NodeObj" for x
    by (rule node_iter_frame [OF m1(3) that])
  have vsF: "x \<in> F NodeObj" if "x \<in> set vs" for x using d that by (auto simp: dlist_def)
  have nn: "n \<noteq> NULL" "fld node_val m1 n \<noteq> NULL"
    using separated_nonnull [OF sep n(1)] separated_nonnull [OF sep val [of n]] v [OF n(1)] by auto
  have b: "binding_at m1 x = binding_at (mem s) x" if "x \<in> F NodeObj" "x \<in> set (n # vs)" for x
    using binding_at_frame [OF m1(3) that(1)] val [of x] that(2) Nil by auto
  have bs: "map (binding_at m1) vs = map (binding_at (mem s)) vs" using b vsF by simp
  have pend: "pending F m1 l LIST_HEAD vs"
    using pending_new [OF dlist_iter_frame [OF d m1(3)], of LIST_HEAD] Nil by simp
  have "\<exists>mm. deliver_loop ops it ip m dl (s\<lparr>mem := m1, mbuf_pool := p, exch_slots := e\<rparr>) =
      map_option (\<lambda>(m', dl', e, pool). (m', dl', s\<lparr>mem := mm, mbuf_pool := pool, exch_slots := e\<rparr>))
        (deliver_net ops ip (map (binding_at (mem s)) vs) m dl e p) \<and>
      frame F {(IterObj, it)} (mem s) mm" for p e m dl
  proof -
    let ?t = "s\<lparr>mem := m1, mbuf_pool := p, exch_slots := e\<rparr>"
    have "fld node_val (mem ?t) x \<in> F InfoObj" if "x \<in> set vs" for x
      using val [of x] v [OF vsF [OF that]] that by simp
    then show ?thesis
      using deliver_loop_refine [OF sep, of ?t l vs it ops ip m dl] m1(2) pend bs frame_trans [OF m1(3)]
      by (auto simp: case_prod_unfold)
  qed
  note whole_walk = deliver_loop_cons [OF m1(1) nn b [OF n(1) list.set_intros(1)] m1(3) this, of m dl]
  have e: "map (binding_at (mem s)) (if us = [] then n # vs else us @ vs) =
      binding_at (mem s) n # map (binding_at (mem s)) vs" using Nil by simp
  show ?thesis unfolding e using whole_walk by blast
qed

subsection \<open>A socket is closed during the walk\<close>

lemma owner_node:
  assumes inv: "sock_inv s" and o: "owner_of (slots s) fd = Some (port, ip)"
  obtains us n vs where "port_nodes (mem s) (sock_bind_table s) port = us @ n # vs" "bi_sockfd (binding_at (mem s) n) = fd"
    "\<And>x. x \<in> set us \<Longrightarrow> bi_sockfd (binding_at (mem s) x) \<noteq> fd"
proof -
  let ?ns = "port_nodes (mem s) (sock_bind_table s) port"
  note I = sock_invD [OF inv]
  have "table_inv s" using I(1) by (simp add: table_ok_def)
  note rel = table_inv_rel [OF this]
  have "\<exists>b \<in> set (bindings s port). bi_sockfd b = fd" using owners_okD(3) [OF I(2) o] by auto
  then have "\<exists>x \<in> set ?ns. bi_sockfd (binding_at (mem s) x) = fd" by (auto simp: bindings_eq [OF rel])
  then show thesis by (rule split_first) (use that in auto)
qed

lemma close_during_walk:
  fixes s :: "('r, 'm, 'f, 'n, 'a) pstate_scheme"
  assumes inv: "sys_inv s" and o: "owner_of (slots s) fd = Some (port, ip0)"
  obtains it s1 s2 n where "list_iterator_new (sock_bind_table s port) LIST_HEAD s = Some (it, s1)"
    "udpdk_close fd s1 = Some (0, s2)" "slots s2 = (slots s)(unat fd := closed_slot (slots s (unat fd)))"
    "bindings s2 = (bindings s)(port := remove_socket fd (bindings s port))"
    "n \<in> footprint_of s NodeObj" "n \<notin> footprint_of s2 NodeObj" "bi_sockfd (binding_at (mem s2) n) = fd"
    "\<And>(ops :: ('r, 'm, 'f, 'n, 'z) poller_ops_scheme) ip m. \<exists>mm. deliver_loop ops it ip m False s2 =
      map_option (\<lambda>(m', dl', e, pool). (m', dl', s2\<lparr>mem := mm, mbuf_pool := pool, exch_slots := e\<rparr>))
        (deliver_net ops ip (if bi_sockfd (hd (bindings s port)) = fd then bindings s port
           else remove_socket fd (bindings s port)) m False (exch_slots s) (mbuf_pool s))"
proof -
  have si: "sock_inv s" using inv by (simp add: sys_inv_def)
  note I = sock_invD [OF si]
  have tinv: "table_inv s" using I(1) by (simp add: table_ok_def)
  note rel = table_inv_rel [OF tinv]
  let ?ns = "port_nodes (mem s) (sock_bind_table s) port" and ?v = "slots s (unat fd)"
  have bs: "bindings s port = map (binding_at (mem s)) ?ns" by (rule bindings_eq [OF rel])
  have fd: "unat fd < NUM_SOCKETS_MAX" "bound ?v \<noteq> 0" "port = ucast (udp_port ?v)"
    using o by (auto simp: owner_of_def split: if_splits)
  have slot: "slot_ok ?v" using I(3) fd(1) by blast
  obtain us n vs where ns: "?ns = us @ n # vs" "bi_sockfd (binding_at (mem s) n) = fd"
      "\<And>x. x \<in> set us \<Longrightarrow> bi_sockfd (binding_at (mem s) x) \<noteq> fd"
    by (rule owner_node [OF si o]) blast
  have nn: "sock_bind_table s port \<noteq> NULL"
    using ns(1) table_rel_nonempty [OF rel, of port] by auto
  obtain a it a1 it' a2 where it: "iter_alloc s = Some a" "udpdk_shmalloc a = (it, a1)"
      "udpdk_shmalloc a1 = (it', a2)" "it \<noteq> it'" "separated ((with_next s)(IterObj := {it, it'}))"
    by (rule two_iters [OF I(1)])
  define F where "F = (footprint_of s)(IterObj := {it, it'})"
  have sep: "separated F" by (rule separated_mono [OF it(5)]) (use footprint_next [of s] in \<open>simp add: F_def\<close>)
  obtain s1 t where w: "list_iterator_new (sock_bind_table s port) LIST_HEAD s = Some (it, s1)" "bshm.more s1 = bshm.more s"
      "btable_del_binding fd port s1 = Some t" "bshm.more t = bshm.more s"
      "bindings t = (bindings s)(port := map (binding_at (mem s)) (us @ vs))"
      "n \<in> footprint_of s NodeObj" "n \<notin> footprint_of t NodeObj"
      "dlist F (mem t) (sock_bind_table s port) (us @ vs)" "iter_at F (mem t) it LIST_HEAD (us @ n # vs)"
      "(fld node_next (mem t) n :: ptr) = head_or NULL vs"
      "\<forall>x \<in> footprint_of s NodeObj. fld node_val (mem t) x \<in> F InfoObj \<and> binding_at (mem t) x = binding_at (mem s) x"
    by (rule walk_delete [OF tinv it(1-4) F_def sep nn ns]) blast
  note f1 = rest_fields [OF w(2)] and f2 = rest_fields [OF w(4)]
  let ?s2 = "t\<lparr>slots := (slots s)(unat fd := closed_slot ?v), n_zones_active := n_zones_active s + 1\<rparr>"
  have "close_validate_args fd s1 = Some (0, s1)"
    using slot slot_at_in [OF fd(1), of s1] f1 fd(2) by (simp add: close_validate_args_def slot_ok_def)
  then have run: "udpdk_close fd s1 = Some (0, ?s2)"
    using slot_at_in [OF fd(1), of s1] slot_at_in [OF fd(1), of t] f1 f2 fd(2) slot w(3)
    by (simp add: udpdk_close_def set_slot_def closed_slot_def slot_ok_def port_index_of fd(3) [symmetric])
  have rm: "map (binding_at (mem s)) (us @ vs) = remove_socket fd (bindings s port)"
    unfolding bs ns(1) map_append list.map
    by (rule remove_socket_hit [symmetric]) (use ns(2,3) in auto)
  have nodes: "x \<in> footprint_of s NodeObj" if "x \<in> set (us @ n # vs)" for x
    using table_rel_node [OF rel, of x port] that ns(1) by simp
  have b2: "bindings ?s2 = bindings t" "footprint_of ?s2 = footprint_of t"
    by (rule table_cong) (simp_all add: footprint_of_def fun_eq_iff)
  have here: "map (binding_at (mem ?s2)) (if us = [] then n # vs else us @ vs) =
      (if bi_sockfd (hd (bindings s port)) = fd then bindings s port else remove_socket fd (bindings s port))"
    unfolding rm [symmetric] unfolding bs ns(1)
    using w(11) nodes ns(2,3) by (cases us) auto
  have ex: "exch_slots ?s2 = exch_slots s" "mbuf_pool ?s2 = mbuf_pool s"
    using f2 dstate_rest [of t s] exch_of_rest [of t s] by simp_all
  have d2: "dlist F (mem ?s2) (sock_bind_table s port) (us @ vs)" and i2: "iter_at F (mem ?s2) it LIST_HEAD (us @ n # vs)"
    and l2: "(fld node_next (mem ?s2) n :: ptr) = head_or NULL vs" using w(8-10) by simp_all
  have nF: "n \<in> F NodeObj" using w(6) by (simp add: F_def)
  have val: "fld node_val (mem ?s2) x \<in> F InfoObj" if "x \<in> set (us @ n # vs)" for x
    using w(11) nodes [OF that] by simp
  have walk: "\<exists>mm. deliver_loop ops it ip m False ?s2 =
      map_option (\<lambda>(m', dl', e, pool). (m', dl', ?s2\<lparr>mem := mm, mbuf_pool := pool, exch_slots := e\<rparr>))
        (deliver_net ops ip (if bi_sockfd (hd (bindings s port)) = fd then bindings s port
           else remove_socket fd (bindings s port)) m False (exch_slots s) (mbuf_pool s))" for ops :: "('r, 'm, 'f, 'n, 'z) poller_ops_scheme" and ip m
    using walk_goes_on [OF sep d2 i2 nF l2 val, of ops ip m False] unfolding here ex .
  show thesis
    by (rule that [OF w(1) run _ _ w(6) _ _ walk]) (use b2 w(5,7,11) rm ns(2) nodes in simp_all)
qed

subsection \<open>A socket is bound during the walk\<close>

text \<open>
  A binding is added to a port whose list the iterator \<open>it\<close> has been opened on: in front of the
  nodes of the walk, or behind the last one.
\<close>

lemma walk_add_run:
  assumes inv: "table_inv s" and it: "iter_alloc s = Some a" "udpdk_shmalloc a = (it, a1)"
      "udpdk_shmalloc a1 = (it', a2)" "it \<noteq> it'"
    and na: "node_alloc s = Some na" "udpdk_shmalloc na = (n, na')" "n \<notin> footprint_of s NodeObj"
    and fa: "info_alloc s = Some fa" "udpdk_shmalloc fa = (b, fa')" "b \<notin> footprint_of s InfoObj"
    and F: "F = (add_objs (footprint_of s) (sock_bind_table s port) n b)(IterObj := {it, it'})" and sep: "separated F"
    and nn: "sock_bind_table s port \<noteq> NULL"
    and ns: "port_nodes (mem s) (sock_bind_table s) port = ns" and len: "length ns + 1 < 2 ^ 32"
    and ps: "ps = (if ip = INADDR_ANY then n # ns else ns @ [n])"
    and c: "list_all (compatible ip opts) (bindings s port)"
  obtains s1 s2 where "list_iterator_new (sock_bind_table s port) LIST_HEAD s = Some (it, s1)" "bshm.more s1 = bshm.more s"
    "btable_add_binding sk ip port opts s1 = Some (0, s2)" "bshm.more s2 = bshm.more s" "sock_bind_table s2 = sock_bind_table s"
    "dlist F (mem s2) (sock_bind_table s port) ps" "iter_at F (mem s2) it LIST_HEAD ns"
    "fld node_val (mem s2) n = b" "binding_at (mem s2) n = new_info sk ip opts"
    "frame (footprint_of s) (touched (sock_bind_table s port) (set ns)) (mem s) (mem s2)"
    "\<forall>x \<in> footprint_of s NodeObj. (fld node_val (mem s2) x :: ptr) = fld node_val (mem s) x"
proof -
  note rel = table_inv_rel [OF inv]
  let ?l = "sock_bind_table s port" and ?G = "footprint_of s"
  have GI: "?G IterObj = {}" by (rule table_relD(2) [OF rel])
  have GF: "?G K \<subseteq> F K" for K using GI by (cases K) (auto simp: F)
  have inF: "it \<in> F IterObj" "it' \<in> F IterObj" "n \<in> F NodeObj" "b \<in> F InfoObj" by (simp_all add: F)
  have bs: "bindings s port = map (binding_at (mem s)) ns" using bindings_eq [OF rel, of port] ns by simp
  have nG: "x \<in> ?G NodeObj" if "x \<in> set ns" for x using table_rel_node [OF rel, of x port] that ns by simp
  have nns: "n \<notin> set ns" using nG na(3) by blast
  obtain m1 where m1: "list_iterator_new ?l LIST_HEAD s = Some (it, s\<lparr>mem := m1, iter_alloc := Some a1\<rparr>)"
      "iter_at F m1 it LIST_HEAD ns" "frame F {(IterObj, it)} (mem s) m1" "dlist F m1 ?l ns"
      "\<forall>n \<in> ?G NodeObj. n \<in> F NodeObj \<and> (fld node_val m1 n :: ptr) = fld node_val (mem s) n \<and>
        fld node_val m1 n \<in> F InfoObj \<and> binding_at m1 n = binding_at (mem s) n"
    by (rule open_iter_in [OF inv nn it(1,2) sep GF inF(1), unfolded ns])
  let ?s1 = "s\<lparr>mem := m1, iter_alloc := Some a1\<rparr>"
  have s1: "iter_alloc ?s1 = Some a1" "dlist F (mem ?s1) (sock_bind_table ?s1 port) ns" using m1(4) by simp_all
  have v1: "fld node_val (mem ?s1) x \<in> F InfoObj" if "x \<in> set ns" for x
    using m1(5) [rule_format, OF nG [OF that]] by (elim conjE) simp
  obtain m2 where m2: "btable_can_bind ip port opts ?s1 = Some (list_all (compatible ip opts) (map (binding_at (mem ?s1)) ns),
        ?s1\<lparr>mem := m2, iter_alloc := Some (udpdk_shfree a2 it')\<rparr>)" "frame F {(IterObj, it')} (mem ?s1) m2"
    by (rule btable_can_bind_run [OF sep s1(1) it(3) inF(2) s1(2) v1])
  let ?s2 = "?s1\<lparr>mem := m2, iter_alloc := Some (udpdk_shfree a2 it')\<rparr>"
  have ok: "list_all (compatible ip opts) (map (binding_at (mem ?s1)) ns)"
    using c m1(5) nG by (simp add: bs list_all_iff)
  have d2: "dlist F (mem ?s2) (sock_bind_table ?s2 port) ns" "node_alloc ?s2 = Some na" "info_alloc ?s2 = Some fa"
    using dlist_iter_frame [OF s1(2) m2(2)] na(1) fa(1) by simp_all
  obtain m3 where m3: "add_new sk ip port opts ?s2 =
        Some (0, ?s2\<lparr>mem := m3, node_alloc := Some na', info_alloc := Some fa'\<rparr>)"
      "dlist F m3 (sock_bind_table ?s2 port) ps" "fld node_val m3 n = b" "binding_at m3 n = new_info sk ip opts"
      "frame F (insert (InfoObj, b) (touched (sock_bind_table ?s2 port) (insert n (set ns)))) (mem ?s2) m3"
      "\<forall>x \<in> F NodeObj. x \<noteq> n \<longrightarrow> (fld node_val m3 x :: ptr) = fld node_val (mem ?s2) x"
    using add_new_refine [OF sep inF(3,4) d2(1) nns len d2(2) na(2) d2(3) fa(2) ps, of sk opts] by blast
  have t2: "sock_bind_table ?s2 port = ?l" "mem ?s2 = m2" "mem ?s1 = m1" by simp_all
  note m3' = m3(2) [unfolded t2] m3(5,6) [unfolded t2] and m2' = m2(2) [unfolded t2]
  have run: "btable_add_binding sk ip port opts ?s1 = Some (0, ?s2\<lparr>mem := m3, node_alloc := Some na', info_alloc := Some fa'\<rparr>)"
    using m2(1) m3(1) nn ok by (simp add: btable_add_binding_eq add_rest_def)
  have fr: "frame ?G (touched ?l (set ns)) (mem s) m3"
    by (rule frame_trans [OF frame_mono [OF m1(3) GF] frame_trans [OF frame_mono [OF m2' GF] frame_mono [OF m3'(2) GF]]])
      (use GI na(3) fa(3) in \<open>auto simp: touched_def\<close>)
  have val: "\<forall>x \<in> ?G NodeObj. (fld node_val m3 x :: ptr) = fld node_val (mem s) x"
  proof
    fix x assume x: "x \<in> ?G NodeObj"
    then have "x \<in> F NodeObj" "x \<noteq> n" using GF na(3) by auto
    then show "(fld node_val m3 x :: ptr) = fld node_val (mem s) x" using m3'(3) node_iter_frame [OF m2'] m1(5) x by simp
  qed
  have i3: "iter_at F m3 it LIST_HEAD ns"
    using iter_at_frame [OF iter_at_frame [OF m1(2) m2'] m3'(2)] it(4) by simp
  show thesis by (rule that [OF m1(1) _ run]) (use m3'(1) m3(3,4) fr val i3 in simp_all)
qed

lemma walk_add:
  assumes inv: "table_inv s" and it: "iter_alloc s = Some a" "udpdk_shmalloc a = (it, a1)"
      "udpdk_shmalloc a1 = (it', a2)" "it \<noteq> it'"
    and na: "node_alloc s = Some na" "udpdk_shmalloc na = (n, na')" "n \<notin> footprint_of s NodeObj"
    and fa: "info_alloc s = Some fa" "udpdk_shmalloc fa = (b, fa')" "b \<notin> footprint_of s InfoObj"
    and F: "F = (add_objs (footprint_of s) (sock_bind_table s port) n b)(IterObj := {it, it'})" and sep: "separated F"
    and nn: "sock_bind_table s port \<noteq> NULL"
    and ns: "port_nodes (mem s) (sock_bind_table s) port = ns" and len: "length ns + 1 < 2 ^ 32"
    and ps: "ps = (if ip = INADDR_ANY then n # ns else ns @ [n])"
    and c: "list_all (compatible ip opts) (bindings s port)"
  obtains s1 s2 where "list_iterator_new (sock_bind_table s port) LIST_HEAD s = Some (it, s1)" "bshm.more s1 = bshm.more s"
    "btable_add_binding sk ip port opts s1 = Some (0, s2)" "bshm.more s2 = bshm.more s"
    "bindings s2 = (bindings s)(port := insert_binding (new_info sk ip opts) (bindings s port))"
    "dlist F (mem s2) (sock_bind_table s port) ps" "iter_at F (mem s2) it LIST_HEAD ns"
    "\<forall>x \<in> set ps. fld node_val (mem s2) x \<in> F InfoObj"
    "map (binding_at (mem s2)) ns = bindings s port" "binding_at (mem s2) n = new_info sk ip opts"
proof -
  note rel = table_inv_rel [OF inv]
  let ?l = "sock_bind_table s port" and ?G = "footprint_of s" and ?ns = "port_nodes (mem s) (sock_bind_table s)"
  let ?A = "add_objs ?G ?l n b"
  have GI: "?G IterObj = {}" by (rule table_relD(2) [OF rel])
  have AF: "?A K \<subseteq> F K" for K using GI by (cases K) (simp_all add: F)
  have old: "set (?ns p) \<subseteq> ?G NodeObj" for p using table_rel_node [OF rel] by blast
  obtain s1 s2 where w: "list_iterator_new ?l LIST_HEAD s = Some (it, s1)" "bshm.more s1 = bshm.more s"
    "btable_add_binding sk ip port opts s1 = Some (0, s2)" "bshm.more s2 = bshm.more s" "sock_bind_table s2 = sock_bind_table s"
    "dlist F (mem s2) ?l ps" "iter_at F (mem s2) it LIST_HEAD ns"
    "fld node_val (mem s2) n = b" "binding_at (mem s2) n = new_info sk ip opts"
    "frame ?G (touched ?l (set ns)) (mem s) (mem s2)"
    "\<forall>x \<in> ?G NodeObj. (fld node_val (mem s2) x :: ptr) = fld node_val (mem s) x"
    by (rule walk_add_run [OF inv it na fa F sep nn ns len ps c])
  have new: "dlist ?A (mem s2) ?l ps" by (rule dlist_shrink [OF w(6)]) (use old [of port] ns ps in auto)
  have L: "if sock_bind_table s port = NULL then ?l \<notin> ?G ListObj else ?l = sock_bind_table s port" using nn by simp
  have set_ps: "set ps = insert n (set (?ns port))" by (simp add: ps ns)
  note A = table_rel_add [OF rel separated_mono [OF sep AF] L na(3) fa(3) new set_ps w(8) w(11) [rule_format], unfolded ns, OF _ w(10)]
  have keep: "map (binding_at (mem s2)) xs = map (binding_at (mem s)) xs" if "set xs \<subseteq> ?G NodeObj" for xs
    using A(2) that by auto
  note kns = keep [OF old [of port, unfolded ns], folded bindings_eq [OF rel, of port, unfolded ns]]
  have "table_rel ?A (mem s2) (sock_bind_table s2) (?ns(port := ps))" using A(1) by (simp add: w(5))
  note b2 = bindings_eq [OF this]
  have b3: "bindings s2 = (bindings s)(port := insert_binding (new_info sk ip opts) (bindings s port))"
    using keep [OF old] w(9) kns
    by (auto simp: fun_eq_iff b2 bindings_eq [OF rel] ps insert_binding_def new_info_def ns)
  have "fld node_val (mem s2) x \<in> F InfoObj" if "x \<in> ?G NodeObj" for x
    using w(11) that table_rel_val [OF rel that] AF [of InfoObj] by auto
  then have v3: "\<forall>x \<in> set ps. fld node_val (mem s2) x \<in> F InfoObj"
    using old [of port] ns w(8) AF [of InfoObj] by (auto simp: ps)
  show thesis by (rule that [OF w(1-4) b3 w(6,7) v3 kns w(9)])
qed

lemma binding_objects:
  assumes inv: "table_inv s" and free: "has_free s NodeObj" "has_free s InfoObj"
  obtains na n na' fa b fa' where "node_alloc s = Some na" "udpdk_shmalloc na = (n, na')" "n \<notin> footprint_of s NodeObj"
    "info_alloc s = Some fa" "udpdk_shmalloc fa = (b, fa')" "b \<notin> footprint_of s InfoObj"
    "n \<in> with_next s NodeObj" "b \<in> with_next s InfoObj"
    "length (port_nodes (mem s) (sock_bind_table s) p) + 1 < 2 ^ 32"
proof -
  obtain na where na: "node_alloc s = Some na" "alloc_inv na" "n_free na \<noteq> 0"
    using table_inv_alloc [OF inv, of NodeObj] free(1) by (auto simp: has_free_def)
  obtain fa where fa: "info_alloc s = Some fa" "alloc_inv fa" "n_free fa \<noteq> 0"
    using table_inv_alloc [OF inv, of InfoObj] free(2) by (auto simp: has_free_def)
  obtain n na' where n: "udpdk_shmalloc na = (n, na')" "n \<notin> live na" by (rule shmalloc_pair [OF na(2,3)])
  obtain b fa' where b: "udpdk_shmalloc fa = (b, fa')" "b \<notin> live fa" by (rule shmalloc_pair [OF fa(2,3)])
  have "n \<in> with_next s NodeObj" "b \<in> with_next s InfoObj"
    using shmalloc_with_next [OF _ na(3) n(1), of s NodeObj] shmalloc_with_next [OF _ fa(3) b(1), of s InfoObj] na(1) fa(1)
    by simp_all
  then show thesis
    using that [OF na(1) n(1) _ fa(1) b(1)] n(2) b(2) na(1) fa(1) port_length [OF inv na(1,3)] by (simp add: footprint_of_def)
qed

lemma bind_during_walk:
  fixes s :: "('r, 'm, 'f, 'n, 'a) pstate_scheme"
  assumes inv: "sys_inv s" and fd: "unat fd < NUM_SOCKETS_MAX" and sl: "used (slots s (unat fd)) \<noteq> 0" "bound (slots s (unat fd)) = 0"
    and a: "good_addr a addrlen" and c: "list_all (compatible (sin_addr a) (so_options (slots s (unat fd)))) (bindings s (sin_port a))"
    and ne: "bindings s (sin_port a) \<noteq> []"
  obtains it s1 s2 where "list_iterator_new (sock_bind_table s (sin_port a)) LIST_HEAD s = Some (it, s1)"
    "udpdk_bind fd (Some a) addrlen s1 = Some (0, s2)"
    "bindings s2 = (bindings s)(sin_port a := insert_binding
       (new_info fd (sin_addr a) (so_options (slots s (unat fd)))) (bindings s (sin_port a)))"
    "\<And>(ops :: ('r, 'm, 'f, 'n, 'z) poller_ops_scheme) ip m. \<exists>mm. deliver_loop ops it ip m False s2 =
      map_option (\<lambda>(m', dl', e, pool). (m', dl', s2\<lparr>mem := mm, mbuf_pool := pool, exch_slots := e\<rparr>))
        (deliver_net ops ip (bindings (if sin_addr a = INADDR_ANY then s else s2) (sin_port a)) m False
          (exch_slots s) (mbuf_pool s))"
proof -
  have si: "sock_inv s" using inv by (simp add: sys_inv_def)
  note I = sock_invD [OF si]
  have tinv: "table_inv s" and sz: "sizes_ok s" using I(1) by (simp_all add: table_ok_def)
  note rel = table_inv_rel [OF tinv]
  let ?p = "sin_port a" and ?o = "so_options (slots s (unat fd))" and ?v = "bound_slot a (slots s (unat fd))"
  let ?l = "sock_bind_table s ?p" and ?G = "footprint_of s" and ?ns = "port_nodes (mem s) (sock_bind_table s) ?p"
  have nn: "?l \<noteq> NULL" using ne table_rel_nonempty [OF rel, of ?p] by (simp add: bindings_eq [OF rel])
  have "n_bound (bindings s) < NUM_SOCKETS_MAX" using owners_count [OF I(2)] owner_room(2) [where sl = "slots s", OF fd sl(2)] by simp
  then have free: "has_free s K" for K using has_free_below [OF tinv sz] by blast
  obtain na n na' fa b fa' where O: "node_alloc s = Some na" "udpdk_shmalloc na = (n, na')" "n \<notin> ?G NodeObj"
      "info_alloc s = Some fa" "udpdk_shmalloc fa = (b, fa')" "b \<notin> ?G InfoObj"
      "n \<in> with_next s NodeObj" "b \<in> with_next s InfoObj" "length ?ns + 1 < 2 ^ 32"
    by (rule binding_objects [OF tinv free free])
  obtain al it a1 it' a2 where it: "iter_alloc s = Some al" "udpdk_shmalloc al = (it, a1)"
      "udpdk_shmalloc a1 = (it', a2)" "it \<noteq> it'" "separated ((with_next s)(IterObj := {it, it'}))"
    by (rule two_iters [OF I(1)])
  define F where "F = (add_objs ?G ?l n b)(IterObj := {it, it'})"
  have lG: "?l \<in> ?G ListObj" by (rule table_rel_list [OF rel nn])
  have sub: "F K \<subseteq> ((with_next s)(IterObj := {it, it'})) K" for K
    using footprint_next [of s K] O(7,8) lG by (cases K) (auto simp: F_def)
  have sep: "separated F" by (rule separated_mono [OF it(5) sub])
  define ps where "ps = (if sin_addr a = INADDR_ANY then n # ?ns else ?ns @ [n])"
  obtain s1 t where w: "list_iterator_new ?l LIST_HEAD s = Some (it, s1)" "bshm.more s1 = bshm.more s"
    "btable_add_binding fd (sin_addr a) ?p ?o s1 = Some (0, t)" "bshm.more t = bshm.more s"
    "bindings t = (bindings s)(?p := insert_binding (new_info fd (sin_addr a) ?o) (bindings s ?p))"
    "dlist F (mem t) ?l ps" "iter_at F (mem t) it LIST_HEAD ?ns"
    "\<forall>x \<in> set ps. fld node_val (mem t) x \<in> F InfoObj"
    "map (binding_at (mem t)) ?ns = bindings s ?p" "binding_at (mem t) n = new_info fd (sin_addr a) ?o"
    by (rule walk_add [OF tinv it(1-4) O(1-6) F_def sep nn refl O(9) ps_def c])
  note f1 = rest_fields [OF w(2)] and f2 = rest_fields [OF w(4)]
  let ?s2 = "t\<lparr>slots := (slots s)(unat fd := ?v)\<rparr>"
  have run: "udpdk_bind fd (Some a) addrlen s1 = Some (0, ?s2)"
    using w(3) f1 f2 slot_at_in [OF fd, of s1] slot_at_in [OF fd, of t] bind_valid [OF fd _ _ a, of s1] sl
    by (simp add: udpdk_bind_def set_slot_def bound_slot_def)
  have b2: "bindings ?s2 = bindings t"
    by (rule table_cong) simp_all
  have ex: "exch_slots ?s2 = exch_slots s" "mbuf_pool ?s2 = mbuf_pool s"
    using f2 dstate_rest [of t s] exch_of_rest [of t s] by simp_all
  let ?ys = "if sin_addr a = INADDR_ANY then ?ns else ps"
  have ns: "?ns \<noteq> []" using nn table_rel_nonempty [OF rel, of ?p] by simp
  have i2: "iter_at F (mem ?s2) it LIST_HEAD ?ys" using w(7) ns by (cases ?ns) (auto simp: iter_at_def ps_def)
  have p2: "pending F (mem ?s2) ?l LIST_HEAD ?ys"
    using w(6) by (auto simp: pending_def ps_def intro: exI [of _ "[n]"] exI [of _ "[]"])
  have v2: "fld node_val (mem ?s2) x \<in> F InfoObj" if "x \<in> set ?ys" for x
    using w(8) that by (auto simp: ps_def split: if_splits)
  have here: "map (binding_at (mem ?s2)) ?ys = bindings (if sin_addr a = INADDR_ANY then s else ?s2) ?p"
    using w(9,10) unfolding b2 [symmetric] by (simp add: w(5) b2 ps_def insert_binding_def new_info_def)
  show thesis
  proof (rule that [OF w(1) run])
    show "\<exists>mm. deliver_loop ops it ip m False ?s2 =
      map_option (\<lambda>(m', dl', e, pool). (m', dl', ?s2\<lparr>mem := mm, mbuf_pool := pool, exch_slots := e\<rparr>))
        (deliver_net ops ip (bindings (if sin_addr a = INADDR_ANY then s else ?s2) ?p) m False
          (exch_slots s) (mbuf_pool s))" for ops :: "('r, 'm, 'f, 'n, 'z) poller_ops_scheme" and ip m
      using deliver_loop_refine [OF sep p2 i2 v2, of ops ip m False] unfolding here ex by blast
  qed (use w(5) b2 in simp)
qed

end
