(* ===== verification/Properties_Races.thy ===== *)
theory Properties_Races
  imports Properties_System Races Walks
begin

text \<open>
  Properties of the two processes inside one another's calls, each with an instance.
\<close>

subsection \<open>Binding and closing while the poller runs\<close>




subsection \<open>Closing while the poller walks\<close>

text \<open>
  C25: The poller has opened an iterator on the bindings of a port when the application closes a
  socket that is bound to that port. The call succeeds, its node is given back, and the table no
  longer has the binding. The walk then ends with what it would do on a table without
  the binding, but for one case: if the binding was the first of the port, the walk reads the node that
  is no longer in use, and delivers to the closed socket as if it were still bound.
\<close>

theorem close_during_delivery:
  fixes s :: "('r, 'm, 'f, 'n, 'a) pstate_scheme"
  assumes "sys_inv s" "owner_of (slots s) fd = Some (port, addr)"
  shows "\<exists>it (s1 :: ('r, 'm, 'f, 'n, 'a) pstate_scheme) (s2 :: ('r, 'm, 'f, 'n, 'a) pstate_scheme) node.
    list_iterator_new (sock_bind_table s port) LIST_HEAD s = Some (it, s1) \<and> udpdk_close fd s1 = Some (0, s2) \<and>
    used (slots s2 (unat fd)) = 0 \<and> bindings s2 = (bindings s)(port := remove_socket fd (bindings s port)) \<and>
    node \<in> footprint_of s NodeObj \<and> node \<notin> footprint_of s2 NodeObj \<and> bi_sockfd (binding_at (mem s2) node) = fd \<and>
    (\<forall>(ops :: ('r, 'm, 'f, 'n, 'z) poller_ops_scheme) ip m. \<exists>mm. deliver_loop ops it ip m False s2 =
      map_option (\<lambda>(m', dl', e, pool). (m', dl', s2\<lparr>mem := mm, mbuf_pool := pool, exch_slots := e\<rparr>))
        (deliver_net ops ip (if bi_sockfd (hd (bindings s port)) = fd then bindings s port
           else remove_socket fd (bindings s port)) m False (exch_slots s) (mbuf_pool s)))"
proof (rule close_during_walk [OF assms])
  fix it s1 s2 n
  assume w: "list_iterator_new (sock_bind_table s port) LIST_HEAD s = Some (it, s1)"
    "udpdk_close fd s1 = Some (0, s2)" "slots s2 = (slots s)(unat fd := closed_slot (slots s (unat fd)))"
    "bindings s2 = (bindings s)(port := remove_socket fd (bindings s port))"
    "n \<in> footprint_of s NodeObj" "n \<notin> footprint_of s2 NodeObj" "bi_sockfd (binding_at (mem s2) n) = fd"
    and walk: "\<And>(ops :: ('r, 'm, 'f, 'n, 'z) poller_ops_scheme) ip m. \<exists>mm. deliver_loop ops it ip m False s2 =
      map_option (\<lambda>(m', dl', e, pool). (m', dl', s2\<lparr>mem := mm, mbuf_pool := pool, exch_slots := e\<rparr>))
        (deliver_net ops ip (if bi_sockfd (hd (bindings s port)) = fd then bindings s port
           else remove_socket fd (bindings s port)) m False (exch_slots s) (mbuf_pool s))"
  have "used (slots s2 (unat fd)) = 0" by (simp add: w(3) closed_slot_def)
  then show ?thesis using w(1,2,4-7) walk by (intro exI [of _ it] exI [of _ s1] exI [of _ s2] exI [of _ n] conjI allI)
qed

text \<open>Socket 0 is closed while the poller has a packet for it: the packet is put in its buffer.\<close>

lemma demo_bound_socket:
  obtains s :: "(packet list, nat, unit, packet list) pstate" where "sys_inv s" "owner_of (slots s) 0 = Some (20480, 167772161)"
    "bindings s 20480 = [new_info 0 167772161 0]" "exch_slots s = exch_slots demo_two" "mbuf_pool s = mbuf_pool demo_two"
proof -
  have fd: "unat (0 :: u32) < NUM_SOCKETS_MAX" by (simp add: NUM_SOCKETS_MAX_def)
  have a: "good_addr demo_addr 16" by (simp add: good_addr_def demo_addr_def AF_INET_def sizeof_sockaddr_in_def)
  have sl: "slots demo_two 0 = closed\<lparr>used := 1\<rparr>" by (simp add: demo_two_def)
  obtain s where s: "udpdk_bind 0 (Some demo_addr) 16 demo_two = Some (0, s)" "sock_inv s"
      "slots s = (slots demo_two)(0 := bound_slot demo_addr (slots demo_two 0))" "sstate.more s = sstate.more demo_two"
      "bindings s = (\<lambda>_. [])(20480 := [new_info 0 167772161 0])"
    using udpdk_bind_done [OF demo_two_inv(1) fd _ _ a]
    by (auto simp: demo_two_inv(2) sl closed_def demo_addr_def insert_binding_def INADDR_ANY_def)
  have e: "exch_slots s = exch_slots demo_two" "mbuf_pool s = mbuf_pool demo_two"
    using dstate_rest [OF s(4)] exch_of_rest [of s demo_two] by simp_all
  have "sys_inv demo_two" using demo_two_inv(1) by (simp add: sys_inv_def demo_two_def demo_poll_def)
  then have "sys_inv s" using s(2) e(1) by (simp add: sys_inv_def)
  moreover have "owner_of (slots s) 0 = Some (20480, 167772161)"
    using fd by (simp add: owner_of_def s(3) bound_slot_def demo_addr_def)
  ultimately show thesis using that s(5) e by simp
qed

lemma close_during_delivery_witness:
  "\<exists>it (s1 :: (packet list, nat, unit, packet list) pstate) (s2 :: (packet list, nat, unit, packet list) pstate)
      (s3 :: (packet list, nat, unit, packet list) pstate).
    udpdk_close 0 s1 = Some (0, s2) \<and> used (slots s2 0) = 0 \<and> bindings s2 20480 = [] \<and>
    deliver_loop demo_loop it 167772161 (Some demo_pkt) False s2 = Some (Some demo_pkt, True, s3) \<and>
    buffered (exch_slots s3 0) = [Some demo_pkt]"
proof (rule demo_bound_socket)
  fix s :: "(packet list, nat, unit, packet list) pstate"
  assume s: "sys_inv s" "owner_of (slots s) 0 = Some (20480, 167772161)" "bindings s 20480 = [new_info 0 167772161 0]"
    "exch_slots s = exch_slots demo_two" "mbuf_pool s = mbuf_pool demo_two"
  have b: "matches 167772161 (new_info 0 167772161 0)" "\<not> shares (new_info 0 167772161 0)"
    by (simp_all add: matches_def shares_def new_info_def)
  have "exch_ok (exch_slots s k)" for k using s(1) by (simp add: sys_inv_def)
  moreover have "buffered (exch_slots s 0) = []" by (simp add: s(4) demo_two_def demo_poll_def buffered_def empty_exch_def)
  ultimately obtain x where x: "put_packet 0 (Some demo_pkt) (exch_slots s) = Some ((exch_slots s)(0 := x))"
      "buffered x = [Some demo_pkt]"
    using put_packet_ok [of "exch_slots s" 0 "Some demo_pkt"] by (auto simp: EXCH_BUF_SIZE_def BURST_SIZE_def)
  have i: "bi_sockfd (new_info 0 167772161 0) = 0" by (simp add: new_info_def)
  from close_during_delivery [OF s(1,2)] obtain it s1 and s2 :: "(packet list, nat, unit, packet list) pstate"
    where w: "udpdk_close 0 s1 = Some (0, s2)" "used (slots s2 (unat (0 :: u32))) = 0"
      "bindings s2 = (bindings s)(20480 := remove_socket 0 (bindings s 20480))"
      "\<exists>mm. deliver_loop demo_loop it 167772161 (Some demo_pkt) False s2 =
        map_option (\<lambda>(m', dl', e, pool). (m', dl', s2\<lparr>mem := mm, mbuf_pool := pool, exch_slots := e\<rparr>))
          (deliver_net demo_loop 167772161 (if bi_sockfd (hd (bindings s 20480)) = 0 then bindings s 20480
             else remove_socket 0 (bindings s 20480)) (Some demo_pkt) False (exch_slots s) (mbuf_pool s))"
    by blast
  have r: "remove_socket 0 (bindings s 20480) = []" "bi_sockfd (hd (bindings s 20480)) = 0"
    by (simp_all add: s(3) new_info_def)
  from w(4) obtain mm where "deliver_loop demo_loop it 167772161 (Some demo_pkt) False s2 =
      Some (Some demo_pkt, True, s2\<lparr>mem := mm, mbuf_pool := mbuf_pool s, exch_slots := (exch_slots s)(0 := x)\<rparr>)"
    unfolding r(2) if_P [OF refl] s(3) using b x(1) i by auto
  then have "udpdk_close 0 s1 = Some (0, s2) \<and> used (slots s2 0) = 0 \<and> bindings s2 20480 = [] \<and>
      deliver_loop demo_loop it 167772161 (Some demo_pkt) False s2 =
        Some (Some demo_pkt, True, s2\<lparr>mem := mm, mbuf_pool := mbuf_pool s, exch_slots := (exch_slots s)(0 := x)\<rparr>) \<and>
      buffered (exch_slots (s2\<lparr>mem := mm, mbuf_pool := mbuf_pool s, exch_slots := (exch_slots s)(0 := x)\<rparr>) 0) = [Some demo_pkt]"
    using w(1-3) r(1) x(2) by simp
  then show ?thesis by blast
qed

subsection \<open>Allocating while the other process allocates\<close>

text \<open>
  C27: Two allocations from the same pool, one by each process. One after the other they get
  different elements; when each picks its element before either marks it, the same
  steps leave the same allocator, but both have got the same element, and one that nobody has
  is marked as used.
\<close>

theorem concurrent_allocations_collide:
  assumes "alloc_inv a" "card (live a) + 1 < unat (al_size a)" "udpdk_shmalloc a = (p, a1)" "udpdk_shmalloc a1 = (q, a2)"
  shows "p \<noteq> q \<and> live a2 = insert q (insert p (live a)) \<and>
    alloc_steps (Ask, Ask, a) (Got p, Got q, a2) \<and> alloc_steps (Ask, Ask, a) (Got p, Got p, a2)"
proof -
  have p: "p \<notin> live a" "p \<noteq> NULL" "live a1 = insert p (live a)" "alloc_inv a1" "al_size a1 = al_size a"
    using sh.get_fresh [OF assms(1)] sh.get_inv [OF assms(1)] sh.get_cap [of a] assms(2,3) by (auto simp: word_unat_eq_iff)
  have "card (live a1) < unat (al_size a1)"
    using p(1,3,5) assms(2) sh.objs_finite [of a] by simp
  then have q: "q \<notin> live a1" "q \<noteq> NULL" "live a2 = insert q (live a1)"
    using sh.get_fresh [OF p(4)] assms(4) by auto
  note P = shmalloc_some [OF assms(3) p(2)] and Q = shmalloc_some [OF assms(4) q(2)]
  have "shmalloc_pick (shmalloc_mark a) = Some q" using P Q by simp
  from two_allocations [OF P [THEN conjunct1] this] show ?thesis
    using p(3) q(1,3) P Q by auto
qed

lemma concurrent_allocations_collide_witness:
  "\<exists>p a'. alloc_steps (Ask, Ask, demo_alloc 65536 4) (Got p, Got p, a') \<and> card (live a') = 2"
proof -
  obtain p a1 where r: "udpdk_shmalloc (demo_alloc 65536 4) = (p, a1)" by fastforce
  obtain q a2 where s: "udpdk_shmalloc a1 = (q, a2)" by fastforce
  have inv: "alloc_inv (demo_alloc 65536 4)" by (rule demo_alloc_inv) simp_all
  have room: "card (live (demo_alloc 65536 4)) + 1 < unat (al_size (demo_alloc 65536 4))" by (simp add: unat_of_nat)
  show ?thesis using concurrent_allocations_collide [OF inv room r s] by (intro exI [of _ p] exI [of _ a2]) auto
qed

end
