(* ===== verification/Spec2Isabelle.thy ===== *)
theory Spec2Isabelle
  imports Properties_Mains Properties_Args Properties_Races
begin

text \<open>
  A model of UDPDK, a UDP stack in user space on top of DPDK, and the theorems that make it
  correct. An application process calls \<open>udpdk_socket\<close>, \<open>udpdk_bind\<close>, \<open>udpdk_sendto\<close>,
  \<open>udpdk_recvfrom\<close>, \<open>udpdk_close\<close>; a second process, the poller, moves packets between the network
  card and one pair of rings per socket. The two share memory zones: the array of slots
  (\<open>struct exch_zone_info\<close>), and a table that maps each of the 65536 ports to a linked list of
  bindings. Lists, nodes, iterators and bindings are taken from four allocators of fixed-size
  elements in that memory. Two example applications use all of it from their \<open>main\<close> to their end: a
  packet generator and a latency test.

  \<^bold>\<open>Theories.\<close> Each program part has its definitions first, then its lemmas; the properties and
  their instances are in the \<open>Properties_\<close> theories. File names are those under \<open>src/udpdk\<close>, or
  under \<open>src\<close> when they begin with \<open>apps\<close>.

  \<^item> \<open>Prelude\<close>: types of machine integers, collections of simplification rules (\<open>code_defs\<close>), lists.
  \<^item> \<open>Memory\<close>: the shared memory as bytes at 64-bit addresses, with loads and stores of the
    fields of a struct in the LP64 layout, and the frame relation of the separation arguments.
  \<^item> \<open>Shmalloc\<close> (\<open>shmalloc/udpdk_shmalloc.c\<close>): the allocator with its bitfield and round-robin
    search, refined to the set of its live elements.
  \<^item> \<open>Linked_List\<close>, \<open>List_Refine\<close> (\<open>list/*.c\<close>): every list, node and iterator operation on the bytes,
    refined to sequences of nodes (\<open>dlist\<close>).
  \<^item> \<open>Bind_Table\<close>, \<open>Bind_Refine\<close>, \<open>Bind_Ops\<close>, \<open>Bind_Init\<close>, \<open>Registry\<close> (\<open>udpdk_bind_table.c\<close>): the table,
    refined to a sequence of bindings per port (\<open>bindings\<close>). Adding needs that the allocators have the
    objects, taking away only the memory of the one iterator that it uses (\<open>iter_room\<close>). \<open>Registry\<close> states the interface
    between the table and the sockets as a locale and interprets it on the code's model.
  \<^item> \<open>Sockets\<close>, \<open>Socket_Inv\<close>, \<open>Socket_Runs\<close> (\<open>udpdk_syscall.c\<close>): opening, options, binding and closing;
    \<open>sock_inv\<close> is the agreement of slots, table and allocators.
  \<^item> \<open>Boot\<close>, \<open>Init\<close>, \<open>Init_Props\<close> (\<open>udpdk_init.c\<close>, \<open>udpdk_list_init.c\<close>): setting up and tearing down of
    pools, zones, rings and slots in both processes, the fork, and the whole cleanup: the system
    calls in their order, then the sockets and the pools.
  \<^item> \<open>Datagram\<close>, \<open>Datagram_Props\<close> (\<open>udpdk_syscall.c\<close>): \<open>udpdk_sendto\<close> and \<open>udpdk_recvfrom\<close>, header by
    header and segment by segment.
  \<^item> \<open>Poller\<close>, \<open>Poller_Props\<close>, \<open>Poller_Tx\<close> (\<open>udpdk_poller.c\<close>): delivery, exchange buffers, transmission
    with fragmentation, and the loop of the poller.
  \<^item> \<open>System\<close>, \<open>Reception\<close>, \<open>End_To_End\<close>: both processes together: the steps of the system and the invariant
    of all states it reaches; what a receive half of a round does with a burst; and the way of a
    datagram from the sender's buffer to the receiver's.
  \<^item> \<open>Races\<close>: the two processes inside one another's calls. \<open>udpdk_bind\<close> and \<open>udpdk_close\<close> are cut
    between the table and the slot, with the poller in between; \<open>udpdk_shmalloc\<close> is cut between the
    element that it picks and its mark.
  \<^item> \<open>Walks\<close>: the poller between the opening of its iterator on the bindings of a port and the walk
    itself, with a socket of that port closed (\<open>close_during_walk\<close>) or bound (\<open>bind_during_walk\<close>) in between.
  \<^item> \<open>Ipc\<close> (\<open>udpdk_sync.c\<close>): the handshake of the two processes.
  \<^item> \<open>Decimal\<close>, \<open>Args\<close> (\<open>udpdk_args.c\<close>): the configuration file and the argument vectors.
  \<^item> \<open>Monitor\<close> (\<open>udpdk_monitor.c\<close>), \<open>Dump\<close> (\<open>udpdk_dump.c\<close>): what is printed of the readings of a link, and of
    a packet, with the bounds of the buffer that each line is printed into.
  \<^item> \<open>Timespec\<close>, \<open>Apps\<close>, \<open>Apps_Props\<close>: times as numbers of nanoseconds and the busy wait; what the two
    applications share; what a call does on an open and bound socket.
  \<^item> \<open>Pktgen\<close>, \<open>Pktgen_Props\<close> (\<open>apps/pktgen/main.c\<close>), \<open>Pingpong\<close>, \<open>Pingpong_Props\<close> (\<open>apps/pingpong/main.c\<close>):
    arguments, the bodies of the two sides, the statistics and the samples; what a run counts and
    measures, and that the sender keeps its rate.
  \<^item> \<open>Mains\<close>, \<open>Lifecycle\<close>: the two \<open>main\<close> functions; the one socket of an application on the system as
    \<open>udpdk_init\<close> really leaves it (with pools of elements of one byte), through the loops, to the
    cleanup that finds nothing in use.

  \<^bold>\<open>Conventions.\<close> A C integer is a word of its width; an \<open>int\<close> is a \<open>u32\<close> read with \<open>sint\<close> where the
  code compares it as a signed number. An operation returns \<open>None\<close> where the C code has no defined
  outcome (a \<open>NULL\<close> dereference, an index outside an array, a write behind a buffer), and for a loop
  that does not end; that an operation returns is part of each property. Errors are the returned
  value with \<open>errno\<close> in the state.

  \<^bold>\<open>Bounds.\<close> The sizes are those of \<open>udpdk_constants.h\<close>: 1024 sockets, 65536 ports, bursts of 128
  packets, a transmit table of 256. A wait for the other process polls its ring at most 101 times.
  The loops without a bound (the busy wait of \<open>udpdk_recvfrom\<close>, the walks over lists, the loop over a
  transmit ring, the loop of the poller, those of the applications) are partial functions, and theorems say when they end.

  \<^bold>\<open>Parameters.\<close> What DPDK does is an argument of the definitions that use it (records \<open>dpdk\<close> and
  \<open>poller_ops\<close>, and the arguments of the operations in \<open>Init\<close>, \<open>Ipc\<close> and \<open>Args\<close>): memory zones, pools of
  buffers, rings, the card, fragment tables, the checksum. So are \<open>getopt\<close>, the \<open>.ini\<close> parser and the
  parsers of addresses, the result of \<open>fork\<close>, the clock and the flags that signal handlers clear. What a theorem relies on is a named hypothesis (\<open>pool_laws\<close>, \<open>fifo\<close>,
  \<open>frag_bounded\<close>, \<open>card_takes_all\<close>, \<open>ring_appends\<close>, \<open>tx_appends\<close>, \<open>delivers\<close>, \<open>readable\<close>, \<open>paced\<close>), with an
  instance.

  \<^bold>\<open>Not modelled.\<close> Messages to the terminal and the usage texts, the delay between two rounds of the
  latency test, and the delivery of signals: what a handler of the application changes is a definition,
  the one of the poller only clears \<open>poller_alive\<close>, and when either runs is in the parameter that its
  flag is read from. The thread of the statistics is a round of its
  own between two changes of the counters; that it is not synchronised is not modelled. The header and
  the bitfield of an allocator are kept apart from the bytes of the memory. Of the interleavings
  inside the operations on the table and the halves of a round of the poller, three are covered: two
  allocations at a time (\<open>Races\<close>), and a socket closed or bound in front of a walk that has been
  opened (\<open>Walks\<close>). Everything else counts as one step, although the code takes no lock.
\<close>

end
